(* ===== verification/Prelude.thy ===== *)
theory Prelude
  imports Main "HOL-Library.Word"
begin

text \<open>
  Shared vocabulary of the development: the C integer types of \<^verbatim>\<open>src/include/c.h\<close> as words of the
  same width, the conversion \<^verbatim>\<open>(int32)\<close> of an unsigned difference, the linear search of
  \<^verbatim>\<open>src/include/port/pg_lfind.h\<close>, and the generic facts on words and lists that the
  components use.  The collections declared here are filled by the component theories:
  \<open>xid_simps\<close> holds the unfolding equations of the transaction id macros, \<open>xid_order\<close> the facts
  that turn modulo-2^32 comparisons into comparisons of positions.
\<close>

unbundle bit_operations_syntax

named_theorems xid_simps \<open>unfolding equations of the transaction id macros\<close>
named_theorems xid_order \<open>comparisons of transaction ids as comparisons of positions\<close>
named_theorems page_simps \<open>page, byte and bit addresses of the transaction logs\<close>
named_theorems infomask_simps \<open>tests and updates of the tuple header flag bits\<close>

section \<open>Integer types\<close>

type_synonym uint8 = "8 word"
type_synonym uint16 = "16 word"
type_synonym uint32 = "32 word"
type_synonym uint64 = "64 word"

type_synonym TransactionId = uint32
type_synonym MultiXactId = uint32
type_synonym CommandId = uint32
type_synonym Oid = uint32
type_synonym XLogRecPtr = uint64

definition InvalidXLogRecPtr :: XLogRecPtr where
  "InvalidXLogRecPtr = 0"

definition XLogRecPtrIsInvalid :: "XLogRecPtr \<Rightarrow> bool" where
  "XLogRecPtrIsInvalid r \<longleftrightarrow> r = InvalidXLogRecPtr"

definition BLCKSZ :: nat where
  "BLCKSZ = 8192"

section \<open>Errors\<close>

text \<open>The \<^verbatim>\<open>ereport(ERROR)\<close> and \<^verbatim>\<open>elog(ERROR)\<close> exits of the modelled functions.\<close>

datatype pg_error =
    ErrParallelXid
  | ErrRecoveryXid
  | ErrXidWraparound Oid
  | ErrSubtransCorrupt TransactionId TransactionId
  | ErrKnownAssignedOrder
  | ErrKnownAssignedFull
  | ErrTooManyChildXids
  | ErrTooManyClients
  | ErrRecoveryOid
  | ErrOidAdvance
  | ErrOidTooLate Oid Oid

section \<open>Signed reading of a difference\<close>

text \<open>
  \<^verbatim>\<open>(int32) (a - b)\<close>: the difference wraps in 32 bits and is then read as two's complement.
  Where both operands lie less than half the ring above a common base, the result is the
  difference of their distances to the base.
\<close>

lemma signed_take_bit_diff_nat:
  "m < 2147483648 \<Longrightarrow> n < 2147483648 \<Longrightarrow> signed_take_bit 31 (int m - int n) = int m - int n"
  by (rule signed_take_bit_int_eq_self) simp_all

lemma sint_small:
  fixes x :: uint32
  assumes "unat x < 2147483648"
  shows "sint x = int (unat x)"
  using signed_take_bit_diff_nat[OF assms, of 0] by (simp add: sint_uint)

lemma sint_diff_window:
  fixes a b base :: uint32
  assumes a: "unat (a - base) < 2147483648" and b: "unat (b - base) < 2147483648"
  shows "sint (a - b) = int (unat (a - base)) - int (unat (b - base))"
proof -
  let ?u = "a - base" and ?v = "b - base"
  have "sint (a - b) = sint (?u - ?v)" by simp
  also have "\<dots> = signed_take_bit 31 (sint ?u - sint ?v)"
    by (subst sint_word_ariths(2)) simp
  also have "\<dots> = int (unat ?u) - int (unat ?v)"
    by (simp only: sint_small[OF a] sint_small[OF b] signed_take_bit_diff_nat[OF a b])
  finally show ?thesis .
qed

lemma sint_nonneg_unat:
  fixes w :: uint32
  assumes "0 \<le> sint w"
  shows "unat w < 2147483648"
proof -
  have lt: "sint w < 2147483648" using sint_lt[of w] by simp
  have len: "LENGTH(32) = 32" by simp
  have "take_bit 32 (sint w) = sint w"
    by (rule take_bit_int_eq_self) (use assms lt in simp_all)
  then have "uint w = sint w" using uint_sint[of w] unfolding len by (simp only:)
  then have "uint w < 2147483648" using lt by (simp only:)
  then show ?thesis by (metis unat_eq_nat_uint nat_less_iff nat_numeral uint_ge_0 zless_nat_conj zero_less_numeral)
qed

text \<open>Distances on the 32-bit ring, computed from unbounded representatives.\<close>

lemma unat_diff_mod:
  fixes a b :: uint32
  assumes "uint a = F mod 4294967296" and "uint b = B mod 4294967296"
    and "B \<le> F" and "F - B < 4294967296"
  shows "unat (a - b) = nat (F - B)"
proof -
  have "uint (a - b) = (uint a - uint b) mod 4294967296"
    by (simp add: uint_word_ariths)
  also have "\<dots> = (F - B) mod 4294967296"
    using assms(1,2) by (simp add: mod_diff_eq)
  finally have "uint (a - b) = F - B" using assms(3,4) by simp
  then show ?thesis by (simp add: unat_eq_nat_uint)
qed

lemma unat_add_mod32: "unat (a + b) = (unat a + unat b) mod 4294967296" for a b :: uint32
  by (simp add: unat_word_ariths)

section \<open>Conversions between 32 and 64 bits\<close>

lemma unat32_less: "unat a < 4294967296" for a :: uint32
  using unsigned_less[of a] by simp

lemma uint32_less: "uint a < 4294967296" for a :: uint32
  using unsigned_less[of a] by simp

lemma unat_ucast32: "unat (ucast a :: uint32) = unat a mod 4294967296" for a :: uint64
  by (simp add: unsigned_ucast_eq take_bit_eq_mod)

lemma uint_ucast32: "uint (ucast a :: uint32) = uint a mod 4294967296" for a :: uint64
  by (simp add: unsigned_ucast_eq take_bit_eq_mod)

lemma unat_ucast64: "unat (ucast a :: uint64) = unat a" for a :: uint32
  using unat32_less[of a] by (simp add: unsigned_ucast_eq take_bit_eq_mod)

lemma word_of_int_mod64: "(word_of_int (k mod 18446744073709551616) :: uint32) = word_of_int k"
proof -
  have "take_bit 32 (take_bit 64 k) = take_bit 32 k" by simp
  then have "(word_of_int (take_bit 64 k) :: uint32) = word_of_int k"
    by (simp add: word_of_int_eq_iff)
  then show ?thesis by (simp add: take_bit_eq_mod)
qed

lemma ucast32_add: "(ucast (a + b) :: uint32) = ucast a + ucast b" for a b :: uint64
proof -
  have "uint (a + b) = (uint a + uint b) mod 18446744073709551616"
    by (simp add: uint_word_ariths)
  then have "(ucast (a + b) :: uint32) = word_of_int (uint a + uint b)"
    by (simp only: ucast_eq word_of_int_mod64)
  then show ?thesis by (simp only: ucast_eq wi_hom_add)
qed

lemma ucast32_diff: "(ucast (a - b) :: uint32) = ucast a - ucast b" for a b :: uint64
proof -
  have "uint (a - b) = (uint a - uint b) mod 18446744073709551616"
    by (simp add: uint_word_ariths)
  then have "(ucast (a - b) :: uint32) = word_of_int (uint a - uint b)"
    by (simp only: ucast_eq word_of_int_mod64)
  then show ?thesis by (simp only: ucast_eq wi_hom_sub)
qed

section \<open>Linear search\<close>

text \<open>\<^verbatim>\<open>pg_lfind32\<close>: the result of the scan, which the vectorised variants share.\<close>

fun pg_lfind32 :: "uint32 \<Rightarrow> uint32 list \<Rightarrow> bool" where
  "pg_lfind32 key [] = False"
| "pg_lfind32 key (x # base) = (if key = x then True else pg_lfind32 key base)"

lemma pg_lfind32_iff [simp]: "pg_lfind32 key base \<longleftrightarrow> key \<in> set base"
  by (induction base) auto

end
