(* ===== verification/Xid.thy ===== *)
theory Xid
  imports Prelude
begin

text \<open>
  Transaction ids: the macros and inline functions of \<^verbatim>\<open>src/include/access/transam.h\<close>, the
  comparisons of \<^verbatim>\<open>src/backend/access/transam/transam.c\<close> and the 32-to-64-bit conversion
  \<^verbatim>\<open>FullXidRelativeTo\<close> of \<^verbatim>\<open>src/backend/storage/ipc/procarray.c\<close>.  Ids are 32-bit words that
  wrap around; a full id is a 64-bit counter whose low half is the id.  The lemmas show that
  the modulo-2^32 comparisons agree with the order of the counter on any window of 2^31 ids,
  and that the conversions recover the counter value.
\<close>

section \<open>Special values and macros\<close>

definition InvalidTransactionId :: TransactionId where
  "InvalidTransactionId = 0"

definition BootstrapTransactionId :: TransactionId where
  "BootstrapTransactionId = 1"

definition FrozenTransactionId :: TransactionId where
  "FrozenTransactionId = 2"

definition FirstNormalTransactionId :: TransactionId where
  "FirstNormalTransactionId = 3"

definition MaxTransactionId :: TransactionId where
  "MaxTransactionId = 0xFFFFFFFF"

lemmas xid_consts =
  InvalidTransactionId_def BootstrapTransactionId_def FrozenTransactionId_def
  FirstNormalTransactionId_def MaxTransactionId_def

definition TransactionIdIsValid :: "TransactionId \<Rightarrow> bool" where
  "TransactionIdIsValid xid \<longleftrightarrow> xid \<noteq> InvalidTransactionId"

definition TransactionIdIsNormal :: "TransactionId \<Rightarrow> bool" where
  "TransactionIdIsNormal xid \<longleftrightarrow> xid \<ge> FirstNormalTransactionId"

text \<open>\<^verbatim>\<open>TransactionIdAdvance\<close> steps over the special ids at the wrap point.\<close>

definition TransactionIdAdvance :: "TransactionId \<Rightarrow> TransactionId" where
  "TransactionIdAdvance dest =
     (let dest = dest + 1
      in if dest < FirstNormalTransactionId then FirstNormalTransactionId else dest)"

text \<open>\<^verbatim>\<open>do { dest--; } while (dest < FirstNormalTransactionId)\<close>\<close>

function TransactionIdRetreat :: "TransactionId \<Rightarrow> TransactionId" where
  "TransactionIdRetreat dest =
     (if dest - 1 < FirstNormalTransactionId then TransactionIdRetreat (dest - 1) else dest - 1)"
  by pat_completeness auto
termination
proof (relation "measure unat", goal_cases)
  case (2 dest)
  then have "dest \<noteq> 0" by (auto simp: FirstNormalTransactionId_def)
  then show ?case by (simp add: measure_unat)
qed simp

declare TransactionIdRetreat.simps [simp del]

function xid_skip_special_down :: "TransactionId \<Rightarrow> TransactionId" where
  "xid_skip_special_down xid =
     (if xid < FirstNormalTransactionId then xid_skip_special_down (xid - 1) else xid)"
  by pat_completeness auto
termination
proof (relation "measure (\<lambda>x. if x < FirstNormalTransactionId then Suc (unat x) else 0)", goal_cases)
  case (2 xid)
  show ?case
  proof (cases "xid = 0")
    case True
    then show ?thesis by (simp add: FirstNormalTransactionId_def)
  next
    case False
    then show ?thesis using 2 measure_unat[of xid] by simp
  qed
qed simp

declare xid_skip_special_down.simps [simp del]

definition TransactionIdRetreatedBy :: "TransactionId \<Rightarrow> uint32 \<Rightarrow> TransactionId" where
  "TransactionIdRetreatedBy xid amount = xid_skip_special_down (xid - amount)"

definition NormalTransactionIdPrecedes :: "TransactionId \<Rightarrow> TransactionId \<Rightarrow> bool" where
  "NormalTransactionIdPrecedes id1 id2 \<longleftrightarrow> sint (id1 - id2) < 0"

definition NormalTransactionIdFollows :: "TransactionId \<Rightarrow> TransactionId \<Rightarrow> bool" where
  "NormalTransactionIdFollows id1 id2 \<longleftrightarrow> sint (id1 - id2) > 0"

section \<open>Comparisons\<close>

definition TransactionIdPrecedes :: "TransactionId \<Rightarrow> TransactionId \<Rightarrow> bool" where
  "TransactionIdPrecedes id1 id2 =
     (if \<not> TransactionIdIsNormal id1 \<or> \<not> TransactionIdIsNormal id2 then id1 < id2
      else let diff = sint (id1 - id2) in diff < 0)"

definition TransactionIdPrecedesOrEquals :: "TransactionId \<Rightarrow> TransactionId \<Rightarrow> bool" where
  "TransactionIdPrecedesOrEquals id1 id2 =
     (if \<not> TransactionIdIsNormal id1 \<or> \<not> TransactionIdIsNormal id2 then id1 \<le> id2
      else let diff = sint (id1 - id2) in diff \<le> 0)"

definition TransactionIdFollows :: "TransactionId \<Rightarrow> TransactionId \<Rightarrow> bool" where
  "TransactionIdFollows id1 id2 =
     (if \<not> TransactionIdIsNormal id1 \<or> \<not> TransactionIdIsNormal id2 then id1 > id2
      else let diff = sint (id1 - id2) in diff > 0)"

definition TransactionIdFollowsOrEquals :: "TransactionId \<Rightarrow> TransactionId \<Rightarrow> bool" where
  "TransactionIdFollowsOrEquals id1 id2 =
     (if \<not> TransactionIdIsNormal id1 \<or> \<not> TransactionIdIsNormal id2 then id1 \<ge> id2
      else let diff = sint (id1 - id2) in diff \<ge> 0)"

text \<open>\<^verbatim>\<open>TransactionIdLatest\<close> scans the child array back to front.\<close>

definition TransactionIdLatest :: "TransactionId \<Rightarrow> TransactionId list \<Rightarrow> TransactionId" where
  "TransactionIdLatest mainxid xids =
     foldl (\<lambda>result x. if TransactionIdPrecedes result x then x else result) mainxid (rev xids)"

definition TransactionIdOlder :: "TransactionId \<Rightarrow> TransactionId \<Rightarrow> TransactionId" where
  "TransactionIdOlder a b =
     (if \<not> TransactionIdIsValid a then b
      else if \<not> TransactionIdIsValid b then a
      else if TransactionIdPrecedes a b then a
      else b)"

definition NormalTransactionIdOlder :: "TransactionId \<Rightarrow> TransactionId \<Rightarrow> TransactionId" where
  "NormalTransactionIdOlder a b = (if NormalTransactionIdPrecedes a b then a else b)"

section \<open>Full transaction ids\<close>

record FullTransactionId =
  fxid_value :: uint64

definition EpochFromFullTransactionId :: "FullTransactionId \<Rightarrow> uint32" where
  "EpochFromFullTransactionId x = ucast (drop_bit 32 (fxid_value x))"

definition XidFromFullTransactionId :: "FullTransactionId \<Rightarrow> TransactionId" where
  "XidFromFullTransactionId x = ucast (fxid_value x)"

definition FullTransactionIdPrecedes :: "FullTransactionId \<Rightarrow> FullTransactionId \<Rightarrow> bool" where
  "FullTransactionIdPrecedes a b \<longleftrightarrow> fxid_value a < fxid_value b"

definition FullTransactionIdFollows :: "FullTransactionId \<Rightarrow> FullTransactionId \<Rightarrow> bool" where
  "FullTransactionIdFollows a b \<longleftrightarrow> fxid_value a > fxid_value b"

definition FullTransactionIdFollowsOrEquals :: "FullTransactionId \<Rightarrow> FullTransactionId \<Rightarrow> bool" where
  "FullTransactionIdFollowsOrEquals a b \<longleftrightarrow> fxid_value a \<ge> fxid_value b"

definition FullTransactionIdIsValid :: "FullTransactionId \<Rightarrow> bool" where
  "FullTransactionIdIsValid x \<longleftrightarrow> TransactionIdIsValid (XidFromFullTransactionId x)"

definition FullTransactionIdFromU64 :: "uint64 \<Rightarrow> FullTransactionId" where
  "FullTransactionIdFromU64 v = \<lparr>fxid_value = v\<rparr>"

definition FullTransactionIdFromEpochAndXid :: "uint32 \<Rightarrow> TransactionId \<Rightarrow> FullTransactionId" where
  "FullTransactionIdFromEpochAndXid epoch xid =
     \<lparr>fxid_value = push_bit 32 (ucast epoch) OR ucast xid\<rparr>"

definition FirstNormalFullTransactionId :: FullTransactionId where
  "FirstNormalFullTransactionId = FullTransactionIdFromEpochAndXid 0 FirstNormalTransactionId"

text \<open>The \<^verbatim>\<open>while\<close> loops of the 64-bit advance and retreat, on the counter value.\<close>

function fxid_skip_special_up :: "uint64 \<Rightarrow> uint64" where
  "fxid_skip_special_up v =
     (if (ucast v :: TransactionId) < FirstNormalTransactionId
      then fxid_skip_special_up (v + 1) else v)"
  by pat_completeness auto
termination
proof (relation "measure (\<lambda>v. 3 - unat (ucast v :: TransactionId))", goal_cases)
  case (2 v)
  have lt: "unat (ucast v :: TransactionId) < 3"
    using 2 by (simp add: FirstNormalTransactionId_def word_less_nat_alt)
  then have "unat (ucast (v + 1) :: TransactionId) = unat (ucast v :: TransactionId) + 1"
    by (simp add: ucast32_add unat_word_ariths)
  then show ?case using lt by simp
qed simp

declare fxid_skip_special_up.simps [simp del]

function fxid_skip_special_down :: "uint64 \<Rightarrow> uint64" where
  "fxid_skip_special_down v =
     (if (ucast v :: TransactionId) < FirstNormalTransactionId
      then fxid_skip_special_down (v - 1) else v)"
  by pat_completeness auto
termination
proof (relation "measure (\<lambda>v. let x = (ucast v :: TransactionId)
    in if x < FirstNormalTransactionId then Suc (unat x) else 0)", goal_cases)
  case (2 v)
  let ?x = "ucast v :: TransactionId"
  have e: "(ucast (v - 1) :: TransactionId) = ?x - 1"
    by (simp add: ucast32_diff)
  show ?case
  proof (cases "?x = 0")
    case True
    then show ?thesis by (simp add: FirstNormalTransactionId_def e Let_def)
  next
    case False
    then show ?thesis using 2 measure_unat[of ?x] by (simp add: e Let_def)
  qed
qed simp

declare fxid_skip_special_down.simps [simp del]

definition FullTransactionIdAdvance :: "FullTransactionId \<Rightarrow> FullTransactionId" where
  "FullTransactionIdAdvance dest =
     (let dest = dest\<lparr>fxid_value := fxid_value dest + 1\<rparr>
      in if FullTransactionIdPrecedes dest FirstNormalFullTransactionId then dest
         else dest\<lparr>fxid_value := fxid_skip_special_up (fxid_value dest)\<rparr>)"

definition FullTransactionIdRetreat :: "FullTransactionId \<Rightarrow> FullTransactionId" where
  "FullTransactionIdRetreat dest =
     (let dest = dest\<lparr>fxid_value := fxid_value dest - 1\<rparr>
      in if FullTransactionIdPrecedes dest FirstNormalFullTransactionId then dest
         else dest\<lparr>fxid_value := fxid_skip_special_down (fxid_value dest)\<rparr>)"

definition FullTransactionIdNewer :: "FullTransactionId \<Rightarrow> FullTransactionId \<Rightarrow> FullTransactionId" where
  "FullTransactionIdNewer a b =
     (if \<not> FullTransactionIdIsValid a then b
      else if \<not> FullTransactionIdIsValid b then a
      else if FullTransactionIdFollows a b then a
      else b)"

definition FullTransactionIdFromAllowableAt ::
    "FullTransactionId \<Rightarrow> TransactionId \<Rightarrow> FullTransactionId" where
  "FullTransactionIdFromAllowableAt nextFullXid xid =
     (if \<not> TransactionIdIsNormal xid then FullTransactionIdFromEpochAndXid 0 xid
      else let epoch = EpochFromFullTransactionId nextFullXid;
               epoch = (if xid > XidFromFullTransactionId nextFullXid then epoch - 1 else epoch)
           in FullTransactionIdFromEpochAndXid epoch xid)"

text \<open>\<^verbatim>\<open>FullXidRelativeTo\<close>: the signed 32-bit distance is sign-extended to 64 bits.\<close>

definition FullXidRelativeTo :: "FullTransactionId \<Rightarrow> TransactionId \<Rightarrow> FullTransactionId" where
  "FullXidRelativeTo rel xid =
     (let rel_xid = XidFromFullTransactionId rel
      in FullTransactionIdFromU64 (fxid_value rel + scast (xid - rel_xid)))"

section \<open>Windows of ids\<close>

definition xid_pos :: "TransactionId \<Rightarrow> TransactionId \<Rightarrow> nat" where
  "xid_pos base x = unat (x - base)"

definition in_window :: "TransactionId \<Rightarrow> TransactionId \<Rightarrow> bool" where
  "in_window base x \<longleftrightarrow> TransactionIdIsNormal x \<and> xid_pos base x < 2147483648"

lemma xid_pos_inject [simp]: "xid_pos b x = xid_pos b y \<longleftrightarrow> x = y"
  by (simp add: xid_pos_def flip: word_unat_eq_iff)

lemma window_normal: "in_window b x \<Longrightarrow> TransactionIdIsNormal x"
  by (simp add: in_window_def)

lemma xid_pos_self [simp]: "xid_pos b b = 0"
  by (simp add: xid_pos_def)

lemma sint_diff_pos:
  "xid_pos b x < 2147483648 \<Longrightarrow> xid_pos b y < 2147483648 \<Longrightarrow>
   sint (x - y) = int (xid_pos b x) - int (xid_pos b y)"
  unfolding xid_pos_def by (rule sint_diff_window)

lemma window_diff:
  "in_window b x \<Longrightarrow> in_window b y \<Longrightarrow> sint (x - y) = int (xid_pos b x) - int (xid_pos b y)"
  unfolding in_window_def by (intro sint_diff_pos) simp_all

lemma Precedes_window [xid_order]:
  "in_window b x \<Longrightarrow> in_window b y \<Longrightarrow> TransactionIdPrecedes x y \<longleftrightarrow> xid_pos b x < xid_pos b y"
  using window_diff[of b x y] by (simp add: TransactionIdPrecedes_def window_normal[of b])

lemma PrecedesOrEquals_window [xid_order]:
  "in_window b x \<Longrightarrow> in_window b y \<Longrightarrow> TransactionIdPrecedesOrEquals x y \<longleftrightarrow> xid_pos b x \<le> xid_pos b y"
  using window_diff[of b x y] by (simp add: TransactionIdPrecedesOrEquals_def window_normal[of b])

lemma Follows_window [xid_order]:
  "in_window b x \<Longrightarrow> in_window b y \<Longrightarrow> TransactionIdFollows x y \<longleftrightarrow> xid_pos b y < xid_pos b x"
  using window_diff[of b x y] by (simp add: TransactionIdFollows_def window_normal[of b])

lemma FollowsOrEquals_window [xid_order]:
  "in_window b x \<Longrightarrow> in_window b y \<Longrightarrow> TransactionIdFollowsOrEquals x y \<longleftrightarrow> xid_pos b y \<le> xid_pos b x"
  using window_diff[of b x y] by (simp add: TransactionIdFollowsOrEquals_def window_normal[of b])

lemma NormalPrecedes_window [xid_order]:
  "in_window b x \<Longrightarrow> in_window b y \<Longrightarrow> NormalTransactionIdPrecedes x y \<longleftrightarrow> xid_pos b x < xid_pos b y"
  using window_diff[of b x y] by (simp add: NormalTransactionIdPrecedes_def)

lemma NormalFollows_window [xid_order]:
  "in_window b x \<Longrightarrow> in_window b y \<Longrightarrow> NormalTransactionIdFollows x y \<longleftrightarrow> xid_pos b y < xid_pos b x"
  using window_diff[of b x y] by (simp add: NormalTransactionIdFollows_def)

lemma valid_of_normal: "TransactionIdIsNormal x \<Longrightarrow> TransactionIdIsValid x"
  by (auto simp: TransactionIdIsNormal_def TransactionIdIsValid_def xid_consts)

text \<open>Special ids precede every normal id.\<close>

lemma Precedes_special:
  "\<not> TransactionIdIsNormal x \<Longrightarrow> TransactionIdIsNormal y \<Longrightarrow> TransactionIdPrecedes x y"
  by (simp add: TransactionIdPrecedes_def TransactionIdIsNormal_def)

lemma Precedes_irrefl [simp]: "\<not> TransactionIdPrecedes x x"
  by (simp add: TransactionIdPrecedes_def)

lemma FollowsOrEquals_refl [simp]: "TransactionIdFollowsOrEquals x x"
  by (simp add: TransactionIdFollowsOrEquals_def)

lemma PrecedesOrEquals_refl [simp]: "TransactionIdPrecedesOrEquals x x"
  by (simp add: TransactionIdPrecedesOrEquals_def)

lemma not_Precedes_xmin:
  assumes "TransactionIdIsNormal xmin" "TransactionIdIsValid x" "\<not> TransactionIdPrecedes x xmin"
  shows "in_window xmin x"
proof -
  have "TransactionIdIsNormal x"
  proof (rule ccontr)
    assume "\<not> TransactionIdIsNormal x"
    with assms(1,3) show False
      by (auto simp: TransactionIdPrecedes_def TransactionIdIsNormal_def)
  qed
  moreover from this assms have "unat (x - xmin) < 2147483648"
    by (intro sint_nonneg_unat) (simp add: TransactionIdPrecedes_def)
  ultimately show ?thesis by (simp add: in_window_def xid_pos_def)
qed

lemma not_Precedes_iff: "\<not> TransactionIdPrecedes x y \<longleftrightarrow> TransactionIdFollowsOrEquals x y"
  by (auto simp: TransactionIdPrecedes_def TransactionIdFollowsOrEquals_def not_less)

section \<open>The counter behind the ids\<close>

lemma uint_XidFromFull: "uint (XidFromFullTransactionId f) = uint (fxid_value f) mod 4294967296"
  by (simp add: XidFromFullTransactionId_def uint_ucast32)

lemma xid_pos_full:
  assumes "fxid_value b \<le> fxid_value f"
    and "uint (fxid_value f) - uint (fxid_value b) < 4294967296"
  shows "xid_pos (XidFromFullTransactionId b) (XidFromFullTransactionId f)
       = nat (uint (fxid_value f) - uint (fxid_value b))"
  unfolding xid_pos_def using assms
  by (intro unat_diff_mod uint_XidFromFull) (simp_all add: word_le_def)

lemma uint_FromEpochAndXid:
  "uint (fxid_value (FullTransactionIdFromEpochAndXid e x)) = uint e * 4294967296 + uint x"
proof -
  let ?h = "push_bit 32 (ucast e) :: uint64" and ?l = "ucast x :: uint64"
  have ul: "uint ?l = uint x"
    using uint32_less[of x] by (simp add: unsigned_ucast_eq take_bit_eq_mod)
  have uh: "uint ?h = uint e * 4294967296"
  proof -
    have "uint (ucast e :: uint64) = uint e"
      using uint32_less[of e] by (simp add: unsigned_ucast_eq take_bit_eq_mod)
    then have "uint ?h = take_bit 64 (push_bit 32 (uint e))"
      by (simp only: unsigned_push_bit_eq) simp
    also have "\<dots> = uint e * 4294967296"
      using uint32_less[of e] by (simp add: take_bit_eq_mod push_bit_eq_mult)
    finally show ?thesis .
  qed
  have disj: "?h + ?l = ?h OR ?l"
    by (rule disjunctive_add) (auto simp: bit_simps dest: bit_imp_le_length)
  have "uint (?h + ?l) = uint e * 4294967296 + uint x"
    using uint32_less[of x] uint32_less[of e]
    by (simp add: uint_word_ariths uh ul)
  then show ?thesis
    by (simp add: FullTransactionIdFromEpochAndXid_def disj)
qed

lemma uint_Epoch: "uint (EpochFromFullTransactionId f) = uint (fxid_value f) div 4294967296"
proof -
  have "uint (fxid_value f) < 18446744073709551616"
    using unsigned_less[of "fxid_value f"] by simp
  then have "drop_bit 32 (uint (fxid_value f)) < 4294967296" by (simp add: drop_bit_eq_div)
  moreover have "uint (drop_bit 32 (fxid_value f)) = drop_bit 32 (uint (fxid_value f))"
    using \<open>uint (fxid_value f) < 18446744073709551616\<close>
    by (simp add: unsigned_drop_bit_eq take_bit_int_eq_self)
  ultimately show ?thesis
    by (simp only: EpochFromFullTransactionId_def uint_ucast32)
      (simp add: drop_bit_eq_div pos_imp_zdiv_nonneg_iff)
qed

lemma full_eqI: "uint (fxid_value f) = uint (fxid_value g) \<Longrightarrow> f = g" for f g :: FullTransactionId
  by (cases f; cases g) (simp add: word_uint_eq_iff)

lemma div_below_window:
  fixes F N :: int
  assumes "F \<le> N" and "N - F < 4294967296"
  shows "F div 4294967296
       = (if F mod 4294967296 > N mod 4294967296 then N div 4294967296 - 1 else N div 4294967296)"
proof -
  have lo: "F div 4294967296 \<le> N div 4294967296" using assms(1) by (simp add: zdiv_mono1)
  have "N div 4294967296 \<le> (F + 4294967296) div 4294967296"
    using assms(2) by (intro zdiv_mono1) simp_all
  then have hi: "N div 4294967296 \<le> F div 4294967296 + 1" by simp
  have "F = 4294967296 * (F div 4294967296) + F mod 4294967296"
    "N = 4294967296 * (N div 4294967296) + N mod 4294967296" by simp_all
  moreover have "F div 4294967296 = N div 4294967296 \<or> F div 4294967296 = N div 4294967296 - 1"
    using lo hi by linarith
  ultimately consider "F div 4294967296 = N div 4294967296" "N - F = N mod 4294967296 - F mod 4294967296"
    | "F div 4294967296 = N div 4294967296 - 1"
      "N - F = 4294967296 + N mod 4294967296 - F mod 4294967296"
    by linarith
  then show ?thesis using assms by cases auto
qed

lemma FromAllowableAt_full:
  assumes "TransactionIdIsNormal (XidFromFullTransactionId f)"
    and "fxid_value f \<le> fxid_value nextFullXid"
    and "uint (fxid_value nextFullXid) - uint (fxid_value f) < 4294967296"
  shows "FullTransactionIdFromAllowableAt nextFullXid (XidFromFullTransactionId f) = f"
proof -
  let ?F = "uint (fxid_value f)" and ?N = "uint (fxid_value nextFullXid)"
  let ?gt = "XidFromFullTransactionId f > XidFromFullTransactionId nextFullXid"
  have le: "?F \<le> ?N" using assms(2) by (simp add: word_le_def)
  have gt: "?gt \<longleftrightarrow> ?F mod 4294967296 > ?N mod 4294967296"
    by (simp add: word_less_def uint_XidFromFull)
  have F: "?F div 4294967296 = (if ?gt then ?N div 4294967296 - 1 else ?N div 4294967296)"
    unfolding gt by (rule div_below_window[OF le assms(3)])
  have e: "uint (if ?gt then EpochFromFullTransactionId nextFullXid - 1
            else EpochFromFullTransactionId nextFullXid) = ?F div 4294967296"
  proof (cases ?gt)
    case True
    moreover have "0 \<le> ?F div 4294967296" by (simp add: pos_imp_zdiv_nonneg_iff)
    ultimately have "1 \<le> uint (EpochFromFullTransactionId nextFullXid)"
      using F unfolding uint_Epoch by simp
    then have "uint (EpochFromFullTransactionId nextFullXid - 1)
        = uint (EpochFromFullTransactionId nextFullXid) - 1"
      by (subst uint_sub_lem[THEN iffD1]) simp_all
    then show ?thesis using True F by (simp add: uint_Epoch)
  qed (use F in \<open>simp add: uint_Epoch\<close>)
  show ?thesis
    using assms(1)
    by (intro full_eqI)
      (simp add: FullTransactionIdFromAllowableAt_def Let_def uint_FromEpochAndXid e
          uint_XidFromFull del: if_split)
qed

lemma full_sint_diff:
  assumes "\<bar>uint (fxid_value f) - uint (fxid_value g)\<bar> < 2147483648"
  shows "sint (XidFromFullTransactionId f - XidFromFullTransactionId g)
       = uint (fxid_value f) - uint (fxid_value g)"
proof (cases "fxid_value f \<le> fxid_value g")
  case True
  then have "xid_pos (XidFromFullTransactionId f) (XidFromFullTransactionId g)
      = nat (uint (fxid_value g) - uint (fxid_value f))"
    using assms by (intro xid_pos_full) (simp_all add: word_le_def)
  then show ?thesis
    using assms True sint_diff_pos[of "XidFromFullTransactionId f" "XidFromFullTransactionId f"
        "XidFromFullTransactionId g"]
    by (simp add: word_le_def)
next
  case False
  then have "xid_pos (XidFromFullTransactionId g) (XidFromFullTransactionId f)
      = nat (uint (fxid_value f) - uint (fxid_value g))"
    using assms by (intro xid_pos_full) (simp_all add: word_le_def)
  then show ?thesis
    using assms False sint_diff_pos[of "XidFromFullTransactionId g" "XidFromFullTransactionId f"
        "XidFromFullTransactionId g"]
    by (simp add: word_le_def)
qed

lemma Precedes_full:
  assumes "\<bar>uint (fxid_value f) - uint (fxid_value g)\<bar> < 2147483648"
    and "TransactionIdIsNormal (XidFromFullTransactionId f)"
    and "TransactionIdIsNormal (XidFromFullTransactionId g)"
  shows "TransactionIdPrecedes (XidFromFullTransactionId f) (XidFromFullTransactionId g)
     \<longleftrightarrow> FullTransactionIdPrecedes f g"
  using assms
  by (simp add: TransactionIdPrecedes_def full_sint_diff FullTransactionIdPrecedes_def word_less_def)

lemma RelativeTo_full:
  assumes "\<bar>uint (fxid_value f) - uint (fxid_value rel)\<bar> < 2147483648"
  shows "FullXidRelativeTo rel (XidFromFullTransactionId f) = f"
proof -
  have "scast (XidFromFullTransactionId f - XidFromFullTransactionId rel)
      = (word_of_int (uint (fxid_value f) - uint (fxid_value rel)) :: uint64)"
    by (simp only: scast_eq full_sint_diff[OF assms])
  also have "\<dots> = fxid_value f - fxid_value rel"
    by (simp flip: wi_hom_sub)
  finally show ?thesis
    by (cases f) (simp add: FullXidRelativeTo_def FullTransactionIdFromU64_def Let_def)
qed

lemma xid_less_first: "x < FirstNormalTransactionId \<longleftrightarrow> uint x < 3"
  by (simp add: FirstNormalTransactionId_def word_less_def)

lemma normal_uint: "TransactionIdIsNormal x \<longleftrightarrow> 3 \<le> uint x"
  by (simp add: TransactionIdIsNormal_def FirstNormalTransactionId_def word_le_def)

lemma skip_up_cases:
  fixes v :: uint64
  defines "x \<equiv> (ucast v :: TransactionId)"
  shows "fxid_skip_special_up v = (if x = 0 then v + 3 else if x = 1 then v + 2 else if x = 2 then v + 1 else v)"
proof -
  have lt: "y < 3 \<longleftrightarrow> y = 0 \<or> y = 1 \<or> y = 2" for y :: TransactionId
  proof -
    have "y < 3 \<longleftrightarrow> unat y < 3" by (simp add: word_less_nat_alt)
    also have "\<dots> \<longleftrightarrow> unat y = 0 \<or> unat y = 1 \<or> unat y = 2" by linarith
    also have "\<dots> \<longleftrightarrow> y = 0 \<or> y = 1 \<or> y = 2" by (simp add: word_unat_eq_iff)
    finally show ?thesis .
  qed
  have s: "fxid_skip_special_up w = (if (ucast w :: TransactionId) = 0 \<or> (ucast w :: TransactionId) = 1
      \<or> (ucast w :: TransactionId) = 2 then fxid_skip_special_up (w + 1) else w)" for w
    by (subst fxid_skip_special_up.simps) (simp only: FirstNormalTransactionId_def lt)
  have u: "(ucast (w + 1) :: TransactionId) = ucast w + 1" for w :: uint64
    by (simp add: ucast32_add)
  have 3: "fxid_skip_special_up w = w" if "(ucast w :: TransactionId) = 3" for w
    using that by (subst s) simp
  have 2: "fxid_skip_special_up w = w + 1" if "(ucast w :: TransactionId) = 2" for w
    using that 3[of "w + 1"] by (subst s) (simp add: u)
  have 1: "fxid_skip_special_up w = w + 2" if "(ucast w :: TransactionId) = 1" for w
    using that 2[of "w + 1"] by (subst s) (simp add: u)
  have 0: "fxid_skip_special_up w = w + 3" if "(ucast w :: TransactionId) = 0" for w
    using that 1[of "w + 1"] by (subst s) (simp add: u)
  show ?thesis
    unfolding x_def using 0[of v] 1[of v] 2[of v] s[of v] by presburger
qed

lemma uint_skip_up:
  assumes "uint v + 3 < 18446744073709551616"
  shows "uint (fxid_skip_special_up v)
       = (if uint v mod 4294967296 < 3 then uint v - uint v mod 4294967296 + 3 else uint v)"
proof -
  have c: "uint (v + 3) = uint v + 3" "uint (v + 2) = uint v + 2" "uint (v + 1) = uint v + 1"
    using assms by (simp_all add: uint_word_ariths)
  have m: "(ucast v :: TransactionId) = k \<longleftrightarrow> uint v mod 4294967296 = uint k" for k
    by (simp add: word_uint_eq_iff uint_ucast32)
  have "0 \<le> uint v mod 4294967296" by simp
  then consider "uint v mod 4294967296 = 0" | "uint v mod 4294967296 = 1" | "uint v mod 4294967296 = 2"
    | "uint v mod 4294967296 \<ge> 3" by linarith
  then show ?thesis
    by cases (simp_all add: skip_up_cases m c)
qed

text \<open>
  Advancing a full id reaches the next one with a normal low half, and agrees with the 32-bit
  \<^verbatim>\<open>TransactionIdAdvance\<close>.
\<close>

lemma uint_FullAdvance:
  assumes "2 \<le> uint (fxid_value f)" and "uint (fxid_value f) + 4 < 18446744073709551616"
  shows "uint (fxid_value (FullTransactionIdAdvance f))
       = (let V = uint (fxid_value f) + 1
          in if V mod 4294967296 < 3 then V - V mod 4294967296 + 3 else V)"
proof -
  have V: "uint (fxid_value f + 1) = uint (fxid_value f) + 1"
    using assms(2) by (simp add: uint_word_ariths)
  have first: "uint (fxid_value FirstNormalFullTransactionId) = 3"
    by (simp add: FirstNormalFullTransactionId_def uint_FromEpochAndXid FirstNormalTransactionId_def)
  show ?thesis
    using assms
    by (simp add: FullTransactionIdAdvance_def FullTransactionIdPrecedes_def word_less_def V first
        uint_skip_up Let_def)
qed

lemma uint_Advance:
  "uint (TransactionIdAdvance x) = (let V = (uint x + 1) mod 4294967296 in if V < 3 then 3 else V)"
  by (simp add: TransactionIdAdvance_def xid_less_first uint_word_ariths Let_def)
    (simp add: FirstNormalTransactionId_def)

lemma FullAdvance_next:
  assumes "2 \<le> uint (fxid_value f)" and "uint (fxid_value f) + 4 < 18446744073709551616"
  shows "TransactionIdIsNormal (XidFromFullTransactionId (FullTransactionIdAdvance f))"
    and "FullTransactionIdPrecedes f (FullTransactionIdAdvance f)"
    and "FullTransactionIdPrecedes f g \<Longrightarrow> FullTransactionIdPrecedes g (FullTransactionIdAdvance f)
           \<Longrightarrow> \<not> TransactionIdIsNormal (XidFromFullTransactionId g)"
    and "XidFromFullTransactionId (FullTransactionIdAdvance f)
           = TransactionIdAdvance (XidFromFullTransactionId f)"
proof -
  define V where "V = uint (fxid_value f) + 1"
  define q where "q = V div 4294967296"
  define r where "r = V mod 4294967296"
  have V: "V = 4294967296 * q + r" "0 \<le> r" "r < 4294967296" by (simp_all add: q_def r_def)
  have adv: "uint (fxid_value (FullTransactionIdAdvance f)) = (if r < 3 then 4294967296 * q + 3 else V)"
    using uint_FullAdvance[OF assms] V by (simp add: Let_def flip: V_def r_def)
  show "TransactionIdIsNormal (XidFromFullTransactionId (FullTransactionIdAdvance f))"
    by (simp add: normal_uint uint_XidFromFull adv r_def)
  show "FullTransactionIdPrecedes f (FullTransactionIdAdvance f)"
    using V by (simp add: FullTransactionIdPrecedes_def word_less_def adv V_def)
  show "XidFromFullTransactionId (FullTransactionIdAdvance f) = TransactionIdAdvance (XidFromFullTransactionId f)"
    by (rule word_uint_eqI)
      (simp add: uint_Advance uint_XidFromFull adv Let_def mod_add_left_eq r_def V_def)
  show "\<not> TransactionIdIsNormal (XidFromFullTransactionId g)"
    if "FullTransactionIdPrecedes f g" "FullTransactionIdPrecedes g (FullTransactionIdAdvance f)"
  proof -
    have "V \<le> uint (fxid_value g)" "r < 3" "uint (fxid_value g) < 4294967296 * q + 3"
      using that V by (auto simp: FullTransactionIdPrecedes_def word_less_def adv V_def split: if_splits)
    then have "uint (fxid_value g) mod 4294967296 = uint (fxid_value g) - 4294967296 * q"
      using V by (intro int_mod_pos_eq) auto
    then show ?thesis
      using \<open>uint (fxid_value g) < 4294967296 * q + 3\<close> by (simp add: normal_uint uint_XidFromFull)
  qed
qed

section \<open>Advancing within a window\<close>

lemma Advance_normal: "TransactionIdIsNormal (TransactionIdAdvance x)"
  by (auto simp: TransactionIdAdvance_def TransactionIdIsNormal_def Let_def not_less)

lemma Advance_closer:
  assumes "TransactionIdIsNormal b" "a \<noteq> b"
  shows "xid_pos (TransactionIdAdvance a) b < xid_pos a b"
proof (cases "a + 1 < FirstNormalTransactionId")
  case False
  have "b - a \<noteq> 0" using assms(2) by simp
  then have "unat (b - a - 1) < unat (b - a)" by (simp add: unat_minus_one unat_gt_0)
  with False show ?thesis by (simp add: TransactionIdAdvance_def xid_pos_def Let_def diff_diff_add)
next
  case True
  then have c: "a + 1 < 3" by (simp add: FirstNormalTransactionId_def)
  have b: "3 \<le> b" using assms(1) by (simp add: TransactionIdIsNormal_def FirstNormalTransactionId_def)
  then have "a + 1 \<le> b" using c by simp
  then have "unat (b - (a + 1)) = unat b - unat (a + 1)" by (rule unat_sub)
  moreover have "unat (1 + (b - (a + 1))) = Suc (unat (b - (a + 1)))"
    using assms(2) by (intro unatSuc) simp
  moreover have "unat (b - 3) = unat b - 3" using b by (subst unat_sub) simp_all
  moreover have "3 \<le> unat b" "unat (a + 1) < 3" using b c by (simp_all add: word_le_nat_alt word_less_nat_alt)
  ultimately have "unat (b - 3) < unat (b - a)" by simp
  with True show ?thesis by (simp add: TransactionIdAdvance_def xid_pos_def Let_def FirstNormalTransactionId_def)
qed

lemma xid_pos_diff:
  assumes "xid_pos b a \<le> xid_pos b x"
  shows "xid_pos a x = xid_pos b x - xid_pos b a"
proof -
  have "unat ((x - b) - (a - b)) = unat (x - b) - unat (a - b)"
    using assms by (intro unat_sub) (simp add: xid_pos_def word_le_nat_alt)
  then show ?thesis by (simp add: xid_pos_def)
qed

lemma Advance_pos:
  assumes "in_window b x" "xid_pos b a < xid_pos b x"
  shows "xid_pos b a < xid_pos b (TransactionIdAdvance a)" "xid_pos b (TransactionIdAdvance a) \<le> xid_pos b x"
proof -
  let ?d = "x - TransactionIdAdvance a"
  have "unat ?d < xid_pos b x - xid_pos b a"
    using Advance_closer[of x a] window_normal[OF assms(1)] xid_pos_diff[of b a x] assms(2)
    by (auto simp: xid_pos_def)
  moreover have "unat ((x - b) - ?d) = unat (x - b) - unat ?d"
    using calculation by (intro unat_sub) (simp add: xid_pos_def word_le_nat_alt)
  moreover have "(x - b) - ?d = TransactionIdAdvance a - b" by simp
  ultimately have "xid_pos b (TransactionIdAdvance a) = xid_pos b x - unat ?d"
    "unat ?d < xid_pos b x - xid_pos b a" by (simp_all add: xid_pos_def)
  then show "xid_pos b a < xid_pos b (TransactionIdAdvance a)" "xid_pos b (TransactionIdAdvance a) \<le> xid_pos b x"
    by simp_all
qed

lemma Advance_window:
  assumes "in_window b x" "xid_pos b a < xid_pos b x"
  shows "in_window b (TransactionIdAdvance a)"
  using Advance_pos[OF assms] assms(1) Advance_normal by (simp add: in_window_def)

section \<open>The latest id of a transaction tree\<close>

lemma Latest_foldl:
  assumes "in_window b m" "\<forall>x \<in> set xs. in_window b x"
  defines "r \<equiv> foldl (\<lambda>result xid. if TransactionIdPrecedes result xid then xid else result) m xs"
  shows "r \<in> insert m (set xs) \<and> (\<forall>x \<in> insert m (set xs). xid_pos b x \<le> xid_pos b r)"
  using assms(1,2) unfolding r_def
proof (induction xs arbitrary: m)
  case (Cons x xs)
  let ?m = "if TransactionIdPrecedes m x then x else m"
  have "in_window b ?m" "xid_pos b m \<le> xid_pos b ?m" "xid_pos b x \<le> xid_pos b ?m"
    using Cons.prems by (auto simp: Precedes_window)
  moreover define r where "r = foldl (\<lambda>result xid. if TransactionIdPrecedes result xid then xid else result) ?m xs"
  ultimately have "r \<in> insert ?m (set xs)" "\<forall>y \<in> insert ?m (set xs). xid_pos b y \<le> xid_pos b r"
    using Cons.IH[of ?m] Cons.prems(2) by simp_all
  then show ?case
    using \<open>xid_pos b m \<le> _\<close> \<open>xid_pos b x \<le> _\<close> by (auto simp flip: r_def split: if_splits)
qed simp

section \<open>Properties\<close>

text \<open>
  C29.  For normal ids that are less than 2^31 apart in the 64-bit order, the circular comparison
  \<^verbatim>\<open>TransactionIdPrecedes\<close> agrees with the order of the full ids.
\<close>

theorem Precedes_agrees_with_full:
  assumes "\<bar>uint (fxid_value f) - uint (fxid_value g)\<bar> < 2147483648"
    and "TransactionIdIsNormal (XidFromFullTransactionId f)"
    and "TransactionIdIsNormal (XidFromFullTransactionId g)"
  shows "TransactionIdPrecedes (XidFromFullTransactionId f) (XidFromFullTransactionId g)
     \<longleftrightarrow> FullTransactionIdPrecedes f g"
  using assms by (rule Precedes_full)

theorem Precedes_agrees_with_full_witness:
  "TransactionIdPrecedes (XidFromFullTransactionId \<lparr>fxid_value = 4294967290\<rparr>)
      (XidFromFullTransactionId \<lparr>fxid_value = 4294967310\<rparr>)
   \<longleftrightarrow> FullTransactionIdPrecedes \<lparr>fxid_value = 4294967290\<rparr> \<lparr>fxid_value = 4294967310\<rparr>"
  by (rule Precedes_agrees_with_full) code_simp+



text \<open>
  C28.  \<^verbatim>\<open>FullXidRelativeTo\<close> recovers a full id from its 32-bit part and any full id less than 2^31
  away, on either side.
\<close>

theorem FullXidRelativeTo_correct:
  assumes "\<bar>uint (fxid_value f) - uint (fxid_value rel)\<bar> < 2147483648"
  shows "FullXidRelativeTo rel (XidFromFullTransactionId f) = f"
  using assms by (rule RelativeTo_full)

theorem FullXidRelativeTo_correct_witness:
  "FullXidRelativeTo \<lparr>fxid_value = 4294967290\<rparr> (XidFromFullTransactionId \<lparr>fxid_value = 4294967310\<rparr>)
     = \<lparr>fxid_value = 4294967310\<rparr>"
  by (rule FullXidRelativeTo_correct) code_simp

text \<open>
  \<^verbatim>\<open>FullTransactionIdAdvance\<close> steps to the next full id with a normal 32-bit part: the result is
  normal and later, no full id with a normal 32-bit part lies between, and the 32-bit part is what
  \<^verbatim>\<open>TransactionIdAdvance\<close> computes.
\<close>

theorem FullTransactionIdAdvance_next:
  assumes "2 \<le> uint (fxid_value f)" and "uint (fxid_value f) + 4 < 18446744073709551616"
  shows "TransactionIdIsNormal (XidFromFullTransactionId (FullTransactionIdAdvance f))
       \<and> FullTransactionIdPrecedes f (FullTransactionIdAdvance f)
       \<and> (\<forall>g. FullTransactionIdPrecedes f g \<and> FullTransactionIdPrecedes g (FullTransactionIdAdvance f)
              \<longrightarrow> \<not> TransactionIdIsNormal (XidFromFullTransactionId g))
       \<and> XidFromFullTransactionId (FullTransactionIdAdvance f)
           = TransactionIdAdvance (XidFromFullTransactionId f)"
  using FullAdvance_next[OF assms] by blast

theorem FullTransactionIdAdvance_next_witness:
  "TransactionIdIsNormal (XidFromFullTransactionId (FullTransactionIdAdvance \<lparr>fxid_value = 4294967295\<rparr>))
   \<and> XidFromFullTransactionId (FullTransactionIdAdvance \<lparr>fxid_value = 4294967295\<rparr>)
     = TransactionIdAdvance (XidFromFullTransactionId \<lparr>fxid_value = 4294967295\<rparr>)"
proof -
  have "2 \<le> uint (fxid_value \<lparr>fxid_value = 4294967295\<rparr>)"
    "uint (fxid_value \<lparr>fxid_value = 4294967295\<rparr>) + 4 < 18446744073709551616"
    by code_simp+
  from FullTransactionIdAdvance_next[OF this] show ?thesis by blast
qed

end
