(* ===== verification/Clog.thy ===== *)
theory Clog
  imports Xid
begin

text \<open>
  The commit log of \<^verbatim>\<open>src/backend/access/transam/clog.c\<close>: two status bits per transaction,
  packed four to a byte, with one group LSN per 32 transactions.  The simple-LRU cache
  (\<^verbatim>\<open>slru.c\<close>) is represented by its contract: a page, once read, is addressed by its page
  number, so a slot and the page it holds are the same index here.  Locking is left out; a call of
  \<^verbatim>\<open>TransactionIdSetPageStatus\<close> runs under the bank lock of its page and is one atomic step.
\<close>

section \<open>Addresses\<close>

definition CLOG_BITS_PER_XACT :: nat where
  "CLOG_BITS_PER_XACT = 2"

definition CLOG_XACTS_PER_BYTE :: nat where
  "CLOG_XACTS_PER_BYTE = 4"

definition CLOG_XACTS_PER_PAGE :: nat where
  "CLOG_XACTS_PER_PAGE = BLCKSZ * CLOG_XACTS_PER_BYTE"

definition CLOG_XACT_BITMASK :: uint8 where
  "CLOG_XACT_BITMASK = push_bit CLOG_BITS_PER_XACT 1 - 1"

definition CLOG_XACTS_PER_LSN_GROUP :: nat where
  "CLOG_XACTS_PER_LSN_GROUP = 32"

definition TransactionIdToPage :: "TransactionId \<Rightarrow> nat" where
  "TransactionIdToPage xid = unat xid div CLOG_XACTS_PER_PAGE"

definition TransactionIdToPgIndex :: "TransactionId \<Rightarrow> nat" where
  "TransactionIdToPgIndex xid = unat xid mod CLOG_XACTS_PER_PAGE"

definition TransactionIdToByte :: "TransactionId \<Rightarrow> nat" where
  "TransactionIdToByte xid = TransactionIdToPgIndex xid div CLOG_XACTS_PER_BYTE"

definition TransactionIdToBIndex :: "TransactionId \<Rightarrow> nat" where
  "TransactionIdToBIndex xid = unat xid mod CLOG_XACTS_PER_BYTE"

text \<open>\<^verbatim>\<open>GetLSNIndex\<close>, relative to the slot: the LSN group of the transaction within its page.\<close>

definition GetLSNIndex :: "TransactionId \<Rightarrow> nat" where
  "GetLSNIndex xid = unat xid mod CLOG_XACTS_PER_PAGE div CLOG_XACTS_PER_LSN_GROUP"

lemmas clog_consts [page_simps] =
  BLCKSZ_def CLOG_BITS_PER_XACT_def CLOG_XACTS_PER_BYTE_def CLOG_XACTS_PER_PAGE_def
  CLOG_XACTS_PER_LSN_GROUP_def

section \<open>State and operations\<close>

type_synonym XidStatus = uint8

definition TRANSACTION_STATUS_IN_PROGRESS :: XidStatus where
  "TRANSACTION_STATUS_IN_PROGRESS = 0x00"

definition TRANSACTION_STATUS_COMMITTED :: XidStatus where
  "TRANSACTION_STATUS_COMMITTED = 0x01"

definition TRANSACTION_STATUS_ABORTED :: XidStatus where
  "TRANSACTION_STATUS_ABORTED = 0x02"

definition TRANSACTION_STATUS_SUB_COMMITTED :: XidStatus where
  "TRANSACTION_STATUS_SUB_COMMITTED = 0x03"

lemmas status_consts =
  TRANSACTION_STATUS_IN_PROGRESS_def TRANSACTION_STATUS_COMMITTED_def
  TRANSACTION_STATUS_ABORTED_def TRANSACTION_STATUS_SUB_COMMITTED_def

record clog_ctl =
  page_buffer :: "nat \<Rightarrow> nat \<Rightarrow> uint8"  \<comment> \<open>page number, byte number\<close>
  group_lsn :: "nat \<Rightarrow> nat \<Rightarrow> XLogRecPtr"  \<comment> \<open>page number, group within the page\<close>
  page_dirty :: "nat \<Rightarrow> bool"

definition TransactionIdSetStatusBit ::
    "bool \<Rightarrow> TransactionId \<Rightarrow> XidStatus \<Rightarrow> XLogRecPtr \<Rightarrow> nat \<Rightarrow> clog_ctl \<Rightarrow> clog_ctl" where
  "TransactionIdSetStatusBit InRecovery xid status lsn slotno ctl =
     (let byteno = TransactionIdToByte xid;
          bshift = TransactionIdToBIndex xid * CLOG_BITS_PER_XACT;
          byteval = page_buffer ctl slotno byteno;
          curval = drop_bit bshift byteval AND CLOG_XACT_BITMASK
      in if InRecovery \<and> status = TRANSACTION_STATUS_SUB_COMMITTED
            \<and> curval = TRANSACTION_STATUS_COMMITTED
         then ctl
         else
           let byteval = byteval AND NOT (push_bit bshift (push_bit CLOG_BITS_PER_XACT 1 - 1));
               byteval = byteval OR push_bit bshift status;
               ctl = ctl\<lparr>page_buffer := (page_buffer ctl)
                 (slotno := (page_buffer ctl slotno)(byteno := byteval))\<rparr>
           in if \<not> XLogRecPtrIsInvalid lsn
              then let lsnindex = GetLSNIndex xid
                   in if group_lsn ctl slotno lsnindex < lsn
                      then ctl\<lparr>group_lsn := (group_lsn ctl)
                             (slotno := (group_lsn ctl slotno)(lsnindex := lsn))\<rparr>
                      else ctl
              else ctl)"

definition TransactionIdGetStatus :: "clog_ctl \<Rightarrow> TransactionId \<Rightarrow> XidStatus \<times> XLogRecPtr" where
  "TransactionIdGetStatus ctl xid =
     (let pageno = TransactionIdToPage xid;
          byteno = TransactionIdToByte xid;
          bshift = TransactionIdToBIndex xid * CLOG_BITS_PER_XACT;
          status = drop_bit bshift (page_buffer ctl pageno byteno) AND CLOG_XACT_BITMASK
      in (status, group_lsn ctl pageno (GetLSNIndex xid)))"

definition TransactionIdSetPageStatusInternal ::
    "bool \<Rightarrow> TransactionId \<Rightarrow> TransactionId list \<Rightarrow> XidStatus \<Rightarrow> XLogRecPtr \<Rightarrow> nat \<Rightarrow> clog_ctl \<Rightarrow> clog_ctl" where
  "TransactionIdSetPageStatusInternal InRecovery xid subxids status lsn pageno ctl =
     (let slotno = pageno;
          ctl = (if TransactionIdIsValid xid
                 then let ctl = (if status = TRANSACTION_STATUS_COMMITTED
                                 then fold (\<lambda>sub. TransactionIdSetStatusBit InRecovery sub
                                        TRANSACTION_STATUS_SUB_COMMITTED lsn slotno) subxids ctl
                                 else ctl)
                      in TransactionIdSetStatusBit InRecovery xid status lsn slotno ctl
                 else ctl);
          ctl = fold (\<lambda>sub. TransactionIdSetStatusBit InRecovery sub status lsn slotno) subxids ctl
      in ctl\<lparr>page_dirty := (page_dirty ctl)(slotno := True)\<rparr>)"

text \<open>
  \<^verbatim>\<open>TransactionIdSetPageStatus\<close> takes the bank lock, or hands the request to a group leader that
  holds it; every route ends in one call of \<^verbatim>\<open>TransactionIdSetPageStatusInternal\<close> with the
  same arguments under that lock.
\<close>

definition TransactionIdSetPageStatus ::
    "bool \<Rightarrow> TransactionId \<Rightarrow> TransactionId list \<Rightarrow> XidStatus \<Rightarrow> XLogRecPtr \<Rightarrow> nat \<Rightarrow> clog_ctl \<Rightarrow> clog_ctl" where
  "TransactionIdSetPageStatus InRecovery xid subxids status lsn pageno ctl =
     TransactionIdSetPageStatusInternal InRecovery xid subxids status lsn pageno ctl"

text \<open>
  A call of \<^verbatim>\<open>TransactionIdSetPageStatus\<close> with its arguments.  The two functions below list the
  calls that \<^verbatim>\<open>set_status_by_pages\<close> and \<^verbatim>\<open>TransactionIdSetTreeStatus\<close> make, in order, so that the
  states a concurrent reader can observe between two calls can be named.
\<close>

record page_update =
  upd_xid :: TransactionId
  upd_subxids :: "TransactionId list"
  upd_status :: XidStatus
  upd_lsn :: XLogRecPtr
  upd_pageno :: nat

text \<open>
  The inner \<^verbatim>\<open>do\<close> loop takes the longest run of ids on the current page; the next page is that of
  the id that ended the run.
\<close>

declare length_dropWhile_le [termination_simp]

fun set_status_by_pages :: "TransactionId list \<Rightarrow> XidStatus \<Rightarrow> XLogRecPtr \<Rightarrow> page_update list" where
  "set_status_by_pages [] status lsn = []"
| "set_status_by_pages (x # xs) status lsn =
     (let pageno = TransactionIdToPage x;
          run = x # takeWhile (\<lambda>y. TransactionIdToPage y = pageno) xs;
          rest = dropWhile (\<lambda>y. TransactionIdToPage y = pageno) xs
      in \<lparr>upd_xid = InvalidTransactionId, upd_subxids = run, upd_status = status,
          upd_lsn = lsn, upd_pageno = pageno\<rparr> # set_status_by_pages rest status lsn)"

definition set_tree_status_calls ::
    "TransactionId \<Rightarrow> TransactionId list \<Rightarrow> XidStatus \<Rightarrow> XLogRecPtr \<Rightarrow> page_update list" where
  "set_tree_status_calls xid subxids status lsn =
     (let pageno = TransactionIdToPage xid;
          on_first_page = takeWhile (\<lambda>y. TransactionIdToPage y = pageno) subxids;
          others = dropWhile (\<lambda>y. TransactionIdToPage y = pageno) subxids;
          main = \<lparr>upd_xid = xid, upd_subxids = on_first_page, upd_status = status,
                  upd_lsn = lsn, upd_pageno = pageno\<rparr>
      in if others = [] then [main]
         else (if status = TRANSACTION_STATUS_COMMITTED
               then set_status_by_pages others TRANSACTION_STATUS_SUB_COMMITTED lsn else [])
              @ [main] @ set_status_by_pages others status lsn)"

definition run_page_update :: "bool \<Rightarrow> page_update \<Rightarrow> clog_ctl \<Rightarrow> clog_ctl" where
  "run_page_update InRecovery u =
     TransactionIdSetPageStatus InRecovery (upd_xid u) (upd_subxids u) (upd_status u) (upd_lsn u)
       (upd_pageno u)"

definition TransactionIdSetTreeStatus ::
    "bool \<Rightarrow> TransactionId \<Rightarrow> TransactionId list \<Rightarrow> XidStatus \<Rightarrow> XLogRecPtr \<Rightarrow> clog_ctl \<Rightarrow> clog_ctl" where
  "TransactionIdSetTreeStatus InRecovery xid subxids status lsn ctl =
     fold (run_page_update InRecovery) (set_tree_status_calls xid subxids status lsn) ctl"

definition ZeroCLOGPage :: "nat \<Rightarrow> clog_ctl \<Rightarrow> clog_ctl" where
  "ZeroCLOGPage pageno ctl =
     ctl\<lparr>page_buffer := (page_buffer ctl)(pageno := (\<lambda>_. 0)),
         group_lsn := (group_lsn ctl)(pageno := (\<lambda>_. InvalidXLogRecPtr)),
         page_dirty := (page_dirty ctl)(pageno := True)\<rparr>"

definition ExtendCLOG :: "TransactionId \<Rightarrow> clog_ctl \<Rightarrow> clog_ctl" where
  "ExtendCLOG newestXact ctl =
     (if TransactionIdToPgIndex newestXact \<noteq> 0 \<and> newestXact \<noteq> FirstNormalTransactionId then ctl
      else ZeroCLOGPage (TransactionIdToPage newestXact) ctl)"

text \<open>\<^verbatim>\<open>TrimCLOG\<close>, given the 32-bit part of \<^verbatim>\<open>nextXid\<close>.\<close>

definition TrimCLOG :: "TransactionId \<Rightarrow> clog_ctl \<Rightarrow> clog_ctl" where
  "TrimCLOG xid ctl =
     (let pageno = TransactionIdToPage xid
      in if TransactionIdToPgIndex xid \<noteq> 0
         then let byteno = TransactionIdToByte xid;
                  bshift = TransactionIdToBIndex xid * CLOG_BITS_PER_XACT;
                  bytes = page_buffer ctl pageno;
                  bytes = (\<lambda>i. if i = byteno then bytes i AND (push_bit bshift 1 - 1)
                               else if byteno < i \<and> i < BLCKSZ then 0 else bytes i)
              in ctl\<lparr>page_buffer := (page_buffer ctl)(pageno := bytes),
                     page_dirty := (page_dirty ctl)(pageno := True)\<rparr>
         else ctl)"

lemma mask2: "(3::uint8) = mask 2" by (simp add: mask_eq_exp_minus_1)

lemma take_bit_lt4: "st < 4 \<Longrightarrow> take_bit 2 st = st" for st :: uint8
  by (rule word_unat_eq_iff[THEN iffD2])
    (simp only: unsigned_take_bit_eq, simp add: take_bit_eq_mod word_less_nat_alt)
lemma bit_lt4: "st < 4 \<Longrightarrow> bit st n \<Longrightarrow> n < 2" for st :: uint8
  using take_bit_lt4[of st] by (metis bit_take_bit_iff)

lemma status_bits_same:
  fixes b st :: uint8
  assumes "st < 4" and "k < 4"
  shows "drop_bit (k * 2) (b AND NOT (push_bit (k * 2) (mask 2)) OR push_bit (k * 2) st) AND mask 2 = st"
proof (rule bit_word_eqI)
  fix n :: nat
  assume "n < LENGTH(8)"
  then show "bit (drop_bit (k * 2) (b AND NOT (push_bit (k * 2) (mask 2)) OR push_bit (k * 2) st) AND mask 2) n
      = bit st n"
    using assms(2) bit_lt4[OF assms(1), of n]
    by (cases "n < 2") (auto simp: bit_simps bit_mask_iff simp del: mask_numeral)
qed

lemma status_bits_other:
  fixes b st :: uint8
  assumes "st < 4" and "k < 4" and "j < 4" and "j \<noteq> k"
  shows "drop_bit (j * 2) (b AND NOT (push_bit (k * 2) (mask 2)) OR push_bit (k * 2) st) AND mask 2
       = drop_bit (j * 2) b AND mask 2"
proof (rule bit_word_eqI)
  fix n :: nat
  assume "n < LENGTH(8)"
  have "\<not> bit st (j * 2 + n - k * 2)" if "n < 2" "k * 2 \<le> j * 2 + n"
  proof
    assume "bit st (j * 2 + n - k * 2)"
    from bit_lt4[OF assms(1) this] that assms(4) show False by linarith
  qed
  then show "bit (drop_bit (j * 2) (b AND NOT (push_bit (k * 2) (mask 2)) OR push_bit (k * 2) st) AND mask 2) n
      = bit (drop_bit (j * 2) b AND mask 2) n"
   using assms by (auto simp: bit_simps bit_mask_iff simp del: mask_numeral)
qed

section \<open>Reading back what was written\<close>

definition xid_status :: "clog_ctl \<Rightarrow> TransactionId \<Rightarrow> XidStatus" where
  "xid_status ctl xid = fst (TransactionIdGetStatus ctl xid)"

definition xid_group_lsn :: "clog_ctl \<Rightarrow> TransactionId \<Rightarrow> XLogRecPtr" where
  "xid_group_lsn ctl xid = snd (TransactionIdGetStatus ctl xid)"

lemma TransactionIdGetStatus_eq:
  "TransactionIdGetStatus ctl xid = (xid_status ctl xid, xid_group_lsn ctl xid)"
  by (simp add: xid_status_def xid_group_lsn_def)

lemma bitmask_mask: "CLOG_XACT_BITMASK = mask 2" "push_bit CLOG_BITS_PER_XACT 1 - 1 = (mask 2 :: uint8)"
  by (simp_all add: CLOG_XACT_BITMASK_def CLOG_BITS_PER_XACT_def mask_eq_exp_minus_1)

lemma xid_status_eq:
  "xid_status ctl x
     = drop_bit (TransactionIdToBIndex x * 2)
         (page_buffer ctl (TransactionIdToPage x) (TransactionIdToByte x)) AND mask 2"
  by (simp only: xid_status_def TransactionIdGetStatus_def Let_def fst_conv bitmask_mask CLOG_BITS_PER_XACT_def)

lemma xid_group_lsn_eq:
  "xid_group_lsn ctl x = group_lsn ctl (TransactionIdToPage x) (GetLSNIndex x)"
  by (simp add: xid_group_lsn_def TransactionIdGetStatus_def Let_def)

lemma BIndex_less [simp]: "TransactionIdToBIndex x < 4"
  by (simp add: TransactionIdToBIndex_def CLOG_XACTS_PER_BYTE_def)

lemma Byte_less [simp]: "TransactionIdToByte x < BLCKSZ"
  by (simp add: TransactionIdToByte_def TransactionIdToPgIndex_def page_simps less_mult_imp_div_less)

lemma address_split: "n = n div 32768 * 32768 + (n mod 32768 div 4 * 4 + n mod 4)" for n :: nat
proof -
  have "n mod 32768 mod 4 = n mod 4" by (rule mod_mod_cancel) simp
  then have "n mod 32768 = n mod 32768 div 4 * 4 + n mod 4" by (metis div_mult_mod_eq)
  then show ?thesis by (metis div_mult_mod_eq)
qed

lemma address_unique:
  assumes "TransactionIdToPage x = TransactionIdToPage y" "TransactionIdToByte x = TransactionIdToByte y"
    "TransactionIdToBIndex x = TransactionIdToBIndex y"
  shows "x = y"
proof -
  have "unat x = unat y"
    using assms address_split[of "unat x"] address_split[of "unat y"]
    by (simp add: TransactionIdToPage_def TransactionIdToByte_def TransactionIdToPgIndex_def
        TransactionIdToBIndex_def page_simps)
  then show ?thesis by (simp add: word_unat_eq_iff)
qed

text \<open>
  During recovery a sub-commit leaves an id alone that is already committed; everywhere else the
  new status is stored.
\<close>

definition stored_status :: "bool \<Rightarrow> XidStatus \<Rightarrow> XidStatus \<Rightarrow> XidStatus" where
  "stored_status InRecovery status curval =
     (if InRecovery \<and> status = TRANSACTION_STATUS_SUB_COMMITTED
         \<and> curval = TRANSACTION_STATUS_COMMITTED then curval else status)"

lemma stored_status_idem [simp]:
  "stored_status r st (stored_status r st cur) = stored_status r st cur"
  by (simp add: stored_status_def)

lemma stored_status_final:
  "st \<noteq> TRANSACTION_STATUS_SUB_COMMITTED \<Longrightarrow> stored_status r st cur = st"
  by (simp add: stored_status_def)

lemma SetStatusBit_status:
  assumes "st < 4"
  shows "xid_status (TransactionIdSetStatusBit r x st lsn (TransactionIdToPage x) ctl) y
       = (if y = x then stored_status r st (xid_status ctl x) else xid_status ctl y)"
proof -
  let ?b = "page_buffer ctl (TransactionIdToPage x) (TransactionIdToByte x)"
  let ?j = "TransactionIdToBIndex x" and ?k = "TransactionIdToBIndex y"
  have buf: "page_buffer (TransactionIdSetStatusBit r x st lsn (TransactionIdToPage x) ctl)
      = (if r \<and> st = TRANSACTION_STATUS_SUB_COMMITTED \<and> xid_status ctl x = TRANSACTION_STATUS_COMMITTED
         then page_buffer ctl
         else (page_buffer ctl)(TransactionIdToPage x := (page_buffer ctl (TransactionIdToPage x))
           (TransactionIdToByte x := ?b AND NOT (push_bit (?j * 2) (mask 2)) OR push_bit (?j * 2) st)))"
    unfolding TransactionIdSetStatusBit_def bitmask_mask
    unfolding CLOG_BITS_PER_XACT_def xid_status_eq Let_def
    by (simp del: mask_numeral)
  show ?thesis
  proof (cases "y = x")
    case True
    then show ?thesis
      using status_bits_same[OF assms, of ?j ?b]
      by (simp add: xid_status_eq[of "TransactionIdSetStatusBit _ _ _ _ _ _"] buf stored_status_def)
        (simp add: xid_status_eq)
  next
    case False
    then show ?thesis
      using status_bits_other[OF assms, of ?j ?k ?b] address_unique[of x y]
      by (simp add: xid_status_eq buf del: mask_numeral) metis
  qed
qed

lemma SetStatusBit_lsn:
  "xid_group_lsn ctl y \<le> xid_group_lsn (TransactionIdSetStatusBit r x st lsn (TransactionIdToPage x) ctl) y"
  unfolding TransactionIdSetStatusBit_def Let_def xid_group_lsn_eq by (simp add: less_imp_le)

lemma SetStatusBit_lsn_self:
  assumes "st \<noteq> TRANSACTION_STATUS_SUB_COMMITTED"
  shows "lsn \<le> xid_group_lsn (TransactionIdSetStatusBit r x st lsn (TransactionIdToPage x) ctl) x"
  using assms unfolding TransactionIdSetStatusBit_def Let_def xid_group_lsn_eq
  by (simp add: XLogRecPtrIsInvalid_def InvalidXLogRecPtr_def not_less)

definition final_status :: "XidStatus \<Rightarrow> bool" where
  "final_status st \<longleftrightarrow> st = TRANSACTION_STATUS_COMMITTED \<or> st = TRANSACTION_STATUS_ABORTED"

lemma status_less_4 [simp]:
  "TRANSACTION_STATUS_IN_PROGRESS < 4" "TRANSACTION_STATUS_COMMITTED < 4" "TRANSACTION_STATUS_ABORTED < 4"
  "TRANSACTION_STATUS_SUB_COMMITTED < 4"
  by (simp_all add: TRANSACTION_STATUS_IN_PROGRESS_def TRANSACTION_STATUS_COMMITTED_def
      TRANSACTION_STATUS_ABORTED_def TRANSACTION_STATUS_SUB_COMMITTED_def)

lemma status_distinct [simp]:
  "TRANSACTION_STATUS_COMMITTED \<noteq> TRANSACTION_STATUS_SUB_COMMITTED"
  "TRANSACTION_STATUS_ABORTED \<noteq> TRANSACTION_STATUS_SUB_COMMITTED"
  "TRANSACTION_STATUS_COMMITTED \<noteq> TRANSACTION_STATUS_ABORTED"
  "TRANSACTION_STATUS_COMMITTED \<noteq> TRANSACTION_STATUS_IN_PROGRESS"
  "TRANSACTION_STATUS_ABORTED \<noteq> TRANSACTION_STATUS_IN_PROGRESS"
  "TRANSACTION_STATUS_SUB_COMMITTED \<noteq> TRANSACTION_STATUS_IN_PROGRESS"
  by (simp_all add: TRANSACTION_STATUS_IN_PROGRESS_def TRANSACTION_STATUS_COMMITTED_def
      TRANSACTION_STATUS_ABORTED_def TRANSACTION_STATUS_SUB_COMMITTED_def)

lemmas status_distinct' [simp] = status_distinct[symmetric]

lemma final_status_less: "final_status st \<Longrightarrow> st < 4"
  by (auto simp: final_status_def)

lemma final_status_not_sub: "final_status st \<Longrightarrow> st \<noteq> TRANSACTION_STATUS_SUB_COMMITTED"
  by (auto simp: final_status_def)

lemma page_dirty_irrelevant [simp]:
  "xid_status (page_dirty_update f ctl) y = xid_status ctl y"
  "xid_group_lsn (page_dirty_update f ctl) y = xid_group_lsn ctl y"
  by (simp_all add: xid_status_eq xid_group_lsn_eq)

lemma fold_SetStatusBit_status:
  assumes "st < 4" "\<forall>x \<in> set xs. TransactionIdToPage x = p"
  shows "xid_status (fold (\<lambda>x. TransactionIdSetStatusBit r x st lsn p) xs ctl) y
       = (if y \<in> set xs then stored_status r st (xid_status ctl y) else xid_status ctl y)"
  using assms(2)
proof (induction xs arbitrary: ctl)
  case (Cons x xs)
  then have "TransactionIdToPage x = p" by simp
  with Cons show ?case by (auto simp: SetStatusBit_status[OF assms(1)])
qed simp

lemma fold_SetStatusBit_lsn:
  assumes "\<forall>x \<in> set xs. TransactionIdToPage x = p"
  shows "xid_group_lsn ctl y \<le> xid_group_lsn (fold (\<lambda>x. TransactionIdSetStatusBit r x st lsn p) xs ctl) y"
  using assms
proof (induction xs arbitrary: ctl)
  case (Cons x xs)
  then have "TransactionIdToPage x = p" by simp
  then have "xid_group_lsn ctl y \<le> xid_group_lsn (TransactionIdSetStatusBit r x st lsn p ctl) y"
    using SetStatusBit_lsn by auto
  with Cons show ?case by (fastforce intro: order_trans)
qed simp

lemma fold_SetStatusBit_lsn_self:
  assumes "\<forall>x \<in> set xs. TransactionIdToPage x = p" "st \<noteq> TRANSACTION_STATUS_SUB_COMMITTED" "y \<in> set xs"
  shows "lsn \<le> xid_group_lsn (fold (\<lambda>x. TransactionIdSetStatusBit r x st lsn p) xs ctl) y"
  using assms
proof (induction xs arbitrary: ctl)
  case (Cons x xs)
  show ?case
  proof (cases "y \<in> set xs")
    case True
    with Cons show ?thesis by simp
  next
    case False
    with Cons have y: "y = x" "TransactionIdToPage x = p" by auto
    then have "lsn \<le> xid_group_lsn (TransactionIdSetStatusBit r x st lsn p ctl) y"
      using SetStatusBit_lsn_self[OF assms(2)] by auto
    also have "\<dots> \<le> xid_group_lsn (fold (\<lambda>x. TransactionIdSetStatusBit r x st lsn p) (x # xs) ctl) y"
      using fold_SetStatusBit_lsn[of xs p] Cons.prems by simp
    finally show ?thesis .
  qed
qed simp

section \<open>Page and tree updates\<close>

text \<open>A well-formed page update touches ids of its own page only, as the callers ensure.\<close>

definition update_ids :: "page_update \<Rightarrow> TransactionId set" where
  "update_ids u = set (upd_subxids u) \<union> (if TransactionIdIsValid (upd_xid u) then {upd_xid u} else {})"

definition wf_update :: "page_update \<Rightarrow> bool" where
  "wf_update u \<longleftrightarrow> (\<forall>x \<in> update_ids u. TransactionIdToPage x = upd_pageno u)
     \<and> (final_status (upd_status u)
        \<or> (upd_status u = TRANSACTION_STATUS_SUB_COMMITTED \<and> \<not> TransactionIdIsValid (upd_xid u)))"

lemma wf_update_pages:
  assumes "wf_update u"
  shows "\<forall>x \<in> set (upd_subxids u). TransactionIdToPage x = upd_pageno u"
    and "TransactionIdIsValid (upd_xid u) \<Longrightarrow> TransactionIdToPage (upd_xid u) = upd_pageno u"
  using assms by (auto simp: wf_update_def update_ids_def split: if_splits)

lemma run_page_update_status:
  assumes "wf_update u"
  shows "xid_status (run_page_update r u ctl) y
       = (if y \<in> update_ids u then stored_status r (upd_status u) (xid_status ctl y) else xid_status ctl y)"
proof -
  note page = wf_update_pages[OF assms]
  have st: "upd_status u < 4"
    using assms by (auto simp: wf_update_def dest: final_status_less)
  note bits = fold_SetStatusBit_status[OF _ page(1)]
  show ?thesis
  proof (cases "TransactionIdIsValid (upd_xid u)")
    case True
    then have "final_status (upd_status u)" using assms by (auto simp: wf_update_def)
    moreover note SetStatusBit_status[OF st, of r "upd_xid u", unfolded page(2)[OF True]]
    ultimately show ?thesis
      using True by (auto simp: run_page_update_def TransactionIdSetPageStatus_def update_ids_def
          TransactionIdSetPageStatusInternal_def Let_def bits st stored_status_final[OF final_status_not_sub])
  qed (simp add: run_page_update_def TransactionIdSetPageStatus_def update_ids_def
          TransactionIdSetPageStatusInternal_def Let_def bits st)
qed

lemma run_page_update_lsn:
  assumes "wf_update u"
  shows "xid_group_lsn ctl y \<le> xid_group_lsn (run_page_update r u ctl) y"
proof -
  note page = wf_update_pages[OF assms]
  note mono = fold_SetStatusBit_lsn[OF page(1)]
  have bit: "TransactionIdIsValid (upd_xid u) \<Longrightarrow>
      xid_group_lsn c y \<le> xid_group_lsn (TransactionIdSetStatusBit r (upd_xid u) st lsn (upd_pageno u) c) y" for c st lsn
    using SetStatusBit_lsn[of c y r "upd_xid u"] page(2) by simp
  let ?sub = "\<lambda>st x. TransactionIdSetStatusBit r x st (upd_lsn u) (upd_pageno u)"
  let ?c1 = "if upd_status u = TRANSACTION_STATUS_COMMITTED
             then fold (?sub TRANSACTION_STATUS_SUB_COMMITTED) (upd_subxids u) ctl else ctl"
  let ?c2 = "if TransactionIdIsValid (upd_xid u) then ?sub (upd_status u) (upd_xid u) ?c1 else ctl"
  have "xid_group_lsn ctl y \<le> xid_group_lsn ?c1 y" by (simp add: mono)
  then have "xid_group_lsn ctl y \<le> xid_group_lsn ?c2 y"
    using order_trans[OF _ bit] by auto
  also have "\<dots> \<le> xid_group_lsn (fold (?sub (upd_status u)) (upd_subxids u) ?c2) y" by (rule mono)
  finally show ?thesis
    by (simp only: run_page_update_def TransactionIdSetPageStatus_def
        TransactionIdSetPageStatusInternal_def Let_def page_dirty_irrelevant)
qed

lemma run_page_update_lsn_self:
  assumes "wf_update u" "y \<in> update_ids u" "final_status (upd_status u)"
  shows "upd_lsn u \<le> xid_group_lsn (run_page_update r u ctl) y"
proof -
  note page = wf_update_pages[OF assms(1)]
  note ns = final_status_not_sub[OF assms(3)]
  note mono = fold_SetStatusBit_lsn[OF page(1)] and self = fold_SetStatusBit_lsn_self[OF page(1) ns]
  have bit: "TransactionIdIsValid (upd_xid u) \<Longrightarrow> upd_lsn u \<le>
     xid_group_lsn (TransactionIdSetStatusBit r (upd_xid u) (upd_status u) (upd_lsn u) (upd_pageno u) c) (upd_xid u)" for c
    using SetStatusBit_lsn_self[OF ns, of _ r "upd_xid u"] page(2) by simp
  let ?sub = "\<lambda>st x. TransactionIdSetStatusBit r x st (upd_lsn u) (upd_pageno u)"
  let ?c1 = "if upd_status u = TRANSACTION_STATUS_COMMITTED
             then fold (?sub TRANSACTION_STATUS_SUB_COMMITTED) (upd_subxids u) ctl else ctl"
  let ?c2 = "if TransactionIdIsValid (upd_xid u) then ?sub (upd_status u) (upd_xid u) ?c1 else ctl"
  have "upd_lsn u \<le> xid_group_lsn (fold (?sub (upd_status u)) (upd_subxids u) ?c2) y"
  proof (cases "y \<in> set (upd_subxids u)")
    case True
    then show ?thesis by (rule self)
  next
    case False
    then have "upd_xid u = y" "TransactionIdIsValid (upd_xid u)"
      using assms(2) by (auto simp: update_ids_def split: if_splits)
    then have "upd_lsn u \<le> xid_group_lsn ?c2 y" using bit by simp
    also have "\<dots> \<le> xid_group_lsn (fold (?sub (upd_status u)) (upd_subxids u) ?c2) y" by (rule mono)
    finally show ?thesis .
  qed
  then show ?thesis
    by (simp only: run_page_update_def TransactionIdSetPageStatus_def
        TransactionIdSetPageStatusInternal_def Let_def page_dirty_irrelevant)
qed

lemma set_status_by_pages_wf:
  assumes "final_status st \<or> st = TRANSACTION_STATUS_SUB_COMMITTED" "u \<in> set (set_status_by_pages xs st lsn)"
  shows "wf_update u \<and> upd_status u = st \<and> upd_lsn u = lsn \<and> \<not> TransactionIdIsValid (upd_xid u)"
  using assms
proof (induction xs st lsn rule: set_status_by_pages.induct)
  case (2 x xs st lsn)
  consider (head) "u = \<lparr>upd_xid = InvalidTransactionId,
        upd_subxids = x # takeWhile (\<lambda>y. TransactionIdToPage y = TransactionIdToPage x) xs,
        upd_status = st, upd_lsn = lsn, upd_pageno = TransactionIdToPage x\<rparr>"
    | (tail) "u \<in> set (set_status_by_pages
        (dropWhile (\<lambda>y. TransactionIdToPage y = TransactionIdToPage x) xs) st lsn)"
    using "2.prems"(2) by (auto simp: Let_def)
  then show ?case
  proof cases
    case head
    with "2.prems"(1) show ?thesis
      by (auto simp: wf_update_def update_ids_def TransactionIdIsValid_def dest: set_takeWhileD)
  next
    case tail
    with 2 show ?thesis by simp
  qed
qed simp

lemma set_status_by_pages_ids:
  "(\<Union>u \<in> set (set_status_by_pages xs st lsn). update_ids u) = set xs"
proof (induction xs st lsn rule: set_status_by_pages.induct)
  case (2 x xs st lsn)
  have "set xs = set (takeWhile P xs) \<union> set (dropWhile P xs)" for P
    by (metis set_append takeWhile_dropWhile_id)
  with 2 show ?case by (auto simp: Let_def update_ids_def TransactionIdIsValid_def)
qed simp

lemma fold_updates_status:
  assumes "\<forall>u \<in> set us. wf_update u \<and> upd_status u = st \<and> upd_lsn u = lsn"
    and "(\<Union>u \<in> set us. update_ids u) = A"
  shows "xid_status (fold (run_page_update r) us ctl) y
       = (if y \<in> A then stored_status r st (xid_status ctl y) else xid_status ctl y)"
  unfolding assms(2)[symmetric]
  using assms(1) by (induction us arbitrary: ctl) (auto simp: run_page_update_status)

lemma fold_updates_lsn:
  assumes "\<forall>u \<in> set us. wf_update u"
  shows "xid_group_lsn ctl y \<le> xid_group_lsn (fold (run_page_update r) us ctl) y"
  using assms
proof (induction us arbitrary: ctl)
  case (Cons u us)
  then have "xid_group_lsn ctl y \<le> xid_group_lsn (run_page_update r u ctl) y"
    by (simp add: run_page_update_lsn)
  also have "\<dots> \<le> xid_group_lsn (fold (run_page_update r) us (run_page_update r u ctl)) y"
    using Cons by simp
  finally show ?case by simp
qed simp

text \<open>
  The calls of \<^verbatim>\<open>TransactionIdSetTreeStatus\<close> fall into three phases: marking the subtransactions on
  other pages as sub-committed, the update of the page of the top-level id, and the final update of
  the other pages.
\<close>

definition tree_pre ::
    "TransactionId \<Rightarrow> TransactionId list \<Rightarrow> XidStatus \<Rightarrow> XLogRecPtr \<Rightarrow> page_update list" where
  "tree_pre xid subxids st lsn =
     (let others = dropWhile (\<lambda>y. TransactionIdToPage y = TransactionIdToPage xid) subxids
      in if st = TRANSACTION_STATUS_COMMITTED
         then set_status_by_pages others TRANSACTION_STATUS_SUB_COMMITTED lsn else [])"

definition tree_main ::
    "TransactionId \<Rightarrow> TransactionId list \<Rightarrow> XidStatus \<Rightarrow> XLogRecPtr \<Rightarrow> page_update" where
  "tree_main xid subxids st lsn =
     \<lparr>upd_xid = xid, upd_subxids = takeWhile (\<lambda>y. TransactionIdToPage y = TransactionIdToPage xid) subxids,
      upd_status = st, upd_lsn = lsn, upd_pageno = TransactionIdToPage xid\<rparr>"

definition tree_post ::
    "TransactionId \<Rightarrow> TransactionId list \<Rightarrow> XidStatus \<Rightarrow> XLogRecPtr \<Rightarrow> page_update list" where
  "tree_post xid subxids st lsn =
     set_status_by_pages (dropWhile (\<lambda>y. TransactionIdToPage y = TransactionIdToPage xid) subxids) st lsn"

definition tree_others :: "TransactionId \<Rightarrow> TransactionId list \<Rightarrow> TransactionId set" where
  "tree_others xid subxids = set (dropWhile (\<lambda>y. TransactionIdToPage y = TransactionIdToPage xid) subxids)"

lemma tree_calls_phases:
  "set_tree_status_calls xid subxids st lsn
     = tree_pre xid subxids st lsn @ tree_main xid subxids st lsn # tree_post xid subxids st lsn"
  by (cases "dropWhile (\<lambda>y. TransactionIdToPage y = TransactionIdToPage xid) subxids")
    (auto simp: set_tree_status_calls_def tree_pre_def tree_main_def tree_post_def Let_def
      simp del: dropWhile_eq_Nil_conv set_status_by_pages.simps(2))

lemma set_run_split: "set xs = set (takeWhile P xs) \<union> set (dropWhile P xs)"
  by (metis set_append takeWhile_dropWhile_id)

lemma tree_phases_wf:
  assumes "final_status st"
  shows "\<forall>u \<in> set (tree_pre xid subxids st lsn). wf_update u \<and> upd_status u = TRANSACTION_STATUS_SUB_COMMITTED
        \<and> upd_lsn u = lsn"
    and "wf_update (tree_main xid subxids st lsn)"
    and "\<forall>u \<in> set (tree_post xid subxids st lsn). wf_update u \<and> upd_status u = st \<and> upd_lsn u = lsn"
proof -
  show "\<forall>u \<in> set (tree_pre xid subxids st lsn). wf_update u \<and> upd_status u = TRANSACTION_STATUS_SUB_COMMITTED
        \<and> upd_lsn u = lsn"
    using set_status_by_pages_wf by (auto simp: tree_pre_def Let_def)
  show "wf_update (tree_main xid subxids st lsn)"
    using assms by (auto simp: tree_main_def wf_update_def update_ids_def dest: set_takeWhileD)
  show "\<forall>u \<in> set (tree_post xid subxids st lsn). wf_update u \<and> upd_status u = st \<and> upd_lsn u = lsn"
    using assms set_status_by_pages_wf by (auto simp: tree_post_def)
qed

lemma tree_phases_ids:
  assumes "TransactionIdIsValid xid"
  shows "(\<Union>u \<in> set (tree_pre xid subxids st lsn). update_ids u)
           = (if st = TRANSACTION_STATUS_COMMITTED then tree_others xid subxids else {})"
    and "(\<Union>u \<in> set (tree_post xid subxids st lsn). update_ids u) = tree_others xid subxids"
    and "insert xid (set subxids) = update_ids (tree_main xid subxids st lsn) \<union> tree_others xid subxids"
proof -
  show "(\<Union>u \<in> set (tree_pre xid subxids st lsn). update_ids u)
      = (if st = TRANSACTION_STATUS_COMMITTED then tree_others xid subxids else {})"
    by (simp add: tree_pre_def Let_def set_status_by_pages_ids tree_others_def)
  show "(\<Union>u \<in> set (tree_post xid subxids st lsn). update_ids u) = tree_others xid subxids"
    by (simp add: tree_post_def set_status_by_pages_ids tree_others_def)
  show "insert xid (set subxids) = update_ids (tree_main xid subxids st lsn) \<union> tree_others xid subxids"
    using assms set_run_split[of subxids "\<lambda>y. TransactionIdToPage y = TransactionIdToPage xid"]
    by (auto simp: tree_others_def tree_main_def update_ids_def)
qed

lemma tree_main_status:
  assumes "final_status st"
  shows "xid_status (run_page_update r (tree_main xid subxids st lsn) ctl) y
       = (if y \<in> update_ids (tree_main xid subxids st lsn) then st else xid_status ctl y)"
  using run_page_update_status[OF tree_phases_wf(2)[OF assms]] assms
  by (simp add: stored_status_final[OF final_status_not_sub] tree_main_def)

lemma tree_post_status:
  assumes "TransactionIdIsValid xid" "final_status st"
  shows "xid_status (fold (run_page_update r) (tree_post xid subxids st lsn) ctl) y
       = (if y \<in> tree_others xid subxids then st else xid_status ctl y)"
  by (simp add: fold_updates_status[OF tree_phases_wf(3)[OF assms(2)] tree_phases_ids(2)[OF assms(1)]]
      stored_status_final[OF final_status_not_sub[OF assms(2)]])

lemma tree_pre_status:
  assumes "TransactionIdIsValid xid" "final_status st"
  shows "xid_status (fold (run_page_update r) (tree_pre xid subxids st lsn) ctl) y
       = (if st = TRANSACTION_STATUS_COMMITTED \<and> y \<in> tree_others xid subxids
          then stored_status r TRANSACTION_STATUS_SUB_COMMITTED (xid_status ctl y) else xid_status ctl y)"
  by (simp add: fold_updates_status[OF tree_phases_wf(1)[OF assms(2)] tree_phases_ids(1)[OF assms(1)]])

lemma SetTreeStatus_status:
  assumes "TransactionIdIsValid xid" "final_status st"
  shows "xid_status (TransactionIdSetTreeStatus r xid subxids st lsn ctl) y
       = (if y \<in> insert xid (set subxids) then st else xid_status ctl y)"
  using tree_phases_ids(3)[OF assms(1), of subxids st lsn]
  by (simp add: TransactionIdSetTreeStatus_def tree_calls_phases tree_main_status[OF assms(2)]
      tree_post_status[OF assms] tree_pre_status[OF assms] del: insert_iff)

lemma fold_updates_lsn_self:
  assumes "\<forall>u \<in> set us. wf_update u \<and> upd_lsn u = lsn"
    "\<exists>u \<in> set us. y \<in> update_ids u \<and> final_status (upd_status u)"
  shows "lsn \<le> xid_group_lsn (fold (run_page_update r) us ctl) y"
  using assms
proof (induction us arbitrary: ctl)
  case (Cons u us)
  show ?case
  proof (cases "y \<in> update_ids u \<and> final_status (upd_status u)")
    case True
    then have "lsn \<le> xid_group_lsn (run_page_update r u ctl) y"
      using run_page_update_lsn_self[of u y] Cons.prems(1) by auto
    also have "\<dots> \<le> xid_group_lsn (fold (run_page_update r) us (run_page_update r u ctl)) y"
      using Cons.prems(1) by (intro fold_updates_lsn) auto
    finally show ?thesis by simp
  next
    case False
    with Cons show ?thesis by auto
  qed
qed simp

lemma tree_calls_lsn:
  assumes "final_status st" "u \<in> set (set_tree_status_calls xid subxids st lsn)"
  shows "wf_update u \<and> upd_lsn u = lsn"
  using assms(2) tree_phases_wf[OF assms(1), of xid subxids lsn]
  by (auto simp: tree_calls_phases) (simp add: tree_main_def)

lemma SetTreeStatus_lsn:
  assumes "TransactionIdIsValid xid" "final_status st"
  shows "xid_group_lsn ctl y \<le> xid_group_lsn (TransactionIdSetTreeStatus r xid subxids st lsn ctl) y"
    and "y \<in> insert xid (set subxids) \<Longrightarrow>
         lsn \<le> xid_group_lsn (TransactionIdSetTreeStatus r xid subxids st lsn ctl) y"
proof -
  show "xid_group_lsn ctl y \<le> xid_group_lsn (TransactionIdSetTreeStatus r xid subxids st lsn ctl) y"
    using tree_calls_lsn[OF assms(2)] by (auto simp: TransactionIdSetTreeStatus_def intro: fold_updates_lsn)
  assume "y \<in> insert xid (set subxids)"
  then have "\<exists>u \<in> set (set_tree_status_calls xid subxids st lsn). y \<in> update_ids u \<and> final_status (upd_status u)"
  proof (cases "y \<in> update_ids (tree_main xid subxids st lsn)")
    case True
    with assms(2) show ?thesis by (simp add: tree_calls_phases) (simp add: tree_main_def)
  next
    case False
    then have "y \<in> tree_others xid subxids"
      using \<open>y \<in> _\<close> tree_phases_ids(3)[OF assms(1), of subxids st lsn] by blast
    then obtain u where "u \<in> set (tree_post xid subxids st lsn)" "y \<in> update_ids u"
      using tree_phases_ids(2)[OF assms(1), of subxids st lsn] by blast
    with assms(2) tree_phases_wf(3)[OF assms(2), of xid subxids lsn] show ?thesis
      by (auto simp: tree_calls_phases)
  qed
  then show "lsn \<le> xid_group_lsn (TransactionIdSetTreeStatus r xid subxids st lsn ctl) y"
    using tree_calls_lsn[OF assms(2)] by (auto simp: TransactionIdSetTreeStatus_def intro: fold_updates_lsn_self)
qed

lemma tree_prefix_cases:
  obtains (before) k where "take n (set_tree_status_calls xid subxids st lsn) = take k (tree_pre xid subxids st lsn)"
  | (after) k where "take n (set_tree_status_calls xid subxids st lsn)
      = tree_pre xid subxids st lsn @ tree_main xid subxids st lsn # take k (tree_post xid subxids st lsn)"
proof (cases "n \<le> length (tree_pre xid subxids st lsn)")
  case True
  then show ?thesis by (intro before[of n]) (simp add: tree_calls_phases)
next
  case False
  then obtain k where "n = Suc (length (tree_pre xid subxids st lsn) + k)"
    by (metis add_Suc_right less_imp_Suc_add not_le)
  then show ?thesis by (intro after[of k]) (simp add: tree_calls_phases Suc_diff_le)
qed

lemma fold_updates_prefix:
  assumes "\<forall>u \<in> set us. wf_update u \<and> upd_status u = st \<and> upd_lsn u = lsn"
    and "(\<Union>u \<in> set us. update_ids u) = A"
  obtains B where "B \<subseteq> A"
    and "\<And>y. xid_status (fold (run_page_update r) (take k us) ctl) y
           = (if y \<in> B then stored_status r st (xid_status ctl y) else xid_status ctl y)"
proof
  show "(\<Union>u \<in> set (take k us). update_ids u) \<subseteq> A"
    using assms(2) by (auto dest: in_set_takeD)
  have wf: "\<forall>u \<in> set (take k us). wf_update u \<and> upd_status u = st \<and> upd_lsn u = lsn"
    using assms(1) by (auto dest: in_set_takeD)
  show "xid_status (fold (run_page_update r) (take k us) ctl) y
      = (if y \<in> (\<Union>u \<in> set (take k us). update_ids u)
         then stored_status r st (xid_status ctl y) else xid_status ctl y)" for y
    by (rule fold_updates_status[OF wf refl])
qed

text \<open>
  Between any two page updates of a commit either the top-level id and all of the tree are as before,
  up to sub-commit marks, or the top-level id is committed and every subtransaction is committed or
  sub-committed.
\<close>

lemma tree_commit_prefix:
  assumes "TransactionIdIsValid xid" "xid \<notin> set subxids"
    and c: "c = fold (run_page_update False)
                  (take n (set_tree_status_calls xid subxids TRANSACTION_STATUS_COMMITTED lsn)) ctl"
  shows "(\<forall>y. y \<notin> insert xid (set subxids) \<longrightarrow> xid_status c y = xid_status ctl y)
       \<and> ((xid_status c xid = xid_status ctl xid
            \<and> (\<forall>y \<in> set subxids. xid_status c y = xid_status ctl y
                                 \<or> xid_status c y = TRANSACTION_STATUS_SUB_COMMITTED))
          \<or> (xid_status c xid = TRANSACTION_STATUS_COMMITTED
            \<and> (\<forall>y \<in> set subxids. xid_status c y = TRANSACTION_STATUS_COMMITTED
                                 \<or> xid_status c y = TRANSACTION_STATUS_SUB_COMMITTED)))"
proof -
  have fin: "final_status TRANSACTION_STATUS_COMMITTED" by (simp add: final_status_def)
  let ?M = "update_ids (tree_main xid subxids TRANSACTION_STATUS_COMMITTED lsn)"
  let ?O = "tree_others xid subxids"
  have ids: "insert xid (set subxids) = ?M \<union> ?O" by (rule tree_phases_ids(3)[OF assms(1)])
  have xid: "xid \<in> ?M" "xid \<notin> ?O"
    using assms(1,2) by (auto simp: tree_main_def update_ids_def tree_others_def dest: set_dropWhileD)
  have keep: "stored_status False st cur = st" for st cur by (simp add: stored_status_def)
  show ?thesis
  proof (cases rule: tree_prefix_cases[of n xid subxids TRANSACTION_STATUS_COMMITTED lsn])
    case (before k)
    obtain B where B: "B \<subseteq> ?O" "\<And>y. xid_status c y
        = (if y \<in> B then TRANSACTION_STATUS_SUB_COMMITTED else xid_status ctl y)"
      unfolding c before
      by (rule fold_updates_prefix[OF tree_phases_wf(1)[OF fin] tree_phases_ids(1)[OF assms(1), of subxids _ lsn],
            where r = False and k = k and ctl = ctl, unfolded keep]) simp
    then have "xid \<notin> B" "B \<subseteq> insert xid (set subxids)" using xid ids by auto
    then show ?thesis using B(2) by auto
  next
    case (after k)
    let ?c1 = "run_page_update False (tree_main xid subxids TRANSACTION_STATUS_COMMITTED lsn)
        (fold (run_page_update False) (tree_pre xid subxids TRANSACTION_STATUS_COMMITTED lsn) ctl)"
    obtain B where "B \<subseteq> ?O" "\<And>y. xid_status c y
        = (if y \<in> B then TRANSACTION_STATUS_COMMITTED else xid_status ?c1 y)"
      unfolding c after
      by (rule fold_updates_prefix[OF tree_phases_wf(3)[OF fin] tree_phases_ids(2)[OF assms(1), of subxids _ lsn],
            where r = False and k = k and ctl = ?c1, unfolded keep]) simp
    then have B: "B \<subseteq> ?O" "\<And>y. xid_status c y
        = (if y \<in> B \<union> ?M then TRANSACTION_STATUS_COMMITTED
           else if y \<in> ?O then TRANSACTION_STATUS_SUB_COMMITTED else xid_status ctl y)"
      by (simp_all add: tree_main_status[OF fin] tree_pre_status[OF assms(1) fin] keep)
    have "y \<in> set subxids \<Longrightarrow> y \<in> ?M \<or> y \<in> ?O" for y using ids by auto
    moreover have "y \<notin> insert xid (set subxids) \<Longrightarrow> y \<notin> ?M \<and> y \<notin> ?O" for y using ids by auto
    ultimately show ?thesis using B xid(1) by auto
  qed
qed

section \<open>Extending and trimming\<close>

lemma ZeroCLOGPage_status:
  "xid_status (ZeroCLOGPage p ctl) y
     = (if TransactionIdToPage y = p then TRANSACTION_STATUS_IN_PROGRESS else xid_status ctl y)"
  by (simp add: xid_status_eq ZeroCLOGPage_def TRANSACTION_STATUS_IN_PROGRESS_def)

lemma trim_bits:
  assumes "j < 4" "k < 4"
  shows "drop_bit (j * 2) (b AND (push_bit (k * 2) 1 - 1)) AND mask 2
       = (if k \<le> j then 0 else drop_bit (j * 2) (b :: uint8) AND mask 2)"
proof (rule bit_word_eqI)
  fix n :: nat
  have "push_bit (k * 2) 1 - 1 = (mask (k * 2) :: uint8)"
    by (simp add: mask_eq_exp_minus_1 push_bit_eq_mult)
  then show "bit (drop_bit (j * 2) (b AND (push_bit (k * 2) 1 - 1)) AND mask 2) n
      = bit (if k \<le> j then 0 else drop_bit (j * 2) b AND mask 2) n"
    using assms by (auto simp: bit_simps bit_mask_iff simp del: mask_numeral)
qed

lemma page_order:
  assumes "TransactionIdToPage y = TransactionIdToPage x"
  shows "unat x \<le> unat y \<longleftrightarrow> TransactionIdToByte x < TransactionIdToByte y
     \<or> (TransactionIdToByte x = TransactionIdToByte y \<and> TransactionIdToBIndex x \<le> TransactionIdToBIndex y)"
proof -
  have "a * 4 + c \<le> b * 4 + d \<longleftrightarrow> a < b \<or> (a = b \<and> c \<le> d)" if "c < 4" "d < 4" for a b c d :: nat
    using that by linarith
  moreover have "unat x \<le> unat y \<longleftrightarrow>
      unat x mod 32768 div 4 * 4 + unat x mod 4 \<le> unat y mod 32768 div 4 * 4 + unat y mod 4"
    using assms address_split[of "unat x"] address_split[of "unat y"]
    by (simp add: TransactionIdToPage_def page_simps) (metis nat_add_left_cancel_le)
  ultimately show ?thesis
    by (simp add: TransactionIdToByte_def TransactionIdToPgIndex_def TransactionIdToBIndex_def page_simps)
qed

lemma TrimCLOG_status:
  "xid_status (TrimCLOG next ctl) y
     = (if TransactionIdToPage y = TransactionIdToPage next \<and> TransactionIdToPgIndex next \<noteq> 0
           \<and> unat next \<le> unat y
        then TRANSACTION_STATUS_IN_PROGRESS else xid_status ctl y)"
proof (cases "TransactionIdToPage y = TransactionIdToPage next \<and> TransactionIdToPgIndex next \<noteq> 0")
  case True
  then show ?thesis
    using trim_bits[of "TransactionIdToBIndex y" "TransactionIdToBIndex next"
        "page_buffer ctl (TransactionIdToPage next) (TransactionIdToByte next)"]
    by (simp add: page_order xid_status_eq TrimCLOG_def Let_def CLOG_BITS_PER_XACT_def TRANSACTION_STATUS_IN_PROGRESS_def
      del: mask_numeral)
qed (auto simp: xid_status_eq TrimCLOG_def Let_def)

lemma status_cases:
  assumes "st < 4"
  shows "st = TRANSACTION_STATUS_IN_PROGRESS \<or> st = TRANSACTION_STATUS_COMMITTED
      \<or> st = TRANSACTION_STATUS_ABORTED \<or> st = TRANSACTION_STATUS_SUB_COMMITTED"
proof -
  have "unat st < 4" using assms by (simp add: word_less_nat_alt)
  then have "unat st = unat (0 :: uint8) \<or> unat st = unat (1 :: uint8) \<or> unat st = unat (2 :: uint8)
      \<or> unat st = unat (3 :: uint8)"
    by (simp del: unat_eq_0) linarith
  then show ?thesis
    unfolding word_unat_eq_iff[symmetric] TRANSACTION_STATUS_IN_PROGRESS_def TRANSACTION_STATUS_COMMITTED_def
      TRANSACTION_STATUS_ABORTED_def TRANSACTION_STATUS_SUB_COMMITTED_def .
qed

lemma xid_status_less [simp]: "xid_status ctl x < 4"
proof -
  have "w AND mask 2 < 4" for w :: uint8
    by (simp only: word_less_nat_alt flip: take_bit_eq_mask) (simp only: unsigned_take_bit_eq, use take_bit_nat_less_exp[of 2 "unat w"] in simp)
  then show ?thesis by (simp add: xid_status_eq)
qed

definition empty_clog :: clog_ctl where
  "empty_clog = \<lparr>page_buffer = (\<lambda>_ _. 0), group_lsn = (\<lambda>_ _. 0), page_dirty = (\<lambda>_. False)\<rparr>"

lemma xid_status_empty_clog [simp]: "xid_status empty_clog x = TRANSACTION_STATUS_IN_PROGRESS"
  by (simp add: xid_status_eq empty_clog_def TRANSACTION_STATUS_IN_PROGRESS_def)

section \<open>Properties\<close>

text \<open>
  \<^verbatim>\<open>TransactionIdSetTreeStatus\<close> gives the top-level id and every listed subtransaction the new
  status, wherever their pages are, and leaves the status of every other id as it was.
\<close>

theorem SetTreeStatus_effect:
  assumes "TransactionIdIsValid xid" "final_status st"
  shows "fst (TransactionIdGetStatus (TransactionIdSetTreeStatus InRecovery xid subxids st lsn ctl) y)
       = (if y = xid \<or> y \<in> set subxids then st else fst (TransactionIdGetStatus ctl y))"
  using SetTreeStatus_status[OF assms] by (simp add: TransactionIdGetStatus_eq)

theorem SetTreeStatus_effect_witness:
  "fst (TransactionIdGetStatus
      (TransactionIdSetTreeStatus False 100 [101, 40000] TRANSACTION_STATUS_ABORTED 0 empty_clog) 40000)
     = TRANSACTION_STATUS_ABORTED
   \<and> fst (TransactionIdGetStatus
      (TransactionIdSetTreeStatus False 100 [101, 40000] TRANSACTION_STATUS_ABORTED 0 empty_clog) 102)
     = fst (TransactionIdGetStatus empty_clog 102)"
proof -
  have "TransactionIdIsValid 100" "final_status TRANSACTION_STATUS_ABORTED"
    by (simp_all add: TransactionIdIsValid_def InvalidTransactionId_def final_status_def)
  from SetTreeStatus_effect[OF this, of False "[101, 40000]" 0 empty_clog] show ?thesis by simp
qed

text \<open>
  \<^verbatim>\<open>TrimCLOG\<close> clears exactly the status of the ids from \<^verbatim>\<open>nextXid\<close> to the end of its page, and
  nothing if \<^verbatim>\<open>nextXid\<close> starts a page.
\<close>

theorem TrimCLOG_effect:
  "fst (TransactionIdGetStatus (TrimCLOG nextXid ctl) y)
     = (if TransactionIdToPage y = TransactionIdToPage nextXid \<and> TransactionIdToPgIndex nextXid \<noteq> 0
           \<and> unat nextXid \<le> unat y
        then TRANSACTION_STATUS_IN_PROGRESS else fst (TransactionIdGetStatus ctl y))"
  using TrimCLOG_status by (simp add: TransactionIdGetStatus_eq)

text \<open>
  \<^verbatim>\<open>ExtendCLOG\<close> for a newly assigned id zeroes the page of the id if the id is the first one of
  its page, the first normal id included, and changes nothing otherwise.
\<close>

theorem ExtendCLOG_effect:
  "fst (TransactionIdGetStatus (ExtendCLOG newestXact ctl) y)
     = (if TransactionIdToPage y = TransactionIdToPage newestXact
           \<and> (unat newestXact mod CLOG_XACTS_PER_PAGE = 0 \<or> newestXact = FirstNormalTransactionId)
        then TRANSACTION_STATUS_IN_PROGRESS else fst (TransactionIdGetStatus ctl y))"
  by (simp add: TransactionIdGetStatus_eq ExtendCLOG_def ZeroCLOGPage_status TransactionIdToPgIndex_def)

end
