(* ===== verification/Subtrans.thy ===== *)
theory Subtrans
  imports Xid
begin

text \<open>
  \<^verbatim>\<open>src/backend/access/transam/subtrans.c\<close>: the log that maps a subtransaction to its parent.  The
  store is the content of the SLRU pages; page replacement and locking are those of
  \<^verbatim>\<open>slru.c\<close> and are not part of it, so a page is addressed by its number.  The walk to the topmost
  ancestor is a partial function, and returning is a theorem.
\<close>

section \<open>The log\<close>

definition SUBTRANS_XACTS_PER_PAGE :: nat where
  "SUBTRANS_XACTS_PER_PAGE = BLCKSZ div 4"

definition SubTransToPage :: "TransactionId \<Rightarrow> nat" where
  "SubTransToPage xid = unat xid div SUBTRANS_XACTS_PER_PAGE"

definition SubTransToEntry :: "TransactionId \<Rightarrow> nat" where
  "SubTransToEntry xid = unat xid mod SUBTRANS_XACTS_PER_PAGE"

record subtrans_ctl =
  st_buffer :: "nat \<Rightarrow> nat \<Rightarrow> TransactionId"
  st_dirty :: "nat \<Rightarrow> bool"

definition SubTransSetParent :: "TransactionId \<Rightarrow> TransactionId \<Rightarrow> subtrans_ctl \<Rightarrow> subtrans_ctl" where
  "SubTransSetParent xid parent ctl =
     (let pageno = SubTransToPage xid;
          entryno = SubTransToEntry xid
      in if st_buffer ctl pageno entryno \<noteq> parent
         then ctl\<lparr>st_buffer := (st_buffer ctl)(pageno := (st_buffer ctl pageno)(entryno := parent)),
                  st_dirty := (st_dirty ctl)(pageno := True)\<rparr>
         else ctl)"

definition SubTransGetParent :: "subtrans_ctl \<Rightarrow> TransactionId \<Rightarrow> TransactionId" where
  "SubTransGetParent ctl xid =
     (let pageno = SubTransToPage xid;
          entryno = SubTransToEntry xid
      in if \<not> TransactionIdIsNormal xid then InvalidTransactionId
         else st_buffer ctl pageno entryno)"

text \<open>The loop of \<^verbatim>\<open>SubTransGetTopmostTransaction\<close> with its two variables.\<close>

partial_function (option) topmost_loop ::
    "TransactionId \<Rightarrow> subtrans_ctl \<Rightarrow> TransactionId \<Rightarrow> TransactionId \<Rightarrow> (pg_error + TransactionId) option" where
  "topmost_loop TransactionXmin ctl parentXid previousXid =
     (if TransactionIdIsValid parentXid
      then let previousXid = parentXid
           in if TransactionIdPrecedes parentXid TransactionXmin then Some (Inr previousXid)
              else let parentXid = SubTransGetParent ctl parentXid
                   in if \<not> TransactionIdPrecedes parentXid previousXid
                      then Some (Inl (ErrSubtransCorrupt previousXid parentXid))
                      else topmost_loop TransactionXmin ctl parentXid previousXid
      else Some (Inr previousXid))"

definition SubTransGetTopmostTransaction ::
    "TransactionId \<Rightarrow> subtrans_ctl \<Rightarrow> TransactionId \<Rightarrow> (pg_error + TransactionId) option" where
  "SubTransGetTopmostTransaction TransactionXmin ctl xid = topmost_loop TransactionXmin ctl xid xid"

definition ZeroSUBTRANSPage :: "nat \<Rightarrow> subtrans_ctl \<Rightarrow> subtrans_ctl" where
  "ZeroSUBTRANSPage pageno ctl =
     ctl\<lparr>st_buffer := (st_buffer ctl)(pageno := (\<lambda>_. 0)), st_dirty := (st_dirty ctl)(pageno := True)\<rparr>"

definition ExtendSUBTRANS :: "TransactionId \<Rightarrow> subtrans_ctl \<Rightarrow> subtrans_ctl" where
  "ExtendSUBTRANS newestXact ctl =
     (if SubTransToEntry newestXact \<noteq> 0 \<and> newestXact \<noteq> FirstNormalTransactionId then ctl
      else ZeroSUBTRANSPage (SubTransToPage newestXact) ctl)"

partial_function (option) startup_loop :: "nat \<Rightarrow> nat \<Rightarrow> subtrans_ctl \<Rightarrow> subtrans_ctl option" where
  "startup_loop startPage endPage ctl =
     (let ctl = ZeroSUBTRANSPage startPage ctl
      in if startPage = endPage then Some ctl
         else let startPage = startPage + 1;
                  startPage = (if startPage > SubTransToPage MaxTransactionId then 0 else startPage)
              in startup_loop startPage endPage ctl)"

definition StartupSUBTRANS :: "TransactionId \<Rightarrow> FullTransactionId \<Rightarrow> subtrans_ctl \<Rightarrow> subtrans_ctl option" where
  "StartupSUBTRANS oldestActiveXID nextXid ctl =
     startup_loop (SubTransToPage oldestActiveXID) (SubTransToPage (XidFromFullTransactionId nextXid)) ctl"

lemmas subtrans_address = SubTransToPage_def SubTransToEntry_def SUBTRANS_XACTS_PER_PAGE_def BLCKSZ_def

section \<open>Set and get\<close>

lemma subtrans_address_unique:
  "SubTransToPage x = SubTransToPage y \<Longrightarrow> SubTransToEntry x = SubTransToEntry y \<Longrightarrow> x = y"
  unfolding subtrans_address by (metis div_mult_mod_eq word_unat_eq_iff)

lemma GetParent_SetParent:
  "TransactionIdIsNormal x \<Longrightarrow>
     SubTransGetParent (SubTransSetParent x p ctl) y = (if y = x then p else SubTransGetParent ctl y)"
  using subtrans_address_unique[of y x]
  by (auto simp: SubTransGetParent_def SubTransSetParent_def Let_def)

lemma GetParent_special [simp]:
  "\<not> TransactionIdIsNormal x \<Longrightarrow> SubTransGetParent ctl x = InvalidTransactionId"
  by (simp add: SubTransGetParent_def)

lemma GetParent_ZeroPage:
  "SubTransGetParent (ZeroSUBTRANSPage p ctl) y
     = (if SubTransToPage y = p then InvalidTransactionId else SubTransGetParent ctl y)"
  by (simp add: SubTransGetParent_def ZeroSUBTRANSPage_def InvalidTransactionId_def)

text \<open>
  Every recorded parent precedes its child, for the ids that may still be asked about.
\<close>

definition subtrans_wf :: "TransactionId \<Rightarrow> subtrans_ctl \<Rightarrow> bool" where
  "subtrans_wf xmin ctl \<longleftrightarrow>
     (\<forall>x. TransactionIdIsNormal x \<longrightarrow> \<not> TransactionIdPrecedes x xmin \<longrightarrow>
          TransactionIdIsValid (SubTransGetParent ctl x) \<longrightarrow> TransactionIdPrecedes (SubTransGetParent ctl x) x)"

lemma subtrans_wf_SetParent:
  assumes "subtrans_wf xmin ctl" "TransactionIdIsNormal x" "TransactionIdPrecedes p x"
  shows "subtrans_wf xmin (SubTransSetParent x p ctl)"
  using assms by (auto simp: subtrans_wf_def GetParent_SetParent)

lemma subtrans_wf_Extend:
  assumes "subtrans_wf xmin ctl"
  shows "subtrans_wf xmin (ExtendSUBTRANS x ctl)"
  using assms by (auto simp: subtrans_wf_def ExtendSUBTRANS_def GetParent_ZeroPage TransactionIdIsValid_def)

section \<open>The walk to the top\<close>

text \<open>
  One step of the walk that does not leave it: the id may still be asked about and its parent is
  valid.
\<close>

definition ancestor_step :: "TransactionId \<Rightarrow> subtrans_ctl \<Rightarrow> TransactionId \<Rightarrow> TransactionId \<Rightarrow> bool" where
  "ancestor_step xmin ctl x p \<longleftrightarrow>
     \<not> TransactionIdPrecedes x xmin \<and> p = SubTransGetParent ctl x \<and> TransactionIdIsValid p"

definition topmost :: "TransactionId \<Rightarrow> subtrans_ctl \<Rightarrow> TransactionId \<Rightarrow> TransactionId \<Rightarrow> bool" where
  "topmost xmin ctl x t \<longleftrightarrow> (ancestor_step xmin ctl)\<^sup>*\<^sup>* x t \<and> (\<nexists>p. ancestor_step xmin ctl t p)"

text \<open>The position above \<^verbatim>\<open>TransactionXmin\<close> decreases along the walk.\<close>

lemma walk_decreases:
  assumes "TransactionIdIsNormal xmin" "\<not> TransactionIdPrecedes x xmin" "TransactionIdIsValid x"
    "TransactionIdPrecedes p x" "TransactionIdIsValid p" "\<not> TransactionIdPrecedes p xmin"
  shows "xid_pos xmin p < xid_pos xmin x"
  using assms not_Precedes_xmin[of xmin x] not_Precedes_xmin[of xmin p] by (simp add: Precedes_window)

lemma topmost_loop_returns:
  assumes "TransactionIdIsNormal xmin"
  shows "\<exists>r. topmost_loop xmin ctl x y = Some r"
proof (induction "xid_pos xmin x" arbitrary: x y rule: less_induct)
  case less
  let ?p = "SubTransGetParent ctl x"
  show ?case
  proof (cases "TransactionIdIsValid x \<and> \<not> TransactionIdPrecedes x xmin \<and> TransactionIdPrecedes ?p x")
    case True
    show ?thesis
    proof (cases "TransactionIdIsValid ?p \<and> \<not> TransactionIdPrecedes ?p xmin")
      case again: True
      with True less[of ?p] walk_decreases[OF assms] show ?thesis
        by (subst topmost_loop.simps) (simp add: Let_def)
    next
      case False
      then show ?thesis
        using True by (subst topmost_loop.simps, subst topmost_loop.simps) (auto simp: Let_def)
    qed
  qed (subst topmost_loop.simps, auto simp: Let_def)
qed

lemma parent_induct [consumes 3, case_names step]:
  assumes xmin: "TransactionIdIsNormal xmin" and wf: "subtrans_wf xmin ctl" and "TransactionIdIsValid x"
    and step: "\<And>x. \<lbrakk>TransactionIdIsValid x;
        \<lbrakk>\<not> TransactionIdPrecedes x xmin; TransactionIdIsValid (SubTransGetParent ctl x)\<rbrakk>
          \<Longrightarrow> P (SubTransGetParent ctl x)\<rbrakk> \<Longrightarrow> P x"
  shows "P x"
  using assms(3)
proof (induction "xid_pos xmin x" arbitrary: x rule: less_induct)
  case less
  let ?p = "SubTransGetParent ctl x"
  show ?case
  proof (rule step[OF less.prems])
    assume x: "\<not> TransactionIdPrecedes x xmin" and p: "TransactionIdIsValid ?p"
    have "TransactionIdIsNormal x" using not_Precedes_xmin[OF xmin less.prems x] by (rule window_normal)
    then have lt: "TransactionIdPrecedes ?p x" using wf x p by (simp add: subtrans_wf_def)
    show "P ?p"
    proof (cases "TransactionIdPrecedes ?p xmin")
      case True
      then show ?thesis by (intro step[OF p]) simp
    next
      case False
      show ?thesis by (rule less.hyps[OF walk_decreases[OF xmin x less.prems lt p False] p])
    qed
  qed
qed

lemma topmost_loop_topmost:
  assumes "TransactionIdIsNormal xmin" "subtrans_wf xmin ctl" "TransactionIdIsValid x"
  shows "\<exists>t. topmost_loop xmin ctl x y = Some (Inr t) \<and> topmost xmin ctl x t"
  using assms
proof (induction x arbitrary: y rule: parent_induct)
  case (step x)
  let ?p = "SubTransGetParent ctl x"
  consider (stop) "TransactionIdPrecedes x xmin"
    | (top) "\<not> TransactionIdPrecedes x xmin" "\<not> TransactionIdIsValid ?p"
    | (parent) "\<not> TransactionIdPrecedes x xmin" "TransactionIdIsValid ?p"
    by blast
  then show ?case
  proof cases
    case stop
    with step.hyps show ?thesis
      by (subst topmost_loop.simps) (simp add: Let_def topmost_def ancestor_step_def)
  next
    case top
    then have "TransactionIdIsNormal x" using not_Precedes_xmin[OF assms(1) step.hyps] window_normal by blast
    with top have "TransactionIdPrecedes ?p x"
      by (simp add: Precedes_special TransactionIdIsValid_def TransactionIdIsNormal_def xid_consts)
    with top step.hyps show ?thesis
      by (subst topmost_loop.simps, subst topmost_loop.simps)
        (simp add: Let_def topmost_def ancestor_step_def)
  next
    case parent
    then have "TransactionIdIsNormal x" using not_Precedes_xmin[OF assms(1) step.hyps] window_normal by blast
    with parent have "TransactionIdPrecedes ?p x" "ancestor_step xmin ctl x ?p"
      using assms(2) by (simp_all add: subtrans_wf_def ancestor_step_def)
    moreover obtain t where "topmost_loop xmin ctl ?p x = Some (Inr t)" "topmost xmin ctl ?p t"
      using step.IH parent by blast
    ultimately show ?thesis
      using parent step.hyps
      by (subst topmost_loop.simps) (auto simp: topmost_def intro: converse_rtranclp_into_rtranclp)
  qed
qed

section \<open>Startup\<close>

lemma SubTransToPage_Max: "SubTransToPage MaxTransactionId = 2097151"
  by (simp add: subtrans_address MaxTransactionId_def)

lemma startup_loop_zeroes:
  assumes "s < 2097152" "k < 2097152"
  shows "\<exists>c. startup_loop s ((s + k) mod 2097152) ctl = Some c
       \<and> (\<forall>y. SubTransGetParent c y
              = (if \<exists>i \<le> k. SubTransToPage y = (s + i) mod 2097152 then InvalidTransactionId
                 else SubTransGetParent ctl y))"
  using assms
proof (induction k arbitrary: s ctl)
  case 0
  then show ?case by (subst startup_loop.simps) (simp add: GetParent_ZeroPage)
next
  case (Suc k)
  let ?s = "if s + 1 > 2097151 then 0 else s + 1"
  have s: "(?s + i) mod 2097152 = (s + Suc i) mod 2097152" for i
  proof (cases "s = 2097151")
    case True
    then have "s + Suc i = i + 2097152" by simp
    with True show ?thesis by (simp only: mod_add_self2) simp
  qed (use Suc.prems(1) in simp)
  have ne: "(s + Suc k) mod 2097152 \<noteq> s"
  proof
    assume e: "(s + Suc k) mod 2097152 = s"
    have "s + Suc k < 2 * 2097152" using Suc.prems by simp
    then show False using e Suc.prems by (cases "s + Suc k < 2097152") (simp_all add: le_mod_geq)
  qed
  have ex: "(\<exists>i \<le> Suc k. P i) \<longleftrightarrow> P 0 \<or> (\<exists>i \<le> k. P (Suc i))" for P
    by (metis Suc_le_mono not0_implies_Suc zero_le)
  have lt: "?s < 2097152" "k < 2097152" using Suc.prems by simp_all
  obtain c where c: "startup_loop ?s ((?s + k) mod 2097152) (ZeroSUBTRANSPage s ctl) = Some c"
    "\<forall>y. SubTransGetParent c y = (if \<exists>i \<le> k. SubTransToPage y = (?s + i) mod 2097152 then InvalidTransactionId
         else SubTransGetParent (ZeroSUBTRANSPage s ctl) y)"
    using Suc.IH[OF lt(1,2), of "ZeroSUBTRANSPage s ctl"] by blast
  have "startup_loop s ((s + Suc k) mod 2097152) ctl = Some c"
    using c(1) ne unfolding s by (subst startup_loop.simps) (auto simp: SubTransToPage_Max Let_def)
  moreover have "SubTransGetParent c y = (if \<exists>i \<le> Suc k. SubTransToPage y = (s + i) mod 2097152
      then InvalidTransactionId else SubTransGetParent ctl y)" for y
    using c(2) Suc.prems(1) unfolding s by (subst ex) (auto simp: GetParent_ZeroPage)
  ultimately show ?case by blast
qed

text \<open>Ids at distance \<open>d\<close> above \<open>x\<close> lie on the page that many pages further, modulo the ring.\<close>

lemma page_at_distance:
  "SubTransToPage y = (SubTransToPage x + ((unat x + xid_pos x y) div 2048 - SubTransToPage x)) mod 2097152"
proof -
  have y: "unat y = (unat x + xid_pos x y) mod 4294967296"
    using unat_add_mod32[of x "y - x"] by (simp add: xid_pos_def)
  have "unat y div 2048 = (unat x + xid_pos x y) div 2048 mod 2097152"
    unfolding y using mod_mult2_eq[of "unat x + xid_pos x y" 2048 2097152] by simp
  moreover have "unat x div 2048 \<le> (unat x + xid_pos x y) div 2048" by (simp add: div_le_mono)
  ultimately show ?thesis by (simp add: subtrans_address)
qed

lemma StartupSUBTRANS_zeroes:
  assumes "xid_pos oldest (XidFromFullTransactionId next) < 2147483648"
  shows "\<exists>c. StartupSUBTRANS oldest next ctl = Some c
       \<and> (\<forall>y. xid_pos oldest y \<le> xid_pos oldest (XidFromFullTransactionId next)
              \<longrightarrow> SubTransGetParent c y = InvalidTransactionId)"
proof -
  let ?n = "XidFromFullTransactionId next"
  define dist where "dist y = (unat oldest + xid_pos oldest y) div 2048 - SubTransToPage oldest" for y
  have s: "SubTransToPage oldest < 2097152"
    using unat32_less[of oldest] by (simp add: subtrans_address less_mult_imp_div_less)
  have "(unat oldest + xid_pos oldest ?n) div 2048 \<le> (unat oldest + 2147483648) div 2048"
    using assms by (intro div_le_mono) simp
  also have "\<dots> = unat oldest div 2048 + 1048576" by simp
  finally have k: "dist ?n < 2097152" by (simp add: dist_def subtrans_address)
  obtain c where c: "startup_loop (SubTransToPage oldest) ((SubTransToPage oldest + dist ?n) mod 2097152) ctl = Some c"
    "\<forall>y. SubTransGetParent c y = (if \<exists>i \<le> dist ?n. SubTransToPage y = (SubTransToPage oldest + i) mod 2097152
        then InvalidTransactionId else SubTransGetParent ctl y)"
    using startup_loop_zeroes[OF s k] by blast
  have page: "SubTransToPage y = (SubTransToPage oldest + dist y) mod 2097152" for y
    unfolding dist_def by (rule page_at_distance)
  have "dist y \<le> dist ?n" if "xid_pos oldest y \<le> xid_pos oldest ?n" for y
    using that unfolding dist_def by (intro diff_le_mono div_le_mono) simp
  then have "xid_pos oldest y \<le> xid_pos oldest ?n \<longrightarrow> SubTransGetParent c y = InvalidTransactionId" for y
    using c(2) page by metis
  moreover have "StartupSUBTRANS oldest next ctl = Some c"
    using c(1) page[of ?n] by (simp add: StartupSUBTRANS_def)
  ultimately show ?thesis by blast
qed

section \<open>The interface of the log\<close>

text \<open>
  What the users of the log rely on: a parent that was set is read back and no other entry
  changes.  A sequence of settings then behaves like a map, the last setting of an id winning.
\<close>

locale parent_log =
  fixes getp :: "'s \<Rightarrow> TransactionId \<Rightarrow> TransactionId"
    and setp :: "TransactionId \<Rightarrow> TransactionId \<Rightarrow> 's \<Rightarrow> 's"
  assumes get_set: "TransactionIdIsNormal x \<Longrightarrow> getp (setp x p s) y = (if y = x then p else getp s y)"
begin

lemma get_fold_other:
  assumes "\<forall>x \<in> fst ` set ps. TransactionIdIsNormal x" "y \<notin> fst ` set ps"
  shows "getp (fold (\<lambda>(x, p). setp x p) ps s) y = getp s y"
  using assms by (induction ps arbitrary: s) (auto simp: get_set)

lemma get_fold:
  assumes "\<forall>x \<in> fst ` set ps. TransactionIdIsNormal x" "distinct (map fst ps)" "(x, p) \<in> set ps"
  shows "getp (fold (\<lambda>(x, p). setp x p) ps s) x = p"
  using assms
proof (induction ps arbitrary: s)
  case (Cons a ps)
  show ?case
  proof (cases "(x, p) = a")
    case True
    then have a: "a = (x, p)" by simp
    have "x \<notin> fst ` set ps" "TransactionIdIsNormal x" using Cons.prems unfolding a by simp_all
    then show ?thesis using Cons.prems(1) unfolding a by (simp add: get_set get_fold_other)
  next
    case False
    with Cons show ?thesis by auto
  qed
qed simp

end

interpretation subtrans: parent_log SubTransGetParent SubTransSetParent
  by unfold_locales (rule GetParent_SetParent)

definition empty_subtrans :: subtrans_ctl where
  "empty_subtrans = \<lparr>st_buffer = (\<lambda>_ _. 0), st_dirty = (\<lambda>_. False)\<rparr>"

lemma GetParent_empty_subtrans [simp]: "SubTransGetParent empty_subtrans x = InvalidTransactionId"
  by (simp add: SubTransGetParent_def empty_subtrans_def InvalidTransactionId_def)

lemma empty_subtrans_wf [simp]: "subtrans_wf xmin empty_subtrans"
  by (simp add: subtrans_wf_def TransactionIdIsValid_def)

section \<open>Properties\<close>

text \<open>
  C25.  \<^verbatim>\<open>SubTransGetTopmostTransaction\<close> returns for every content of \<^verbatim>\<open>pg_subtrans\<close>, raising the
  corruption error at the latest where an entry does not precede its child.  If every entry
  precedes its child, the result is the last id reached by following parents: one that has no
  parent or is older than \<^verbatim>\<open>TransactionXmin\<close>.
\<close>

theorem GetTopmost_correct:
  assumes "TransactionIdIsNormal xmin" "TransactionIdIsValid x"
  shows "(\<exists>r. SubTransGetTopmostTransaction xmin ctl x = Some r)
       \<and> (subtrans_wf xmin ctl \<longrightarrow>
            (\<exists>t. SubTransGetTopmostTransaction xmin ctl x = Some (Inr t)
                 \<and> (ancestor_step xmin ctl)\<^sup>*\<^sup>* x t
                 \<and> (TransactionIdPrecedes t xmin \<or> \<not> TransactionIdIsValid (SubTransGetParent ctl t))))"
proof -
  have "TransactionIdPrecedes t xmin \<or> \<not> TransactionIdIsValid (SubTransGetParent ctl t)"
    if "topmost xmin ctl x t" for t
    using that by (auto simp: topmost_def ancestor_step_def)
  then show ?thesis
    using topmost_loop_returns[OF assms(1)] topmost_loop_topmost[OF assms(1) _ assms(2)]
    unfolding SubTransGetTopmostTransaction_def by (meson topmost_def)
qed

theorem GetTopmost_correct_witness:
  "(\<exists>r. SubTransGetTopmostTransaction 3 (SubTransSetParent 101 100 empty_subtrans) 101 = Some r)
   \<and> (\<exists>t. SubTransGetTopmostTransaction 3 (SubTransSetParent 101 100 empty_subtrans) 101 = Some (Inr t)
       \<and> (ancestor_step 3 (SubTransSetParent 101 100 empty_subtrans))\<^sup>*\<^sup>* 101 t
       \<and> (TransactionIdPrecedes t 3
          \<or> \<not> TransactionIdIsValid (SubTransGetParent (SubTransSetParent 101 100 empty_subtrans) t)))"
proof -
  have n: "TransactionIdIsNormal 3" "TransactionIdIsValid 101" "TransactionIdIsNormal 101"
      "TransactionIdPrecedes 100 101"
    by code_simp+
  have "subtrans_wf 3 (SubTransSetParent 101 100 empty_subtrans)"
    by (rule subtrans_wf_SetParent[OF empty_subtrans_wf n(3,4)])
  with GetTopmost_correct[OF n(1,2)] show ?thesis by blast
qed

text \<open>
  C26.  \<^verbatim>\<open>StartupSUBTRANS\<close> ends and leaves no parent recorded for any id from the oldest active id up
  to \<^verbatim>\<open>nextXid\<close>, across the wraparound of the page numbers.
\<close>

theorem StartupSUBTRANS_clears:
  assumes "xid_pos oldestActiveXID (XidFromFullTransactionId nextXid) < 2147483648"
  shows "\<exists>c. StartupSUBTRANS oldestActiveXID nextXid ctl = Some c
       \<and> (\<forall>y. xid_pos oldestActiveXID y \<le> xid_pos oldestActiveXID (XidFromFullTransactionId nextXid)
              \<longrightarrow> SubTransGetParent c y = InvalidTransactionId)"
  using assms by (rule StartupSUBTRANS_zeroes)

theorem StartupSUBTRANS_clears_witness:
  "xid_pos 4294967295 (XidFromFullTransactionId \<lparr>fxid_value = 4294967301\<rparr>) = 6
   \<and> (\<exists>c. StartupSUBTRANS 4294967295 \<lparr>fxid_value = 4294967301\<rparr> (SubTransSetParent 4 3 empty_subtrans) = Some c
       \<and> (\<forall>y. xid_pos 4294967295 y \<le> 6 \<longrightarrow> SubTransGetParent c y = InvalidTransactionId))"
proof -
  have p: "xid_pos 4294967295 (XidFromFullTransactionId \<lparr>fxid_value = 4294967301\<rparr>) = 6" by code_simp
  with StartupSUBTRANS_clears[of 4294967295 "\<lparr>fxid_value = 4294967301\<rparr>"] show ?thesis by auto
qed

end
