(* ===== verification/Transam.thy ===== *)
theory Transam
  imports Clog Subtrans
begin

text \<open>
  \<^verbatim>\<open>src/backend/access/transam/transam.c\<close>: the transaction log interface.  \<^verbatim>\<open>TransactionLogFetch\<close>
  keeps a one-entry cache in backend-local variables, threaded here as a record; the recursive
  tests of the commit status walk \<^verbatim>\<open>pg_subtrans\<close> and are partial functions that return \<open>None\<close> only
  if the walk does not end.
\<close>

section \<open>Fetching a status\<close>

record fetch_cache =
  cachedFetchXid :: TransactionId
  cachedFetchXidStatus :: XidStatus
  cachedCommitLSN :: XLogRecPtr

definition TransactionLogFetch :: "clog_ctl \<Rightarrow> TransactionId \<Rightarrow> fetch_cache \<Rightarrow> XidStatus \<times> fetch_cache" where
  "TransactionLogFetch clog transactionId cache =
     (if transactionId = cachedFetchXid cache then (cachedFetchXidStatus cache, cache)
      else if \<not> TransactionIdIsNormal transactionId
      then (if transactionId = BootstrapTransactionId then (TRANSACTION_STATUS_COMMITTED, cache)
            else if transactionId = FrozenTransactionId then (TRANSACTION_STATUS_COMMITTED, cache)
            else (TRANSACTION_STATUS_ABORTED, cache))
      else let (xidstatus, xidlsn) = TransactionIdGetStatus clog transactionId
           in if xidstatus \<noteq> TRANSACTION_STATUS_IN_PROGRESS
                 \<and> xidstatus \<noteq> TRANSACTION_STATUS_SUB_COMMITTED
              then (xidstatus, cache\<lparr>cachedFetchXid := transactionId,
                                     cachedFetchXidStatus := xidstatus,
                                     cachedCommitLSN := xidlsn\<rparr>)
              else (xidstatus, cache))"

text \<open>The \<^verbatim>\<open>elog(WARNING)\<close> for a missing parent has no effect on the result.\<close>

partial_function (option) TransactionIdDidCommit ::
    "TransactionId \<Rightarrow> clog_ctl \<Rightarrow> subtrans_ctl \<Rightarrow> TransactionId \<Rightarrow> fetch_cache \<Rightarrow> (bool \<times> fetch_cache) option" where
  "TransactionIdDidCommit TransactionXmin clog subtrans transactionId cache =
     (let fetched = TransactionLogFetch clog transactionId cache;
          xidstatus = fst fetched;
          cache = snd fetched
      in if xidstatus = TRANSACTION_STATUS_COMMITTED then Some (True, cache)
         else if xidstatus = TRANSACTION_STATUS_SUB_COMMITTED
         then if TransactionIdPrecedes transactionId TransactionXmin then Some (False, cache)
              else let parentXid = SubTransGetParent subtrans transactionId
                   in if \<not> TransactionIdIsValid parentXid then Some (False, cache)
                      else TransactionIdDidCommit TransactionXmin clog subtrans parentXid cache
         else Some (False, cache))"

partial_function (option) TransactionIdDidAbort ::
    "TransactionId \<Rightarrow> clog_ctl \<Rightarrow> subtrans_ctl \<Rightarrow> TransactionId \<Rightarrow> fetch_cache \<Rightarrow> (bool \<times> fetch_cache) option" where
  "TransactionIdDidAbort TransactionXmin clog subtrans transactionId cache =
     (let fetched = TransactionLogFetch clog transactionId cache;
          xidstatus = fst fetched;
          cache = snd fetched
      in if xidstatus = TRANSACTION_STATUS_ABORTED then Some (True, cache)
         else if xidstatus = TRANSACTION_STATUS_SUB_COMMITTED
         then if TransactionIdPrecedes transactionId TransactionXmin then Some (True, cache)
              else let parentXid = SubTransGetParent subtrans transactionId
                   in if \<not> TransactionIdIsValid parentXid then Some (True, cache)
                      else TransactionIdDidAbort TransactionXmin clog subtrans parentXid cache
         else Some (False, cache))"

definition TransactionIdCommitTree :: "bool \<Rightarrow> TransactionId \<Rightarrow> TransactionId list \<Rightarrow> clog_ctl \<Rightarrow> clog_ctl" where
  "TransactionIdCommitTree InRecovery xid xids =
     TransactionIdSetTreeStatus InRecovery xid xids TRANSACTION_STATUS_COMMITTED InvalidXLogRecPtr"

definition TransactionIdAsyncCommitTree ::
    "bool \<Rightarrow> TransactionId \<Rightarrow> TransactionId list \<Rightarrow> XLogRecPtr \<Rightarrow> clog_ctl \<Rightarrow> clog_ctl" where
  "TransactionIdAsyncCommitTree InRecovery xid xids lsn =
     TransactionIdSetTreeStatus InRecovery xid xids TRANSACTION_STATUS_COMMITTED lsn"

definition TransactionIdAbortTree :: "bool \<Rightarrow> TransactionId \<Rightarrow> TransactionId list \<Rightarrow> clog_ctl \<Rightarrow> clog_ctl" where
  "TransactionIdAbortTree InRecovery xid xids =
     TransactionIdSetTreeStatus InRecovery xid xids TRANSACTION_STATUS_ABORTED InvalidXLogRecPtr"

definition TransactionIdGetCommitLSN :: "clog_ctl \<Rightarrow> TransactionId \<Rightarrow> fetch_cache \<Rightarrow> XLogRecPtr" where
  "TransactionIdGetCommitLSN clog xid cache =
     (if xid = cachedFetchXid cache then cachedCommitLSN cache
      else if \<not> TransactionIdIsNormal xid then InvalidXLogRecPtr
      else snd (TransactionIdGetStatus clog xid))"

section \<open>The cache is transparent\<close>

text \<open>The status a fetch reports when the cache is left aside.\<close>

definition log_status :: "clog_ctl \<Rightarrow> TransactionId \<Rightarrow> XidStatus" where
  "log_status clog xid =
     (if TransactionIdIsNormal xid then xid_status clog xid
      else if xid = BootstrapTransactionId \<or> xid = FrozenTransactionId then TRANSACTION_STATUS_COMMITTED
      else TRANSACTION_STATUS_ABORTED)"

definition cache_ok :: "clog_ctl \<Rightarrow> fetch_cache \<Rightarrow> bool" where
  "cache_ok clog cache \<longleftrightarrow> cachedFetchXid cache = InvalidTransactionId
     \<or> (TransactionIdIsNormal (cachedFetchXid cache)
        \<and> cachedFetchXidStatus cache = xid_status clog (cachedFetchXid cache)
        \<and> cachedFetchXidStatus cache \<noteq> TRANSACTION_STATUS_IN_PROGRESS
        \<and> cachedFetchXidStatus cache \<noteq> TRANSACTION_STATUS_SUB_COMMITTED)"

definition empty_cache :: fetch_cache where
  "empty_cache = \<lparr>cachedFetchXid = InvalidTransactionId, cachedFetchXidStatus = 0, cachedCommitLSN = 0\<rparr>"

lemma empty_cache_ok [simp]: "cache_ok clog empty_cache"
  by (simp add: cache_ok_def empty_cache_def)

lemma LogFetch_status:
  assumes "cache_ok clog cache" "TransactionIdIsValid x"
  shows "fst (TransactionLogFetch clog x cache) = log_status clog x"
    and "cache_ok clog (snd (TransactionLogFetch clog x cache))"
  using assms valid_of_normal[of x]
  by (auto simp: TransactionLogFetch_def log_status_def cache_ok_def TransactionIdGetStatus_eq
      TransactionIdIsValid_def)

text \<open>
  A finished status is never rewritten, so a filled cache survives the status changes of others.
\<close>

lemma cache_ok_SetTree:
  assumes "cache_ok clog cache" "TransactionIdIsValid xid" "final_status st"
    and "\<forall>x \<in> insert xid (set subxids). xid_status clog x = TRANSACTION_STATUS_IN_PROGRESS
           \<or> xid_status clog x = TRANSACTION_STATUS_SUB_COMMITTED"
  shows "cache_ok (TransactionIdSetTreeStatus r xid subxids st lsn clog) cache"
  using assms unfolding cache_ok_def by (auto simp: SetTreeStatus_status simp del: insert_iff)

section \<open>Commit status of a transaction tree\<close>

inductive committed :: "(TransactionId \<Rightarrow> XidStatus) \<Rightarrow> (TransactionId \<Rightarrow> TransactionId) \<Rightarrow> TransactionId \<Rightarrow> TransactionId \<Rightarrow> bool"
  for status parent xmin where
  marked: "status x = TRANSACTION_STATUS_COMMITTED \<Longrightarrow> committed status parent xmin x"
| through_parent: "\<lbrakk>status x = TRANSACTION_STATUS_SUB_COMMITTED; \<not> TransactionIdPrecedes x xmin;
     TransactionIdIsValid (parent x); committed status parent xmin (parent x)\<rbrakk> \<Longrightarrow> committed status parent xmin x"

inductive rolled_back :: "(TransactionId \<Rightarrow> XidStatus) \<Rightarrow> (TransactionId \<Rightarrow> TransactionId) \<Rightarrow> TransactionId \<Rightarrow> TransactionId \<Rightarrow> bool"
  for status parent xmin where
  marked: "status x = TRANSACTION_STATUS_ABORTED \<Longrightarrow> rolled_back status parent xmin x"
| orphan: "\<lbrakk>status x = TRANSACTION_STATUS_SUB_COMMITTED;
     TransactionIdPrecedes x xmin \<or> \<not> TransactionIdIsValid (parent x)\<rbrakk> \<Longrightarrow> rolled_back status parent xmin x"
| through_parent: "\<lbrakk>status x = TRANSACTION_STATUS_SUB_COMMITTED; \<not> TransactionIdPrecedes x xmin;
     TransactionIdIsValid (parent x); rolled_back status parent xmin (parent x)\<rbrakk> \<Longrightarrow> rolled_back status parent xmin x"

inductive_simps committed_unfold: "committed status parent xmin x"
inductive_simps rolled_back_unfold: "rolled_back status parent xmin x"

lemma committed_not_rolled_back:
  assumes "committed status parent xmin x"
  shows "\<not> rolled_back status parent xmin x"
  using assms
proof induction
  case (marked x)
  then show ?case by (subst rolled_back_unfold) simp
next
  case (through_parent x)
  then show ?case by (subst rolled_back_unfold) simp
qed

lemma DidCommit_committed:
  assumes "TransactionIdIsNormal xmin" "subtrans_wf xmin subtrans" "TransactionIdIsValid x"
    and "cache_ok clog cache"
  shows "\<exists>cache'. TransactionIdDidCommit xmin clog subtrans x cache
           = Some (committed (log_status clog) (SubTransGetParent subtrans) xmin x, cache')
       \<and> cache_ok clog cache'"
  using assms
proof (induction x arbitrary: cache rule: parent_induct)
  case (step x)
  note fetch = LogFetch_status[OF step.prems step.hyps]
  show ?case
  proof (cases "log_status clog x = TRANSACTION_STATUS_SUB_COMMITTED \<and> \<not> TransactionIdPrecedes x xmin
      \<and> TransactionIdIsValid (SubTransGetParent subtrans x)")
    case True
    then obtain cache' where c: "TransactionIdDidCommit xmin clog subtrans (SubTransGetParent subtrans x)
          (snd (TransactionLogFetch clog x cache))
        = Some (committed (log_status clog) (SubTransGetParent subtrans) xmin (SubTransGetParent subtrans x), cache')"
        "cache_ok clog cache'"
      using step.IH[OF _ _ fetch(2)] by blast
    from True c show ?thesis
      by (subst TransactionIdDidCommit.simps, subst committed_unfold) (simp add: Let_def fetch)
  next
    case False
    then show ?thesis
      using fetch by (subst TransactionIdDidCommit.simps, subst committed_unfold) (auto simp: Let_def)
  qed
qed

lemma DidAbort_rolled_back:
  assumes "TransactionIdIsNormal xmin" "subtrans_wf xmin subtrans" "TransactionIdIsValid x"
    and "cache_ok clog cache"
  shows "\<exists>cache'. TransactionIdDidAbort xmin clog subtrans x cache
           = Some (rolled_back (log_status clog) (SubTransGetParent subtrans) xmin x, cache')
       \<and> cache_ok clog cache'"
  using assms
proof (induction x arbitrary: cache rule: parent_induct)
  case (step x)
  note fetch = LogFetch_status[OF step.prems step.hyps]
  show ?case
  proof (cases "log_status clog x = TRANSACTION_STATUS_SUB_COMMITTED \<and> \<not> TransactionIdPrecedes x xmin
      \<and> TransactionIdIsValid (SubTransGetParent subtrans x)")
    case True
    then obtain cache' where c: "TransactionIdDidAbort xmin clog subtrans (SubTransGetParent subtrans x)
          (snd (TransactionLogFetch clog x cache))
        = Some (rolled_back (log_status clog) (SubTransGetParent subtrans) xmin (SubTransGetParent subtrans x), cache')"
        "cache_ok clog cache'"
      using step.IH[OF _ _ fetch(2)] by blast
    from True c show ?thesis
      by (subst TransactionIdDidAbort.simps, subst rolled_back_unfold) (simp add: Let_def fetch)
  next
    case False
    then show ?thesis
      using fetch by (subst TransactionIdDidAbort.simps, subst rolled_back_unfold) (auto simp: Let_def)
  qed
qed

section \<open>Clients of the status log\<close>

text \<open>
  What the transaction manager relies on: setting the status of a tree changes exactly the ids of
  the tree.  Commit is then durable, a tree that commits is committed as a whole, and a tree that
  aborts is not.
\<close>

locale status_log =
  fixes status :: "'s \<Rightarrow> TransactionId \<Rightarrow> XidStatus"
    and set_tree :: "TransactionId \<Rightarrow> TransactionId list \<Rightarrow> XidStatus \<Rightarrow> XLogRecPtr \<Rightarrow> 's \<Rightarrow> 's"
  assumes set_tree_status:
    "\<lbrakk>\<forall>x \<in> insert xid (set subs). TransactionIdIsNormal x; final_status st\<rbrakk> \<Longrightarrow>
       status (set_tree xid subs st lsn s) y = (if y \<in> insert xid (set subs) then st else status s y)"
begin

lemma commit_stable:
  assumes "\<forall>x \<in> insert xid (set subs). TransactionIdIsNormal x" "final_status st"
    and fresh: "\<forall>x \<in> insert xid (set subs). \<not> committed (status s) parent xmin x"
    and "committed (status s) parent xmin y"
  shows "committed (status (set_tree xid subs st lsn s)) parent xmin y"
  using assms(4)
proof induction
  case (marked x)
  then have "committed (status s) parent xmin x" by (blast intro: committed.marked)
  then have out: "x \<notin> insert xid (set subs)" using fresh by blast
  from marked out show ?case by (intro committed.marked) (simp add: set_tree_status[OF assms(1,2)] del: insert_iff)
next
  case (through_parent x)
  then have "committed (status s) parent xmin x" by (subst committed_unfold) simp
  then have out: "x \<notin> insert xid (set subs)" using fresh by blast
  then have "status (set_tree xid subs st lsn s) x = status s x"
    by (simp add: set_tree_status[OF assms(1,2)] del: insert_iff)
  with through_parent show ?case by (subst committed_unfold) simp
qed

lemma rollback_stable:
  assumes "\<forall>x \<in> insert xid (set subs). TransactionIdIsNormal x" "final_status st"
    and fresh: "\<forall>x \<in> insert xid (set subs). \<not> rolled_back (status s) parent xmin x"
    and "rolled_back (status s) parent xmin y"
  shows "rolled_back (status (set_tree xid subs st lsn s)) parent xmin y"
  using assms(4)
proof induction
  case (marked x)
  then have "rolled_back (status s) parent xmin x" by (blast intro: rolled_back.marked)
  then have out: "x \<notin> insert xid (set subs)" using fresh by blast
  from marked out show ?case by (intro rolled_back.marked) (simp add: set_tree_status[OF assms(1,2)] del: insert_iff)
next
  case (orphan x)
  then have "rolled_back (status s) parent xmin x" by (blast intro: rolled_back.orphan)
  then have out: "x \<notin> insert xid (set subs)" using fresh by blast
  from orphan out show ?case by (intro rolled_back.orphan) (simp_all add: set_tree_status[OF assms(1,2)] del: insert_iff)
next
  case (through_parent x)
  then have "rolled_back (status s) parent xmin x" by (subst rolled_back_unfold) simp
  then have out: "x \<notin> insert xid (set subs)" using fresh by blast
  then have "status (set_tree xid subs st lsn s) x = status s x"
    by (simp add: set_tree_status[OF assms(1,2)] del: insert_iff)
  with through_parent show ?case by (subst rolled_back_unfold) simp
qed

lemma tree_decided:
  assumes "\<forall>x \<in> insert xid (set subs). TransactionIdIsNormal x" "y \<in> insert xid (set subs)"
  shows "committed (status (set_tree xid subs TRANSACTION_STATUS_COMMITTED lsn s)) parent xmin y"
    and "rolled_back (status (set_tree xid subs TRANSACTION_STATUS_ABORTED lsn s)) parent xmin y"
proof -
  have "status (set_tree xid subs st lsn s) y = st" if "final_status st" for st
    using set_tree_status[OF assms(1) that] assms(2) by simp
  then show "committed (status (set_tree xid subs TRANSACTION_STATUS_COMMITTED lsn s)) parent xmin y"
    and "rolled_back (status (set_tree xid subs TRANSACTION_STATUS_ABORTED lsn s)) parent xmin y"
    by (simp_all add: committed.marked rolled_back.marked final_status_def)
qed

end

interpretation clog: status_log log_status "TransactionIdSetTreeStatus r" for r
proof
  fix xid subs st lsn s y
  assume n: "\<forall>x \<in> insert xid (set subs). TransactionIdIsNormal x" and f: "final_status st"
  have "TransactionIdIsValid xid" using n valid_of_normal by simp
  then show "log_status (TransactionIdSetTreeStatus r xid subs st lsn s) y
      = (if y \<in> insert xid (set subs) then st else log_status s y)"
    using n f by (simp add: log_status_def SetTreeStatus_status del: insert_iff) auto
qed

section \<open>Commit is atomic\<close>

text \<open>
  A concurrent reader sees the status pages after some number of the page updates of the commit.
  The tree condition is that of \<^verbatim>\<open>xact.c\<close>: every subtransaction of the commit has its parent in
  the same commit, and none of them is older than the horizon of \<^verbatim>\<open>pg_subtrans\<close>.
\<close>

definition commit_tree_wf :: "TransactionId \<Rightarrow> subtrans_ctl \<Rightarrow> TransactionId \<Rightarrow> TransactionId list \<Rightarrow> bool" where
  "commit_tree_wf xmin subtrans xid subxids \<longleftrightarrow>
     TransactionIdIsNormal xid \<and> xid \<notin> set subxids
     \<and> (\<forall>s \<in> set subxids. TransactionIdIsNormal s \<and> \<not> TransactionIdPrecedes s xmin
          \<and> SubTransGetParent subtrans s \<in> insert xid (set subxids))"

lemma no_commit_before:
  assumes "committed status parent xmin y" "y \<in> insert xid (set subxids)"
    and "status xid = TRANSACTION_STATUS_IN_PROGRESS"
    and "\<forall>s \<in> set subxids. parent s \<in> insert xid (set subxids)
          \<and> (status s = TRANSACTION_STATUS_IN_PROGRESS \<or> status s = TRANSACTION_STATUS_SUB_COMMITTED)"
  shows False
  using assms
proof induction
  case (marked x)
  then show ?case by auto
next
  case (through_parent x)
  then have "x \<in> set subxids" by auto
  then show ?case using through_parent by blast
qed

lemma all_committed_after:
  assumes "TransactionIdIsNormal xmin" "subtrans_wf xmin subtrans" "TransactionIdIsValid y"
    and "commit_tree_wf xmin subtrans xid subxids" "y \<in> insert xid (set subxids)"
    and "status xid = TRANSACTION_STATUS_COMMITTED"
    and "\<forall>s \<in> set subxids. status s = TRANSACTION_STATUS_COMMITTED \<or> status s = TRANSACTION_STATUS_SUB_COMMITTED"
  shows "committed status (SubTransGetParent subtrans) xmin y"
  using assms
proof (induction y rule: parent_induct)
  case (step x)
  let ?p = "SubTransGetParent subtrans x"
  show ?case
  proof (cases "status x = TRANSACTION_STATUS_COMMITTED")
    case True
    then show ?thesis by (rule committed.marked)
  next
    case False
    then have x: "x \<in> set subxids" "status x = TRANSACTION_STATUS_SUB_COMMITTED"
      using step.prems by auto
    then have p: "?p \<in> insert xid (set subxids)" "\<not> TransactionIdPrecedes x xmin"
      using step.prems(1) unfolding commit_tree_wf_def by auto
    then have v: "TransactionIdIsValid ?p"
      using step.prems(1) valid_of_normal unfolding commit_tree_wf_def by auto
    show ?thesis
      by (rule committed.through_parent[OF x(2) p(2) v step.IH[OF p(2) v step.prems(1) p(1) step.prems(3,4)]])
  qed
qed

lemma commit_prefix_decided:
  assumes xmin: "TransactionIdIsNormal xmin" "subtrans_wf xmin subtrans"
    and tree: "commit_tree_wf xmin subtrans xid subxids"
    and running: "\<forall>x \<in> insert xid (set subxids). xid_status ctl x = TRANSACTION_STATUS_IN_PROGRESS"
    and c: "c = fold (run_page_update False)
                  (take n (set_tree_status_calls xid subxids TRANSACTION_STATUS_COMMITTED lsn)) ctl"
  shows "(\<forall>y \<in> insert xid (set subxids). \<not> committed (log_status c) (SubTransGetParent subtrans) xmin y)
       \<or> (\<forall>y \<in> insert xid (set subxids). committed (log_status c) (SubTransGetParent subtrans) xmin y)"
proof -
  have tr: "TransactionIdIsValid xid" "xid \<notin> set subxids"
    using tree valid_of_normal by (auto simp: commit_tree_wf_def)
  have ls: "log_status c y = xid_status c y" if "y \<in> insert xid (set subxids)" for y
    using that tree by (auto simp: log_status_def commit_tree_wf_def)
  have par: "\<forall>s \<in> set subxids. SubTransGetParent subtrans s \<in> insert xid (set subxids)"
    using tree by (simp add: commit_tree_wf_def)
  from tree_commit_prefix[OF tr c] show ?thesis
  proof (elim conjE disjE)
    assume x: "xid_status c xid = xid_status ctl xid"
      and s: "\<forall>y \<in> set subxids. xid_status c y = xid_status ctl y
                \<or> xid_status c y = TRANSACTION_STATUS_SUB_COMMITTED"
    have "\<not> committed (log_status c) (SubTransGetParent subtrans) xmin y" if "y \<in> insert xid (set subxids)" for y
      using no_commit_before[OF _ that, of "log_status c" "SubTransGetParent subtrans" xmin] x s running par ls
      by (metis insertCI)
    then show ?thesis by blast
  next
    assume x: "xid_status c xid = TRANSACTION_STATUS_COMMITTED"
      and s: "\<forall>y \<in> set subxids. xid_status c y = TRANSACTION_STATUS_COMMITTED
                \<or> xid_status c y = TRANSACTION_STATUS_SUB_COMMITTED"
    have "committed (log_status c) (SubTransGetParent subtrans) xmin y" if "y \<in> insert xid (set subxids)" for y
    proof (rule all_committed_after[OF xmin _ tree that])
      show "TransactionIdIsValid y" using that tree valid_of_normal by (auto simp: commit_tree_wf_def)
    qed (use x s ls in auto)
    then show ?thesis by blast
  qed
qed

section \<open>Properties\<close>

text \<open>
  C7.  Commit of a transaction tree is atomic for concurrent readers although its status bits are
  spread over several pages: after any number \<open>n\<close> of the page updates of
  \<^verbatim>\<open>TransactionIdSetTreeStatus\<close>, \<^verbatim>\<open>TransactionIdDidCommit\<close> returns, with the same answer for the
  top-level transaction and for every one of its subtransactions.
\<close>

theorem commit_atomic:
  assumes "TransactionIdIsNormal xmin" "subtrans_wf xmin subtrans"
    and "commit_tree_wf xmin subtrans xid subxids"
    and "\<forall>x \<in> insert xid (set subxids). xid_status ctl x = TRANSACTION_STATUS_IN_PROGRESS"
  shows "\<exists>b. \<forall>y \<in> insert xid (set subxids). \<exists>cache.
           TransactionIdDidCommit xmin
             (fold (run_page_update False)
                (take n (set_tree_status_calls xid subxids TRANSACTION_STATUS_COMMITTED lsn)) ctl)
             subtrans y empty_cache = Some (b, cache)"
proof -
  let ?c = "fold (run_page_update False)
     (take n (set_tree_status_calls xid subxids TRANSACTION_STATUS_COMMITTED lsn)) ctl"
  have val: "TransactionIdIsValid y" if "y \<in> insert xid (set subxids)" for y
    using that assms(3) valid_of_normal by (auto simp: commit_tree_wf_def)
  have "\<exists>cache. TransactionIdDidCommit xmin ?c subtrans y empty_cache
      = Some (committed (log_status ?c) (SubTransGetParent subtrans) xmin y, cache)"
    if "y \<in> insert xid (set subxids)" for y
    using DidCommit_committed[OF assms(1,2) val[OF that] empty_cache_ok] by blast
  then show ?thesis using commit_prefix_decided[OF assms refl, of n lsn] by metis
qed

text \<open>A transaction 100 with subtransactions 101, on its page, and 40000, on another.\<close>

definition sample_subtrans :: subtrans_ctl where
  "sample_subtrans = SubTransSetParent 40000 101 (SubTransSetParent 101 100 empty_subtrans)"

lemma sample_subtrans_wf: "subtrans_wf 3 sample_subtrans"
  unfolding sample_subtrans_def
  by (intro subtrans_wf_SetParent empty_subtrans_wf) (code_simp)+

lemma sample_parents: "SubTransGetParent sample_subtrans x
   = (if x = 40000 then 101 else if x = 101 then 100 else InvalidTransactionId)"
  by (simp add: sample_subtrans_def GetParent_SetParent TransactionIdIsNormal_def xid_consts)

lemma sample_tree_wf: "commit_tree_wf 3 sample_subtrans 100 [101, 40000]"
proof -
  have "TransactionIdIsNormal 100" "TransactionIdIsNormal 101" "TransactionIdIsNormal 40000"
    "\<not> TransactionIdPrecedes 101 3" "\<not> TransactionIdPrecedes 40000 3"
    by code_simp+
  then show ?thesis by (simp add: commit_tree_wf_def sample_parents)
qed

theorem commit_atomic_witness:
  "length (set_tree_status_calls 100 [101, 40000] TRANSACTION_STATUS_COMMITTED 0) = 3
   \<and> (\<exists>b. \<forall>y \<in> {100, 101, 40000}. \<exists>cache.
           TransactionIdDidCommit 3
             (fold (run_page_update False)
                (take 1 (set_tree_status_calls 100 [101, 40000] TRANSACTION_STATUS_COMMITTED 0)) empty_clog)
             sample_subtrans y empty_cache = Some (b, cache))"
proof
  show "length (set_tree_status_calls 100 [101, 40000] TRANSACTION_STATUS_COMMITTED 0) = 3"
    by (simp add: set_tree_status_calls_def TransactionIdToPage_def page_simps Let_def)
  have "TransactionIdIsNormal 3" by code_simp
  moreover have "\<forall>x \<in> insert 100 (set [101, 40000]). xid_status empty_clog x = TRANSACTION_STATUS_IN_PROGRESS"
    by simp
  ultimately show "\<exists>b. \<forall>y \<in> {100, 101, 40000}. \<exists>cache.
           TransactionIdDidCommit 3
             (fold (run_page_update False)
                (take 1 (set_tree_status_calls 100 [101, 40000] TRANSACTION_STATUS_COMMITTED 0)) empty_clog)
             sample_subtrans y empty_cache = Some (b, cache)"
    using commit_atomic[OF _ sample_subtrans_wf sample_tree_wf, of empty_clog 1 0] by (simp only: list.set)
qed

text \<open>
  C19.  \<^verbatim>\<open>TransactionIdDidCommit\<close> returns, whatever the one-entry cache holds, and answers whether the
  id is marked committed or is sub-committed below a committed ancestor that
  \<^verbatim>\<open>pg_subtrans\<close> still reaches; the cache it leaves agrees with the log.
\<close>

theorem DidCommit_correct:
  assumes "TransactionIdIsNormal xmin" "subtrans_wf xmin subtrans" "TransactionIdIsValid x"
    and "cache_ok clog cache"
  shows "\<exists>cache'. TransactionIdDidCommit xmin clog subtrans x cache
           = Some (committed (log_status clog) (SubTransGetParent subtrans) xmin x, cache')
       \<and> cache_ok clog cache'"
  using assms by (rule DidCommit_committed)

theorem DidCommit_correct_witness:
  "\<exists>cache'. TransactionIdDidCommit 3 empty_clog sample_subtrans 40000 empty_cache
      = Some (committed (log_status empty_clog) (SubTransGetParent sample_subtrans) 3 40000, cache')
     \<and> cache_ok empty_clog cache'"
proof -
  have "TransactionIdIsNormal 3" "TransactionIdIsValid 40000" by code_simp+
  then show ?thesis using DidCommit_correct sample_subtrans_wf empty_cache_ok by blast
qed

lemma undecided_in_progress:
  assumes "TransactionIdIsNormal xmin" "subtrans_wf xmin subtrans" "TransactionIdIsValid x"
    and "\<forall>y. status y < 4"
    and "\<not> committed status (SubTransGetParent subtrans) xmin x" "\<not> rolled_back status (SubTransGetParent subtrans) xmin x"
  shows "\<exists>y. (ancestor_step xmin subtrans)\<^sup>*\<^sup>* x y \<and> status y = TRANSACTION_STATUS_IN_PROGRESS"
  using assms
proof (induction x rule: parent_induct)
  case (step x)
  have "status x = TRANSACTION_STATUS_IN_PROGRESS \<or> status x = TRANSACTION_STATUS_COMMITTED
      \<or> status x = TRANSACTION_STATUS_ABORTED \<or> status x = TRANSACTION_STATUS_SUB_COMMITTED"
    using step.prems(1) by (intro status_cases) simp
  then consider (running) "status x = TRANSACTION_STATUS_IN_PROGRESS"
    | (sub) "status x = TRANSACTION_STATUS_SUB_COMMITTED"
    using step.prems(2,3) committed.marked rolled_back.marked by metis
  then show ?case
  proof cases
    case sub
    then have p: "\<not> TransactionIdPrecedes x xmin" "TransactionIdIsValid (SubTransGetParent subtrans x)"
      using step.prems(3) rolled_back.orphan by metis+
    then obtain y where y: "(ancestor_step xmin subtrans)\<^sup>*\<^sup>* (SubTransGetParent subtrans x) y"
        "status y = TRANSACTION_STATUS_IN_PROGRESS"
      using step sub committed.through_parent rolled_back.through_parent by metis
    moreover have "ancestor_step xmin subtrans x (SubTransGetParent subtrans x)"
      using p by (simp add: ancestor_step_def)
    ultimately show ?thesis by (blast intro: converse_rtranclp_into_rtranclp)
  qed blast
qed

text \<open>
  C22.  \<^verbatim>\<open>TransactionIdDidCommit\<close> and \<^verbatim>\<open>TransactionIdDidAbort\<close> both return and are never both true; if
  both are false, some transaction on the way to the top is still marked in progress.
\<close>

theorem DidCommit_DidAbort_exclusive:
  assumes "TransactionIdIsNormal xmin" "subtrans_wf xmin subtrans" "TransactionIdIsValid x"
    and "cache_ok clog cache"
  shows "\<exists>c a cache1 cache2. TransactionIdDidCommit xmin clog subtrans x cache = Some (c, cache1)
       \<and> TransactionIdDidAbort xmin clog subtrans x cache = Some (a, cache2)
       \<and> \<not> (c \<and> a)
       \<and> (\<not> c \<and> \<not> a \<longrightarrow>
            (\<exists>y. (ancestor_step xmin subtrans)\<^sup>*\<^sup>* x y \<and> log_status clog y = TRANSACTION_STATUS_IN_PROGRESS))"
proof -
  have "\<forall>y. log_status clog y < 4" by (simp add: log_status_def)
  then show ?thesis
    using DidCommit_committed[OF assms] DidAbort_rolled_back[OF assms]
      committed_not_rolled_back[of "log_status clog"] undecided_in_progress[OF assms(1-3), of "log_status clog"]
    by blast
qed

theorem DidCommit_DidAbort_exclusive_witness:
  "\<exists>c a cache1 cache2. TransactionIdDidCommit 3 empty_clog sample_subtrans 40000 empty_cache = Some (c, cache1)
     \<and> TransactionIdDidAbort 3 empty_clog sample_subtrans 40000 empty_cache = Some (a, cache2)
     \<and> \<not> (c \<and> a)
     \<and> (\<not> c \<and> \<not> a \<longrightarrow>
          (\<exists>y. (ancestor_step 3 sample_subtrans)\<^sup>*\<^sup>* 40000 y
               \<and> log_status empty_clog y = TRANSACTION_STATUS_IN_PROGRESS))"
proof -
  have "TransactionIdIsNormal 3" "TransactionIdIsValid 40000" by code_simp+
  then show ?thesis
    using DidCommit_DidAbort_exclusive sample_subtrans_wf empty_cache_ok by blast
qed

text \<open>
  C23.  Commit is durable: once \<^verbatim>\<open>TransactionIdDidCommit\<close> has answered yes for an id, it answers yes
  after any later commit or abort of a tree whose ids were not committed.
\<close>

theorem commit_durable:
  assumes "TransactionIdIsNormal xmin" "subtrans_wf xmin subtrans" "TransactionIdIsValid y"
    and "cache_ok clog cache" "TransactionIdDidCommit xmin clog subtrans y cache = Some (True, cache1)"
    and "\<forall>x \<in> insert xid (set subxids). TransactionIdIsNormal x
           \<and> (\<exists>c. TransactionIdDidCommit xmin clog subtrans x empty_cache = Some (False, c))"
    and "final_status st" "cache_ok (TransactionIdSetTreeStatus r xid subxids st lsn clog) cache2"
  shows "\<exists>cache3. TransactionIdDidCommit xmin (TransactionIdSetTreeStatus r xid subxids st lsn clog) subtrans y cache2
           = Some (True, cache3)"
proof -
  let ?com = "\<lambda>clog. committed (log_status clog) (SubTransGetParent subtrans) xmin"
  have "?com clog y" using DidCommit_committed[OF assms(1-4)] assms(5) by auto
  moreover have "\<not> ?com clog x" if "x \<in> insert xid (set subxids)" for x
    using DidCommit_committed[OF assms(1,2) _ empty_cache_ok, of x clog] assms(6) that valid_of_normal by fastforce
  ultimately have "?com (TransactionIdSetTreeStatus r xid subxids st lsn clog) y"
    using assms(6,7) by (intro clog.commit_stable) auto
  then show ?thesis using DidCommit_committed[OF assms(1-3,8)] by auto
qed

lemma committed_Frozen: "committed (log_status clog) parent xmin FrozenTransactionId"
  by (rule committed.marked) (simp add: log_status_def TransactionIdIsNormal_def xid_consts)

lemma empty_not_committed:
  assumes "TransactionIdIsNormal x"
  shows "\<not> committed (log_status empty_clog) parent xmin x"
  using assms by (subst committed_unfold) (simp add: log_status_def)

theorem commit_durable_witness:
  "\<exists>cache3. TransactionIdDidCommit 3 (TransactionIdSetTreeStatus False 100 [101] TRANSACTION_STATUS_ABORTED 0 empty_clog)
      sample_subtrans 2 empty_cache = Some (True, cache3)"
proof -
  have n: "TransactionIdIsNormal 3" "TransactionIdIsNormal 100" "TransactionIdIsNormal 101"
      "TransactionIdIsValid 2" "TransactionIdIsValid 100" "TransactionIdIsValid 101"
    by code_simp+
  note did = DidCommit_committed[OF n(1) sample_subtrans_wf _ empty_cache_ok]
  obtain c1 where "TransactionIdDidCommit 3 empty_clog sample_subtrans 2 empty_cache = Some (True, c1)"
    using did[OF n(4), of empty_clog] committed_Frozen by (auto simp: FrozenTransactionId_def)
  moreover have "\<exists>c. TransactionIdDidCommit 3 empty_clog sample_subtrans x empty_cache = Some (False, c)"
    if "TransactionIdIsNormal x" for x
    using did[OF valid_of_normal[OF that], of empty_clog] empty_not_committed[OF that] by auto
  ultimately show ?thesis
    using n by (intro commit_durable[OF n(1) sample_subtrans_wf n(4) empty_cache_ok])
      (auto simp: final_status_def)
qed



end
