(* ===== verification/Order.thy ===== *)
theory Order
  imports Xid
begin

text \<open>
  Sorted arrays of transaction ids.  Several arrays of ids are kept sorted and searched by bisection:
  the known-assigned ids of a standby, the child ids of a transaction state and the current ids
  of a parallel worker.  The first two are sorted in the circular order, which is an order only
  on ids within half the ring, the last one numerically; the contract below covers both.
\<close>

definition sorted_range :: "('a \<Rightarrow> 'a \<Rightarrow> bool) \<Rightarrow> (nat \<Rightarrow> 'a) \<Rightarrow> nat \<Rightarrow> nat \<Rightarrow> bool" where
  "sorted_range lt a l h \<longleftrightarrow> (\<forall>i j. l \<le> i \<longrightarrow> i < j \<longrightarrow> j < h \<longrightarrow> lt (a i) (a j))"

lemma sorted_rangeD: "sorted_range lt a l h \<Longrightarrow> l \<le> i \<Longrightarrow> i < j \<Longrightarrow> j < h \<Longrightarrow> lt (a i) (a j)"
  by (simp add: sorted_range_def)

lemma sorted_range_mono: "sorted_range lt a l h \<Longrightarrow> l \<le> l' \<Longrightarrow> h' \<le> h \<Longrightarrow> sorted_range lt a l' h'"
  unfolding sorted_range_def by (meson order_trans less_le_trans)

lemma sorted_range_empty [simp]: "h \<le> l \<Longrightarrow> sorted_range lt a l h"
  by (simp add: sorted_range_def)

locale strict_order_on =
  fixes lt :: "'a \<Rightarrow> 'a \<Rightarrow> bool"
    and dom :: "'a \<Rightarrow> bool"
  assumes irrefl: "dom x \<Longrightarrow> \<not> lt x x"
    and trans: "dom x \<Longrightarrow> dom y \<Longrightarrow> dom z \<Longrightarrow> lt x y \<Longrightarrow> lt y z \<Longrightarrow> lt x z"
    and total: "dom x \<Longrightarrow> dom y \<Longrightarrow> x \<noteq> y \<Longrightarrow> lt x y \<or> lt y x"
begin

lemma asym: "dom x \<Longrightarrow> dom y \<Longrightarrow> lt x y \<Longrightarrow> \<not> lt y x"
  using irrefl trans by blast

lemma absent_above:
  assumes "sorted_range lt a l h" "\<forall>i. l \<le> i \<longrightarrow> i < h \<longrightarrow> dom (a i)" "dom x"
    and "l \<le> m" "lt x (a m)" "m \<le> i" "i < h"
  shows "a i \<noteq> x"
proof (cases "i = m")
  case True
  with assms irrefl show ?thesis by auto
next
  case False
  with assms have "lt (a m) (a i)" by (simp add: sorted_range_def)
  with assms show ?thesis by (metis asym le_trans less_le_trans not_less order_le_less_trans)
qed

lemma absent_below:
  assumes "sorted_range lt a l h" "\<forall>i. l \<le> i \<longrightarrow> i < h \<longrightarrow> dom (a i)" "dom x"
    and "m < h" "\<not> lt x (a m)" "x \<noteq> a m" "l \<le> i" "i \<le> m"
  shows "a i \<noteq> x"
proof (cases "i = m")
  case True
  with assms show ?thesis by auto
next
  case False
  with assms have "lt (a i) (a m)" by (simp add: sorted_range_def)
  with assms show ?thesis by auto
qed

lemma sorted_distinct:
  assumes "sorted_range lt a l h" "\<forall>i. l \<le> i \<longrightarrow> i < h \<longrightarrow> dom (a i)"
  shows "inj_on a {l..<h}"
proof (rule inj_onI)
  fix i j assume "i \<in> {l..<h}" "j \<in> {l..<h}" "a i = a j"
  then show "i = j"
    using assms irrefl sorted_rangeD[OF assms(1), of i j] sorted_rangeD[OF assms(1), of j i]
    by (metis atLeastLessThan_iff linorder_neqE_nat)
qed

lemma sorted_filter:
  assumes "sorted_range lt a l h"
  shows "sorted_wrt lt (map a (filter P [l..<h]))"
proof -
  have "sorted_wrt (\<lambda>i j. lt (a i) (a j)) [l..<h]"
    using assms by (auto simp: sorted_wrt_iff_nth_less sorted_range_def)
  then show ?thesis by (simp add: sorted_wrt_map sorted_wrt_filter)
qed

end

interpretation xid_window: strict_order_on TransactionIdPrecedes "in_window b" for b
proof
  show "TransactionIdPrecedes x y \<or> TransactionIdPrecedes y x"
    if "in_window b x" "in_window b y" "x \<noteq> y" for x y
    using that by (simp add: Precedes_window) (metis linorder_neqE_nat xid_pos_inject)
qed (auto simp: Precedes_window)

interpretation numeric: strict_order_on "(<) :: TransactionId \<Rightarrow> TransactionId \<Rightarrow> bool" "\<lambda>_. True"
  by unfold_locales auto

end
