(* ===== verification/KnownAssigned.thy ===== *)
theory KnownAssigned
  imports Order
begin

text \<open>
  The known-assigned ids of \<^verbatim>\<open>src/backend/storage/ipc/procarray.c\<close>: the sorted array in which a hot
  standby keeps the ids that are running on the primary.  The arrays are indexed from 0; the
  entries between tail and head are sorted, and a flag tells which of them are still valid.  The
  lemmas show that the operations implement a sorted list of ids.
\<close>

section \<open>State and operations\<close>

datatype KAXCompressReason =
  KAX_NO_SPACE | KAX_PRUNE | KAX_TRANSACTION_END | KAX_STARTUP_PROCESS_IDLE

record kax_state =
  KnownAssignedXids :: "nat \<Rightarrow> TransactionId"
  KnownAssignedXidsValid :: "nat \<Rightarrow> bool"
  maxKnownAssignedXids :: nat
  numKnownAssignedXids :: int
  tailKnownAssignedXids :: nat
  headKnownAssignedXids :: nat
  transactionEndsCounter :: uint32
  lastCompressTs :: int

definition KAX_COMPRESS_FREQUENCY :: uint32 where
  "KAX_COMPRESS_FREQUENCY = 128"

definition KAX_COMPRESS_IDLE_INTERVAL :: int where
  "KAX_COMPRESS_IDLE_INTERVAL = 1000"

text \<open>
  The heuristic of \<^verbatim>\<open>KnownAssignedXidsCompress\<close>: whether to go on, and the counter it keeps.
  \<open>now\<close> is the value of \<^verbatim>\<open>GetCurrentTimestamp()\<close>, in microseconds.
\<close>

definition kax_compress_wanted :: "int \<Rightarrow> KAXCompressReason \<Rightarrow> kax_state \<Rightarrow> bool \<times> kax_state" where
  "kax_compress_wanted now reason k =
     (let nelements = int (headKnownAssignedXids k) - int (tailKnownAssignedXids k)
      in if nelements = numKnownAssignedXids k
         then (reason = KAX_NO_SPACE, k)
         else if reason = KAX_TRANSACTION_END
         then let c = transactionEndsCounter k;
                  k = k\<lparr>transactionEndsCounter := c + 1\<rparr>
              in if c mod KAX_COMPRESS_FREQUENCY \<noteq> 0 then (False, k)
                 else if nelements < 2 * numKnownAssignedXids k then (False, k)
                 else (True, k)
         else if reason = KAX_STARTUP_PROCESS_IDLE
         then if lastCompressTs k \<noteq> 0
                 \<and> now < lastCompressTs k + KAX_COMPRESS_IDLE_INTERVAL * 1000
              then (False, k)
              else (True, k)
         else (True, k))"

definition kax_compress_step ::
    "nat \<Rightarrow> (nat \<Rightarrow> TransactionId) \<times> (nat \<Rightarrow> bool) \<times> nat \<Rightarrow> (nat \<Rightarrow> TransactionId) \<times> (nat \<Rightarrow> bool) \<times> nat" where
  "kax_compress_step i = (\<lambda>(xids, valid, compress_index).
     if valid i
     then (xids(compress_index := xids i), valid(compress_index := True), compress_index + 1)
     else (xids, valid, compress_index))"

definition KnownAssignedXidsCompress :: "int \<Rightarrow> KAXCompressReason \<Rightarrow> kax_state \<Rightarrow> kax_state" where
  "KnownAssignedXidsCompress now reason k =
     (let (wanted, k) = kax_compress_wanted now reason k
      in if \<not> wanted then k
         else let (xids, valid, compress_index) =
                    fold kax_compress_step [tailKnownAssignedXids k..<headKnownAssignedXids k]
                      (KnownAssignedXids k, KnownAssignedXidsValid k, 0)
              in k\<lparr>KnownAssignedXids := xids, KnownAssignedXidsValid := valid,
                   tailKnownAssignedXids := 0, headKnownAssignedXids := compress_index,
                   lastCompressTs := now\<rparr>)"

text \<open>The number of ids from \<^verbatim>\<open>from_xid\<close> to \<^verbatim>\<open>to_xid\<close>, counted one by one across the wrap point.\<close>

function kax_count_range :: "TransactionId \<Rightarrow> TransactionId \<Rightarrow> nat" where
  "kax_count_range next_xid to_xid =
     (if TransactionIdPrecedes next_xid to_xid
      then Suc (kax_count_range (TransactionIdAdvance next_xid) to_xid) else 1)"
  by pat_completeness auto
termination
proof (relation "measure (\<lambda>(next_xid, to_xid). if TransactionIdPrecedes next_xid to_xid
      then if TransactionIdIsNormal to_xid then Suc (xid_pos next_xid to_xid) else 1 else 0)", goal_cases)
  case (2 next_xid to_xid)
  then have "next_xid \<noteq> to_xid" by auto
  moreover have "\<not> TransactionIdPrecedes (TransactionIdAdvance next_xid) to_xid" if "\<not> TransactionIdIsNormal to_xid"
    using that Advance_normal[of next_xid] Precedes_special[of to_xid "TransactionIdAdvance next_xid"]
    by (auto simp: TransactionIdPrecedes_def)
  ultimately show ?case using 2 Advance_closer[of to_xid next_xid] by auto
qed simp

fun kax_insert :: "nat \<Rightarrow> TransactionId \<Rightarrow> nat \<Rightarrow> kax_state \<Rightarrow> kax_state" where
  "kax_insert 0 next_xid head k = k\<lparr>headKnownAssignedXids := head\<rparr>"
| "kax_insert (Suc n) next_xid head k =
     kax_insert n (TransactionIdAdvance next_xid) (head + 1)
       (k\<lparr>KnownAssignedXids := (KnownAssignedXids k)(head := next_xid),
          KnownAssignedXidsValid := (KnownAssignedXidsValid k)(head := True)\<rparr>)"

definition KnownAssignedXidsAdd ::
    "int \<Rightarrow> TransactionId \<Rightarrow> TransactionId \<Rightarrow> kax_state \<Rightarrow> pg_error + kax_state" where
  "KnownAssignedXidsAdd now from_xid to_xid k =
     (let nxids = (if from_xid \<le> to_xid then unat (to_xid - from_xid + 1)
                   else kax_count_range from_xid to_xid);
          head = headKnownAssignedXids k;
          tail = tailKnownAssignedXids k
      in if head > tail \<and> TransactionIdFollowsOrEquals (KnownAssignedXids k (head - 1)) from_xid
         then Inl ErrKnownAssignedOrder
         else
           let k = (if head + nxids > maxKnownAssignedXids k
                    then KnownAssignedXidsCompress now KAX_NO_SPACE k else k);
               head = headKnownAssignedXids k
           in if head + nxids > maxKnownAssignedXids k
              then Inl ErrKnownAssignedFull
              else let k = kax_insert nxids from_xid head k
                   in Inr (k\<lparr>numKnownAssignedXids := numKnownAssignedXids k + int nxids\<rparr>))"

text \<open>The bisection of \<^verbatim>\<open>KnownAssignedXidsSearch\<close>; \<open>None\<close> is a \<^verbatim>\<open>result_index\<close> of -1.\<close>

function kax_bsearch :: "(nat \<Rightarrow> TransactionId) \<Rightarrow> TransactionId \<Rightarrow> int \<Rightarrow> int \<Rightarrow> nat option" where
  "kax_bsearch xids xid first_idx last_idx =
     (if first_idx \<le> last_idx
      then let mid_index = (first_idx + last_idx) div 2;
               mid_xid = xids (nat mid_index)
           in if xid = mid_xid then Some (nat mid_index)
              else if TransactionIdPrecedes xid mid_xid then kax_bsearch xids xid first_idx (mid_index - 1)
              else kax_bsearch xids xid (mid_index + 1) last_idx
      else None)"
  by pat_completeness auto
termination
  by (relation "measure (\<lambda>(_, _, first_idx, last_idx). nat (last_idx - first_idx + 1))") auto

function kax_skip_invalid :: "(nat \<Rightarrow> bool) \<Rightarrow> nat \<Rightarrow> nat \<Rightarrow> nat" where
  "kax_skip_invalid valid i head =
     (if i < head \<and> \<not> valid i then kax_skip_invalid valid (i + 1) head else i)"
  by pat_completeness auto
termination
  by (relation "measure (\<lambda>(_, i, head). head - i)") auto

definition KnownAssignedXidsSearch :: "TransactionId \<Rightarrow> bool \<Rightarrow> kax_state \<Rightarrow> bool \<times> kax_state" where
  "KnownAssignedXidsSearch xid remove k =
     (let tail = tailKnownAssignedXids k;
          head = headKnownAssignedXids k
      in case kax_bsearch (KnownAssignedXids k) xid (int tail) (int head - 1) of
           None \<Rightarrow> (False, k)
         | Some result_index \<Rightarrow>
             if \<not> KnownAssignedXidsValid k result_index then (False, k)
             else if remove
             then let k = k\<lparr>KnownAssignedXidsValid := (KnownAssignedXidsValid k)(result_index := False),
                            numKnownAssignedXids := numKnownAssignedXids k - 1\<rparr>
                  in if result_index = tail
                     then let tail = kax_skip_invalid (KnownAssignedXidsValid k) (tail + 1) head
                          in if tail \<ge> head
                             then (True, k\<lparr>headKnownAssignedXids := 0, tailKnownAssignedXids := 0\<rparr>)
                             else (True, k\<lparr>tailKnownAssignedXids := tail\<rparr>)
                     else (True, k)
             else (True, k))"

definition KnownAssignedXidExists :: "TransactionId \<Rightarrow> kax_state \<Rightarrow> bool" where
  "KnownAssignedXidExists xid k = fst (KnownAssignedXidsSearch xid False k)"

definition KnownAssignedXidsRemove :: "TransactionId \<Rightarrow> kax_state \<Rightarrow> kax_state" where
  "KnownAssignedXidsRemove xid k = snd (KnownAssignedXidsSearch xid True k)"

definition KnownAssignedXidsRemoveTree ::
    "int \<Rightarrow> TransactionId \<Rightarrow> TransactionId list \<Rightarrow> kax_state \<Rightarrow> kax_state" where
  "KnownAssignedXidsRemoveTree now xid subxids k =
     (let k = (if TransactionIdIsValid xid then KnownAssignedXidsRemove xid k else k);
          k = fold KnownAssignedXidsRemove subxids k
      in KnownAssignedXidsCompress now KAX_TRANSACTION_END k)"

text \<open>
  The first loop of \<^verbatim>\<open>KnownAssignedXidsRemovePreceding\<close> over the indices from tail to head, with
  \<^verbatim>\<open>StandbyTransactionIdIsPrepared\<close> of \<^verbatim>\<open>twophase.c\<close> as a parameter.
\<close>

fun kax_prune_loop ::
    "(TransactionId \<Rightarrow> bool) \<Rightarrow> TransactionId \<Rightarrow> (nat \<Rightarrow> TransactionId) \<Rightarrow> nat list
     \<Rightarrow> (nat \<Rightarrow> bool) \<Rightarrow> int \<Rightarrow> (nat \<Rightarrow> bool) \<times> int" where
  "kax_prune_loop prepared removeXid xids [] valid count = (valid, count)"
| "kax_prune_loop prepared removeXid xids (i # is) valid count =
     (if valid i
      then let knownXid = xids i
           in if TransactionIdFollowsOrEquals knownXid removeXid then (valid, count)
              else if \<not> prepared knownXid
              then kax_prune_loop prepared removeXid xids is (valid(i := False)) (count + 1)
              else kax_prune_loop prepared removeXid xids is valid count
      else kax_prune_loop prepared removeXid xids is valid count)"

definition KnownAssignedXidsRemovePreceding ::
    "int \<Rightarrow> (TransactionId \<Rightarrow> bool) \<Rightarrow> TransactionId \<Rightarrow> kax_state \<Rightarrow> kax_state" where
  "KnownAssignedXidsRemovePreceding now prepared removeXid k =
     (if \<not> TransactionIdIsValid removeXid
      then k\<lparr>numKnownAssignedXids := 0, headKnownAssignedXids := 0, tailKnownAssignedXids := 0\<rparr>
      else
        let tail = tailKnownAssignedXids k;
            head = headKnownAssignedXids k;
            (valid, count) = kax_prune_loop prepared removeXid (KnownAssignedXids k) [tail..<head]
              (KnownAssignedXidsValid k) 0;
            k = k\<lparr>KnownAssignedXidsValid := valid, numKnownAssignedXids := numKnownAssignedXids k - count\<rparr>;
            i = kax_skip_invalid valid tail head;
            k = (if i \<ge> head then k\<lparr>headKnownAssignedXids := 0, tailKnownAssignedXids := 0\<rparr>
                 else k\<lparr>tailKnownAssignedXids := i\<rparr>)
        in KnownAssignedXidsCompress now KAX_PRUNE k)"

text \<open>The loop of \<^verbatim>\<open>KnownAssignedXidsGetAndSetXmin\<close>: the output array so far and \<^verbatim>\<open>xmin\<close>.\<close>

fun kax_get_loop ::
    "kax_state \<Rightarrow> TransactionId \<Rightarrow> nat list \<Rightarrow> TransactionId list \<Rightarrow> TransactionId
     \<Rightarrow> TransactionId list \<times> TransactionId" where
  "kax_get_loop k xmax [] xarray xmin = (xarray, xmin)"
| "kax_get_loop k xmax (i # is) xarray xmin =
     (if KnownAssignedXidsValid k i
      then let knownXid = KnownAssignedXids k i;
               xmin = (if xarray = [] \<and> TransactionIdPrecedes knownXid xmin then knownXid else xmin)
           in if TransactionIdIsValid xmax \<and> TransactionIdFollowsOrEquals knownXid xmax
              then (xarray, xmin)
              else kax_get_loop k xmax is (xarray @ [knownXid]) xmin
      else kax_get_loop k xmax is xarray xmin)"

definition KnownAssignedXidsGetAndSetXmin ::
    "kax_state \<Rightarrow> TransactionId \<Rightarrow> TransactionId \<Rightarrow> TransactionId list \<times> TransactionId" where
  "KnownAssignedXidsGetAndSetXmin k xmin xmax =
     kax_get_loop k xmax [tailKnownAssignedXids k..<headKnownAssignedXids k] [] xmin"

definition KnownAssignedXidsGet :: "kax_state \<Rightarrow> TransactionId \<Rightarrow> TransactionId list" where
  "KnownAssignedXidsGet k xmax = fst (KnownAssignedXidsGetAndSetXmin k InvalidTransactionId xmax)"

definition KnownAssignedXidsGetOldestXmin :: "kax_state \<Rightarrow> TransactionId" where
  "KnownAssignedXidsGetOldestXmin k =
     (case filter (KnownAssignedXidsValid k) [tailKnownAssignedXids k..<headKnownAssignedXids k] of
        [] \<Rightarrow> InvalidTransactionId
      | i # _ \<Rightarrow> KnownAssignedXids k i)"

definition KnownAssignedXidsReset :: "kax_state \<Rightarrow> kax_state" where
  "KnownAssignedXidsReset k =
     k\<lparr>numKnownAssignedXids := 0, tailKnownAssignedXids := 0, headKnownAssignedXids := 0\<rparr>"

section \<open>The abstract list\<close>

definition kax_list :: "kax_state \<Rightarrow> TransactionId list" where
  "kax_list k = map (KnownAssignedXids k)
     (filter (KnownAssignedXidsValid k) [tailKnownAssignedXids k..<headKnownAssignedXids k])"

text \<open>The invariant, relative to the oldest id \<open>b\<close> of the window in which the ids lie.\<close>

definition kax_sorted :: "TransactionId \<Rightarrow> (nat \<Rightarrow> TransactionId) \<Rightarrow> nat \<Rightarrow> nat \<Rightarrow> bool" where
  "kax_sorted b xids l h \<longleftrightarrow> sorted_range TransactionIdPrecedes xids l h
     \<and> (\<forall>i. l \<le> i \<longrightarrow> i < h \<longrightarrow> in_window b (xids i))"

definition kax_ok :: "TransactionId \<Rightarrow> kax_state \<Rightarrow> bool" where
  "kax_ok b k \<longleftrightarrow> tailKnownAssignedXids k \<le> headKnownAssignedXids k
     \<and> headKnownAssignedXids k \<le> maxKnownAssignedXids k
     \<and> kax_sorted b (KnownAssignedXids k) (tailKnownAssignedXids k) (headKnownAssignedXids k)
     \<and> numKnownAssignedXids k = int (length (kax_list k))"

lemma kax_sorted_mono: "kax_sorted b xids l h \<Longrightarrow> l \<le> l' \<Longrightarrow> h' \<le> h \<Longrightarrow> kax_sorted b xids l' h'"
  unfolding kax_sorted_def by (auto intro: sorted_range_mono)

lemma kax_sorted_empty [simp]: "h \<le> l \<Longrightarrow> kax_sorted b xids l h"
  by (simp add: kax_sorted_def)

lemma kax_sorted_inj: "kax_sorted b xids l h \<Longrightarrow> l \<le> i \<Longrightarrow> i < h \<Longrightarrow> l \<le> j \<Longrightarrow> j < h \<Longrightarrow> xids i = xids j \<longleftrightarrow> i = j"
  using xid_window.sorted_distinct[of xids l h b] unfolding kax_sorted_def inj_on_def by auto

lemma kax_list_sorted: "kax_ok b k \<Longrightarrow> sorted_wrt TransactionIdPrecedes (kax_list k)"
  unfolding kax_ok_def kax_sorted_def kax_list_def by (intro xid_window.sorted_filter) simp

lemma kax_list_window: "kax_ok b k \<Longrightarrow> x \<in> set (kax_list k) \<Longrightarrow> in_window b x"
  by (auto simp: kax_ok_def kax_sorted_def kax_list_def)

lemma kax_list_set:
  "x \<in> set (kax_list k) \<longleftrightarrow> (\<exists>i. tailKnownAssignedXids k \<le> i \<and> i < headKnownAssignedXids k
       \<and> KnownAssignedXidsValid k i \<and> KnownAssignedXids k i = x)"
  by (auto simp: kax_list_def)

section \<open>Compression\<close>

lemma compress_fold:
  assumes "t \<le> m"
    and "fold kax_compress_step [t..<m] (xids, valid, 0) = (xids', valid', ci)"
  shows "ci \<le> m \<and> map xids' [0..<ci] = map xids (filter valid [t..<m]) \<and> (\<forall>i < ci. valid' i)
       \<and> (\<forall>i \<ge> m. xids' i = xids i \<and> valid' i = valid i)"
  using assms
proof (induction m arbitrary: xids' valid' ci rule: dec_induct)
  case base
  then show ?case by simp
next
  case (step m)
  obtain x v c where c: "fold kax_compress_step [t..<m] (xids, valid, 0) = (x, v, c)" by (metis prod_cases3)
  note IH = step.IH[OF this]
  have eq: "kax_compress_step m (x, v, c) = (xids', valid', ci)" using step.prems step.hyps c by simp
  show ?case
  proof (cases "valid m")
    case True
    then have new: "xids' = x(c := x m)" "valid' = v(c := True)" "ci = Suc c"
      using eq IH by (auto simp: kax_compress_step_def)
    have "map xids' [0..<ci] = map x [0..<c] @ [x m]" by (simp add: new)
    then have "map xids' [0..<ci] = map xids (filter valid [t..<Suc m])" using IH True step.hyps by simp
    moreover have "ci \<le> Suc m" "\<forall>i < ci. valid' i" "\<forall>i \<ge> Suc m. xids' i = xids i \<and> valid' i = valid i"
      using IH by (auto simp: new less_Suc_eq)
    ultimately show ?thesis by blast
  next
    case False
    then have "xids' = x" "valid' = v" "ci = c" using eq IH by (auto simp: kax_compress_step_def)
    then show ?thesis using IH False step.hyps by auto
  qed
qed

lemma kax_list_cong:
  "tailKnownAssignedXids k' = tailKnownAssignedXids k \<Longrightarrow> headKnownAssignedXids k' = headKnownAssignedXids k \<Longrightarrow>
   KnownAssignedXids k' = KnownAssignedXids k \<Longrightarrow> KnownAssignedXidsValid k' = KnownAssignedXidsValid k \<Longrightarrow>
   kax_list k' = kax_list k"
  by (simp add: kax_list_def)

lemma compress_wanted_same:
  assumes "kax_compress_wanted now reason k = (w, k')"
  shows "k' = k\<lparr>transactionEndsCounter := transactionEndsCounter k'\<rparr>"
  using assms by (auto simp: kax_compress_wanted_def Let_def split: if_splits)

lemma sorted_range_of_list:
  assumes "map a [0..<n] = xs" "sorted_wrt lt xs"
  shows "sorted_range lt a 0 n"
  unfolding sorted_range_def
proof (intro allI impI)
  fix i j assume "i < j" "j < n"
  then have "lt (xs ! i) (xs ! j)" using assms by (intro sorted_wrt_nth_less[OF assms(2)]) auto
  then show "lt (a i) (a j)" using assms(1) \<open>i < j\<close> \<open>j < n\<close> by auto
qed

lemma Compress_ok:
  assumes "kax_ok b k"
  shows "kax_list (KnownAssignedXidsCompress now reason k) = kax_list k"
    and "kax_ok b (KnownAssignedXidsCompress now reason k)"
    and "maxKnownAssignedXids (KnownAssignedXidsCompress now reason k) = maxKnownAssignedXids k"
proof -
  obtain w k' where w: "kax_compress_wanted now reason k = (w, k')" by fastforce
  define c where "c = transactionEndsCounter k'"
  have k': "k' = k\<lparr>transactionEndsCounter := c\<rparr>" using compress_wanted_same[OF w] by (simp add: c_def)
  obtain xids valid ci where f: "fold kax_compress_step [tailKnownAssignedXids k..<headKnownAssignedXids k]
      (KnownAssignedXids k, KnownAssignedXidsValid k, 0) = (xids, valid, ci)" by (metis prod_cases3)
  have ok: "tailKnownAssignedXids k \<le> headKnownAssignedXids k" using assms by (simp add: kax_ok_def)
  note r = compress_fold[OF ok f, folded kax_list_def]
  have res: "KnownAssignedXidsCompress now reason k = (if w then k\<lparr>transactionEndsCounter := c,
       KnownAssignedXids := xids, KnownAssignedXidsValid := valid, tailKnownAssignedXids := 0,
       headKnownAssignedXids := ci, lastCompressTs := now\<rparr> else k\<lparr>transactionEndsCounter := c\<rparr>)"
    by (simp add: KnownAssignedXidsCompress_def w k' f)
  have "filter valid [0..<ci] = [0..<ci]" using r by (intro filter_True) auto
  then show l: "kax_list (KnownAssignedXidsCompress now reason k) = kax_list k"
    using r by (simp add: res kax_list_def)
  have "in_window b (xids i)" if "i < ci" for i
  proof -
    have "xids i \<in> set (map xids [0..<ci])" using that by auto
    then show ?thesis using r kax_list_window[OF assms] by simp
  qed
  moreover have "sorted_range TransactionIdPrecedes xids 0 ci"
    using r kax_list_sorted[OF assms] by (intro sorted_range_of_list) auto
  ultimately show "kax_ok b (KnownAssignedXidsCompress now reason k)"
    using assms r l unfolding kax_ok_def l by (auto simp: res kax_sorted_def)
  show "maxKnownAssignedXids (KnownAssignedXidsCompress now reason k) = maxKnownAssignedXids k"
    by (simp add: res)
qed

lemma Compress_no_space_head:
  assumes "kax_ok b k"
  shows "headKnownAssignedXids (KnownAssignedXidsCompress now KAX_NO_SPACE k) = length (kax_list k)"
proof -
  obtain xids valid ci where f: "fold kax_compress_step [tailKnownAssignedXids k..<headKnownAssignedXids k]
      (KnownAssignedXids k, KnownAssignedXidsValid k, 0) = (xids, valid, ci)" by (metis prod_cases3)
  have ok: "tailKnownAssignedXids k \<le> headKnownAssignedXids k" using assms by (simp add: kax_ok_def)
  have "ci = length (kax_list k)"
    using compress_fold[OF ok f, folded kax_list_def] by (metis length_map length_upt minus_nat.diff_0)
  moreover have "kax_compress_wanted now KAX_NO_SPACE k = (True, k)"
    by (simp add: kax_compress_wanted_def Let_def)
  ultimately show ?thesis by (simp add: KnownAssignedXidsCompress_def f)
qed

section \<open>Adding a range of ids\<close>

primrec xid_seq :: "nat \<Rightarrow> TransactionId \<Rightarrow> TransactionId list" where
  "xid_seq 0 x = []"
| "xid_seq (Suc n) x = x # xid_seq n (TransactionIdAdvance x)"

lemma length_xid_seq [simp]: "length (xid_seq n x) = n"
  by (induction n arbitrary: x) auto

definition kax_range_count :: "TransactionId \<Rightarrow> TransactionId \<Rightarrow> nat" where
  "kax_range_count from_xid to_xid =
     (if from_xid \<le> to_xid then unat (to_xid - from_xid + 1) else kax_count_range from_xid to_xid)"

declare kax_count_range.simps [simp del]

text \<open>Below the wrap point the subtraction gives what the loop counts.\<close>

lemma count_range_below_wrap:
  assumes "in_window b x" "in_window b y" "xid_pos b x \<le> xid_pos b y" "x \<le> y"
  shows "kax_count_range x y = unat y - unat x + 1"
  using assms
proof (induction x y rule: kax_count_range.induct)
  case (1 x y)
  show ?case
  proof (cases "x = y")
    case True
    then show ?thesis by (subst kax_count_range.simps) simp
  next
    case False
    then have lt: "xid_pos b x < xid_pos b y" using "1.prems" by (simp add: order_less_le)
    then have p: "TransactionIdPrecedes x y" using "1.prems" by (simp add: Precedes_window)
    have x: "TransactionIdIsNormal x" using "1.prems"(1) by (rule window_normal)
    have xy: "unat x < unat y" using False "1.prems"(4) by (simp add: order.not_eq_order_implies_strict flip: word_less_nat_alt)
    then have u: "unat (x + 1) = unat x + 1"
      using unat32_less[of y] by (simp add: unat_add_mod32)
    then have adv: "TransactionIdAdvance x = x + 1"
      using x by (auto simp: TransactionIdAdvance_def TransactionIdIsNormal_def Let_def word_less_nat_alt
          word_le_nat_alt FirstNormalTransactionId_def)
    have "x + 1 \<le> y" using u xy by (simp add: word_le_nat_alt)
    then have "kax_count_range (x + 1) y = unat y - unat (x + 1) + 1"
      using "1.IH"[OF p] "1.prems"(2) Advance_pos[OF "1.prems"(2) lt] Advance_window[OF "1.prems"(2) lt]
      unfolding adv by simp
    then show ?thesis using p u xy by (subst kax_count_range.simps) (simp add: adv)
  qed
qed

lemma count_range_fast:
  assumes "in_window b x" "in_window b y" "xid_pos b x \<le> xid_pos b y" "x \<le> y"
  shows "unat (y - x + 1) = kax_count_range x y"
proof -
  have "3 \<le> unat x"
    using window_normal[OF assms(1)] by (simp add: TransactionIdIsNormal_def word_le_nat_alt FirstNormalTransactionId_def)
  moreover have "unat (y - x) = unat y - unat x" using assms(4) by (rule unat_sub)
  ultimately have "unat (y - x + 1) = unat y - unat x + 1"
    using unat32_less[of y] by (simp add: unat_add_mod32)
  then show ?thesis using count_range_below_wrap[OF assms] by simp
qed

lemma range_count_eq:
  assumes "in_window b x" "in_window b y" "xid_pos b x \<le> xid_pos b y"
  shows "kax_range_count x y = kax_count_range x y"
  using count_range_fast[OF assms] by (simp add: kax_range_count_def)

lemma xid_seq_range:
  assumes "in_window b x" "in_window b y" "xid_pos b x \<le> xid_pos b y"
  shows "set (xid_seq (kax_count_range x y) x)
           = {z. in_window b z \<and> xid_pos b x \<le> xid_pos b z \<and> xid_pos b z \<le> xid_pos b y}"
    and "sorted_wrt TransactionIdPrecedes (xid_seq (kax_count_range x y) x)"
proof -
  have "set (xid_seq (kax_count_range x y) x)
           = {z. in_window b z \<and> xid_pos b x \<le> xid_pos b z \<and> xid_pos b z \<le> xid_pos b y}
      \<and> sorted_wrt TransactionIdPrecedes (xid_seq (kax_count_range x y) x)"
    using assms
  proof (induction x y rule: kax_count_range.induct)
    case (1 x y)
    show ?case
    proof (cases "x = y")
      case True
      have "kax_count_range y y = Suc 0" by (subst kax_count_range.simps) simp
      moreover have "in_window b z \<and> xid_pos b y \<le> xid_pos b z \<and> xid_pos b z \<le> xid_pos b y \<longleftrightarrow> z = y" for z
        using "1.prems"(2) xid_pos_inject[of b z y] by (metis order_antisym order_refl)
      ultimately show ?thesis using True by simp
    next
      case False
      let ?a = "TransactionIdAdvance x"
      have lt: "xid_pos b x < xid_pos b y" using False "1.prems" by (simp add: order_less_le)
      then have p: "TransactionIdPrecedes x y" using "1.prems" by (simp add: Precedes_window)
      note adv = Advance_pos[OF "1.prems"(2) lt] Advance_window[OF "1.prems"(2) lt]
      have IH: "set (xid_seq (kax_count_range ?a y) ?a)
            = {z. in_window b z \<and> xid_pos b ?a \<le> xid_pos b z \<and> xid_pos b z \<le> xid_pos b y}"
          "sorted_wrt TransactionIdPrecedes (xid_seq (kax_count_range ?a y) ?a)"
        using "1.IH"[OF p adv(3) "1.prems"(2) adv(2)] by auto
      have eq: "kax_count_range x y = Suc (kax_count_range ?a y)"
        using p by (subst kax_count_range.simps) simp
      have "z = x \<or> xid_pos b ?a \<le> xid_pos b z" if "in_window b z" "xid_pos b x \<le> xid_pos b z" for z
        using that Advance_pos(2)[of b z x] by (auto simp: order_le_less)
      then have "insert x {z. in_window b z \<and> xid_pos b ?a \<le> xid_pos b z \<and> xid_pos b z \<le> xid_pos b y}
           = {z. in_window b z \<and> xid_pos b x \<le> xid_pos b z \<and> xid_pos b z \<le> xid_pos b y}"
        using adv "1.prems" by (auto intro: less_imp_le order.strict_trans2)
      then have "set (xid_seq (kax_count_range x y) x)
           = {z. in_window b z \<and> xid_pos b x \<le> xid_pos b z \<and> xid_pos b z \<le> xid_pos b y}"
        by (simp add: eq IH(1))
      moreover have "TransactionIdPrecedes x z" if "z \<in> set (xid_seq (kax_count_range ?a y) ?a)" for z
        using that adv(1) "1.prems"(1) unfolding IH(1) by (simp add: Precedes_window)
      then have "sorted_wrt TransactionIdPrecedes (xid_seq (kax_count_range x y) x)"
        using IH(2) by (simp add: eq)
      ultimately show ?thesis by blast
    qed
  qed
  then show "set (xid_seq (kax_count_range x y) x)
           = {z. in_window b z \<and> xid_pos b x \<le> xid_pos b z \<and> xid_pos b z \<le> xid_pos b y}"
    and "sorted_wrt TransactionIdPrecedes (xid_seq (kax_count_range x y) x)" by blast+
qed

lemma kax_insert_fields [simp]:
  "headKnownAssignedXids (kax_insert n x h k) = h + n"
  "tailKnownAssignedXids (kax_insert n x h k) = tailKnownAssignedXids k"
  "numKnownAssignedXids (kax_insert n x h k) = numKnownAssignedXids k"
  "maxKnownAssignedXids (kax_insert n x h k) = maxKnownAssignedXids k"
  by (induction n arbitrary: x h k) auto

lemma kax_insert_array:
  "KnownAssignedXids (kax_insert n x h k) i
     = (if h \<le> i \<and> i < h + n then xid_seq n x ! (i - h) else KnownAssignedXids k i)"
  "KnownAssignedXidsValid (kax_insert n x h k) i = (h \<le> i \<and> i < h + n \<or> KnownAssignedXidsValid k i)"
  by (induction n arbitrary: x h k) (auto simp: nth_Cons' Suc_le_eq)

lemma kax_insert_list:
  assumes "tailKnownAssignedXids k \<le> h" "headKnownAssignedXids k = h"
  shows "kax_list (kax_insert n x h k) = kax_list k @ xid_seq n x"
proof -
  let ?t = "tailKnownAssignedXids k"
  have "[?t..<h + n] = [?t..<h] @ [h..<h + n]" using assms(1) by (rule upt_add_eq_append)
  moreover have "map (KnownAssignedXids (kax_insert n x h k)) (filter (KnownAssignedXidsValid (kax_insert n x h k)) [?t..<h])
      = kax_list k"
    unfolding kax_list_def assms(2) by (intro map_cong filter_cong) (auto simp: kax_insert_array)
  moreover have "filter (KnownAssignedXidsValid (kax_insert n x h k)) [h..<h + n] = [h..<h + n]"
    by (rule filter_True) (simp add: kax_insert_array)
  moreover have "map (KnownAssignedXids (kax_insert n x h k)) [h..<h + n] = xid_seq n x"
    by (rule nth_equalityI) (simp_all add: kax_insert_array)
  ultimately show ?thesis by (simp add: kax_list_def)
qed

lemma kax_list_length: "length (kax_list k) \<le> headKnownAssignedXids k - tailKnownAssignedXids k"
  unfolding kax_list_def length_map by (rule order_trans[OF length_filter_le]) simp

lemma Compress_no_space:
  assumes "kax_ok b k"
    and k'_def: "k' = KnownAssignedXidsCompress now KAX_NO_SPACE k"
  shows "tailKnownAssignedXids k' = 0" "headKnownAssignedXids k' = length (kax_list k)"
    and "map (KnownAssignedXids k') [0..<headKnownAssignedXids k'] = kax_list k"
proof -
  obtain xids valid ci where f: "fold kax_compress_step [tailKnownAssignedXids k..<headKnownAssignedXids k]
      (KnownAssignedXids k, KnownAssignedXidsValid k, 0) = (xids, valid, ci)" by (metis prod_cases3)
  have ok: "tailKnownAssignedXids k \<le> headKnownAssignedXids k" using assms by (simp add: kax_ok_def)
  have "kax_compress_wanted now KAX_NO_SPACE k = (True, k)"
    by (simp add: kax_compress_wanted_def Let_def)
  then have k': "k' = k\<lparr>KnownAssignedXids := xids, KnownAssignedXidsValid := valid,
      tailKnownAssignedXids := 0, headKnownAssignedXids := ci, lastCompressTs := now\<rparr>"
    by (simp add: KnownAssignedXidsCompress_def k'_def f)
  have m: "map xids [0..<ci] = kax_list k" using compress_fold[OF ok f, folded kax_list_def] by simp
  then have "ci = length (kax_list k)" by (metis length_map length_upt minus_nat.diff_0)
  with m show "tailKnownAssignedXids k' = 0" "headKnownAssignedXids k' = length (kax_list k)"
    "map (KnownAssignedXids k') [0..<headKnownAssignedXids k'] = kax_list k"
    by (simp_all add: k')
qed

text \<open>Appending later ids above the head keeps the invariant.\<close>

lemma kax_insert_ok:
  assumes ok: "kax_ok b k" and w: "in_window b x" "in_window b y" "xid_pos b x \<le> xid_pos b y"
    and n: "n = kax_count_range x y" and fit: "headKnownAssignedXids k + n \<le> maxKnownAssignedXids k"
    and below: "\<forall>i. tailKnownAssignedXids k \<le> i \<longrightarrow> i < headKnownAssignedXids k \<longrightarrow>
                  xid_pos b (KnownAssignedXids k i) < xid_pos b x"
    and k'_def: "k' = kax_insert n x (headKnownAssignedXids k) k"
  shows "kax_ok b (k'\<lparr>numKnownAssignedXids := numKnownAssignedXids k' + int n\<rparr>)"
proof -
  let ?h = "headKnownAssignedXids k" and ?t = "tailKnownAssignedXids k" and ?xs = "xid_seq n x"
  have th: "?t \<le> ?h" using ok by (simp add: kax_ok_def)
  have l: "kax_list k' = kax_list k @ ?xs" unfolding k'_def using th by (rule kax_insert_list) simp
  have mem: "in_window b (?xs ! j)" "xid_pos b x \<le> xid_pos b (?xs ! j)" if "j < n" for j
    using xid_seq_range(1)[OF w] nth_mem[of j ?xs] that unfolding n by auto
  have srt: "TransactionIdPrecedes (?xs ! i) (?xs ! j)" if "i < j" "j < n" for i j
    using that unfolding n by (intro sorted_wrt_nth_less[OF xid_seq_range(2)[OF w]]) simp_all
  have old: "sorted_range TransactionIdPrecedes (KnownAssignedXids k) ?t ?h"
      "\<And>i. ?t \<le> i \<Longrightarrow> i < ?h \<Longrightarrow> in_window b (KnownAssignedXids k i)"
    using ok by (auto simp: kax_ok_def kax_sorted_def)
  have win: "in_window b (KnownAssignedXids k' i)" if "?t \<le> i" "i < ?h + n" for i
    using that old(2) mem(1)[of "i - ?h"] by (cases "i < ?h") (auto simp: k'_def kax_insert_array)
  have "TransactionIdPrecedes (KnownAssignedXids k' i) (KnownAssignedXids k' j)"
    if ij: "?t \<le> i" "i < j" "j < ?h + n" for i j
  proof -
    consider (low) "j < ?h" | (mixed) "i < ?h" "?h \<le> j" | (high) "?h \<le> i" using ij by linarith
    then show ?thesis
    proof cases
      case low
      with ij old show ?thesis by (auto simp: k'_def kax_insert_array sorted_range_def)
    next
      case mixed
      have "xid_pos b (KnownAssignedXids k i) < xid_pos b (?xs ! (j - ?h))"
        using less_le_trans[OF below[rule_format, OF ij(1) mixed(1)] mem(2)] ij mixed by simp
      with mixed ij show ?thesis
        using old(2)[of i] mem(1)[of "j - ?h"] by (simp add: k'_def kax_insert_array Precedes_window)
    next
      case high
      then show ?thesis using srt[of "i - ?h" "j - ?h"] ij by (simp add: k'_def kax_insert_array)
    qed
  qed
  then have "kax_sorted b (KnownAssignedXids k') ?t (?h + n)"
    using win by (simp add: kax_sorted_def sorted_range_def)
  moreover have "kax_list (k'\<lparr>numKnownAssignedXids := numKnownAssignedXids k' + int n\<rparr>) = kax_list k @ ?xs"
    unfolding l[symmetric] by (rule kax_list_cong) simp_all
  ultimately show ?thesis
    using ok th fit by (simp add: kax_ok_def k'_def)
qed

text \<open>The outcome of \<^verbatim>\<open>KnownAssignedXidsAdd\<close> on every branch.\<close>

definition kax_out_of_order :: "TransactionId \<Rightarrow> kax_state \<Rightarrow> bool" where
  "kax_out_of_order x k \<longleftrightarrow> tailKnownAssignedXids k < headKnownAssignedXids k
     \<and> TransactionIdFollowsOrEquals (KnownAssignedXids k (headKnownAssignedXids k - 1)) x"

lemma in_order_below:
  assumes "kax_ok b k" "in_window b x" "\<not> kax_out_of_order x k"
    and "tailKnownAssignedXids k \<le> i" "i < headKnownAssignedXids k"
  shows "xid_pos b (KnownAssignedXids k i) < xid_pos b x"
proof -
  let ?l = "headKnownAssignedXids k - 1"
  have win: "in_window b (KnownAssignedXids k i)" "in_window b (KnownAssignedXids k ?l)"
    and srt: "i < ?l \<Longrightarrow> TransactionIdPrecedes (KnownAssignedXids k i) (KnownAssignedXids k ?l)"
    using assms by (auto simp: kax_ok_def kax_sorted_def sorted_range_def)
  have "xid_pos b (KnownAssignedXids k ?l) < xid_pos b x"
    using assms win by (simp add: kax_out_of_order_def FollowsOrEquals_window)
  moreover have "xid_pos b (KnownAssignedXids k i) \<le> xid_pos b (KnownAssignedXids k ?l)"
    using srt win assms(5) by (cases "i = ?l") (auto simp: Precedes_window less_imp_le)
  ultimately show ?thesis by simp
qed

lemma KnownAssignedXidsAdd_eq:
  "KnownAssignedXidsAdd now x y k =
     (if kax_out_of_order x k then Inl ErrKnownAssignedOrder
      else let n = kax_range_count x y;
               k1 = (if headKnownAssignedXids k + n > maxKnownAssignedXids k
                     then KnownAssignedXidsCompress now KAX_NO_SPACE k else k)
           in if headKnownAssignedXids k1 + n > maxKnownAssignedXids k1 then Inl ErrKnownAssignedFull
              else let k2 = kax_insert n x (headKnownAssignedXids k1) k1
                   in Inr (k2\<lparr>numKnownAssignedXids := numKnownAssignedXids k2 + int n\<rparr>))"
  unfolding KnownAssignedXidsAdd_def kax_out_of_order_def kax_range_count_def Let_def by (rule refl)

lemma kax_Add_effect:
  assumes ok: "kax_ok b k" and w: "in_window b x" "in_window b y" "xid_pos b x \<le> xid_pos b y"
    and n_def: "n = kax_count_range x y"
  shows "if kax_out_of_order x k then KnownAssignedXidsAdd now x y k = Inl ErrKnownAssignedOrder
         else if maxKnownAssignedXids k < length (kax_list k) + n
         then KnownAssignedXidsAdd now x y k = Inl ErrKnownAssignedFull
         else \<exists>k'. KnownAssignedXidsAdd now x y k = Inr k' \<and> kax_ok b k'
                \<and> kax_list k' = kax_list k @ xid_seq n x"
proof (cases "kax_out_of_order x k")
  case True
  then show ?thesis by (simp add: KnownAssignedXidsAdd_eq)
next
  case order: False
  have n: "kax_range_count x y = n" unfolding n_def by (rule range_count_eq[OF w])
  define k1 where "k1 = (if headKnownAssignedXids k + n > maxKnownAssignedXids k
                     then KnownAssignedXidsCompress now KAX_NO_SPACE k else k)"
  have eq: "KnownAssignedXidsAdd now x y k =
     (if headKnownAssignedXids k1 + n > maxKnownAssignedXids k1 then Inl ErrKnownAssignedFull
      else let k2 = kax_insert n x (headKnownAssignedXids k1) k1
           in Inr (k2\<lparr>numKnownAssignedXids := numKnownAssignedXids k2 + int n\<rparr>))"
    using order by (simp add: KnownAssignedXidsAdd_eq n k1_def Let_def)
  note nosp = Compress_no_space[OF ok refl, of now] and cok = Compress_ok[OF ok, of now KAX_NO_SPACE]
  have k1: "kax_ok b k1" "kax_list k1 = kax_list k" "maxKnownAssignedXids k1 = maxKnownAssignedXids k"
    using ok cok by (auto simp: k1_def)
  have full: "headKnownAssignedXids k1 + n > maxKnownAssignedXids k1
      \<longleftrightarrow> maxKnownAssignedXids k < length (kax_list k) + n"
    using nosp(2) k1(3) kax_list_length[of k] by (auto simp: k1_def)
  have below: "\<forall>i. tailKnownAssignedXids k1 \<le> i \<longrightarrow> i < headKnownAssignedXids k1 \<longrightarrow>
      xid_pos b (KnownAssignedXids k1 i) < xid_pos b x"
  proof (cases "headKnownAssignedXids k + n > maxKnownAssignedXids k")
    case True
    then have k1': "k1 = KnownAssignedXidsCompress now KAX_NO_SPACE k" by (simp add: k1_def)
    have "KnownAssignedXids k1 i \<in> set (kax_list k)" if "i < headKnownAssignedXids k1" for i
      using that nosp(3)[folded k1'] by (metis atLeastLessThan_iff image_eqI list.set_map set_upt zero_le)
    then show ?thesis using in_order_below[OF ok w(1) order] unfolding kax_list_set by metis
  qed (simp add: k1_def in_order_below[OF ok w(1) order])
  define k2 where "k2 = kax_insert n x (headKnownAssignedXids k1) k1"
  have "kax_list k2 = kax_list k @ xid_seq n x"
    unfolding k2_def k1(2)[symmetric] using k1(1) by (intro kax_insert_list) (simp_all add: kax_ok_def)
  then have l: "kax_list (k2\<lparr>numKnownAssignedXids := numKnownAssignedXids k2 + int n\<rparr>) = kax_list k @ xid_seq n x"
    by (subst kax_list_cong[where k = k2]) simp_all
  show ?thesis
    using order kax_insert_ok[OF k1(1) w n_def _ below refl] l full
    by (auto simp: eq Let_def k2_def not_less)
qed

section \<open>Searching and removing\<close>

declare kax_bsearch.simps [simp del] kax_skip_invalid.simps [simp del]

lemma bsearch_correct:
  assumes "kax_sorted b xids l h" "in_window b x" "int l \<le> lo" "hi < int h"
  shows "case kax_bsearch xids x lo hi of
           None \<Rightarrow> (\<forall>i. lo \<le> int i \<longrightarrow> int i \<le> hi \<longrightarrow> xids i \<noteq> x)
         | Some i \<Rightarrow> lo \<le> int i \<and> int i \<le> hi \<and> xids i = x"
  using assms
proof (induction xids x lo hi rule: kax_bsearch.induct)
  case (1 xids x lo hi)
  define m where "m = (lo + hi) div 2"
  show ?case
  proof (cases "lo \<le> hi")
    case False
    then show ?thesis by (subst kax_bsearch.simps) auto
  next
    case True
    then have m: "lo \<le> m" "m \<le> hi" "int l \<le> m" "m < int h" using "1.prems"(3,4) by (auto simp: m_def)
    have win: "sorted_range TransactionIdPrecedes xids l h" "\<forall>i. l \<le> i \<longrightarrow> i < h \<longrightarrow> in_window b (xids i)"
      using "1.prems"(1) by (auto simp: kax_sorted_def)
    have step: "kax_bsearch xids x lo hi = (if x = xids (nat m) then Some (nat m)
        else if TransactionIdPrecedes x (xids (nat m)) then kax_bsearch xids x lo (m - 1)
        else kax_bsearch xids x (m + 1) hi)"
      using True by (subst kax_bsearch.simps) (simp add: m_def Let_def)
    consider (hit) "x = xids (nat m)" | (left) "x \<noteq> xids (nat m)" "TransactionIdPrecedes x (xids (nat m))"
      | (right) "x \<noteq> xids (nat m)" "\<not> TransactionIdPrecedes x (xids (nat m))" by blast
    then show ?thesis
    proof cases
      case hit
      then have "kax_bsearch xids x lo hi = Some (nat m)" by (subst step) simp
      then show ?thesis using hit m "1.prems"(3) by simp
    next
      case left
      have gone: "xids i \<noteq> x" if "m \<le> int i" "int i \<le> hi" for i
        using that m "1.prems"(4)
        by (intro xid_window.absent_above[OF win "1.prems"(2) _ left(2)]) auto
      have eq: "kax_bsearch xids x lo hi = kax_bsearch xids x lo (m - 1)" using left by (subst step) simp
      have "case kax_bsearch xids x lo (m - 1) of
           None \<Rightarrow> (\<forall>i. lo \<le> int i \<longrightarrow> int i \<le> m - 1 \<longrightarrow> xids i \<noteq> x)
         | Some i \<Rightarrow> lo \<le> int i \<and> int i \<le> m - 1 \<and> xids i = x"
        using "1.IH"(1)[OF True m_def refl left "1.prems"(1-3)] m by simp
      moreover have "int i \<le> m - 1 \<or> m \<le> int i" for i by linarith
      ultimately show ?thesis
        unfolding eq using gone m(2) by (cases "kax_bsearch xids x lo (m - 1)") (simp_all, blast)
    next
      case right
      have gone: "xids i \<noteq> x" if "lo \<le> int i" "int i \<le> m" for i
        using that m "1.prems"(3) right
        by (intro xid_window.absent_below[OF win "1.prems"(2), of "nat m"]) auto
      have eq: "kax_bsearch xids x lo hi = kax_bsearch xids x (m + 1) hi" using right by (subst step) simp
      have "case kax_bsearch xids x (m + 1) hi of
           None \<Rightarrow> (\<forall>i. m + 1 \<le> int i \<longrightarrow> int i \<le> hi \<longrightarrow> xids i \<noteq> x)
         | Some i \<Rightarrow> m + 1 \<le> int i \<and> int i \<le> hi \<and> xids i = x"
        using "1.IH"(2)[OF True m_def refl right "1.prems"(1,2)] m "1.prems"(4) by simp
      moreover have "m + 1 \<le> int i \<or> int i \<le> m" for i by linarith
      ultimately show ?thesis
        unfolding eq using gone m(1) by (cases "kax_bsearch xids x (m + 1) hi") (simp_all, blast)
    qed
  qed
qed

lemma skip_invalid_spec:
  assumes "i \<le> h"
  shows "i \<le> kax_skip_invalid valid i h \<and> kax_skip_invalid valid i h \<le> h
       \<and> (\<forall>j. i \<le> j \<longrightarrow> j < kax_skip_invalid valid i h \<longrightarrow> \<not> valid j)
       \<and> (kax_skip_invalid valid i h < h \<longrightarrow> valid (kax_skip_invalid valid i h))"
  using assms
proof (induction valid i h rule: kax_skip_invalid.induct)
  case (1 valid i h)
  show ?case
  proof (cases "i < h \<and> \<not> valid i")
    case True
    then have "kax_skip_invalid valid i h = kax_skip_invalid valid (i + 1) h"
      by (subst kax_skip_invalid.simps) simp
    moreover have "\<not> valid j" if "i \<le> j" "j < kax_skip_invalid valid (i + 1) h" for j
      using 1 True that by (cases "i = j") auto
    ultimately show ?thesis using 1 True by auto
  next
    case False
    then show ?thesis using "1.prems" by (subst (1 2 3 4 5) kax_skip_invalid.simps) auto
  qed
qed

text \<open>Dropping invalid entries at the tail does not change the list.\<close>

lemma filter_upt_skip:
  assumes "t \<le> t'" "t' \<le> h" "\<forall>j. t \<le> j \<longrightarrow> j < t' \<longrightarrow> \<not> valid j"
  shows "filter valid [t..<h] = filter valid [t'..<h]"
proof -
  have "[t..<h] = [t..<t'] @ [t'..<h]"
    using assms(1,2) upt_add_eq_append[of t t' "h - t'"] by simp
  moreover have "filter valid [t..<t'] = []" using assms(3) by (simp add: filter_empty_conv)
  ultimately show ?thesis by simp
qed

text \<open>The state after the entries that fail \<open>P\<close> have been invalidated and the tail has been moved up.\<close>

definition kax_drop_tail :: "nat \<Rightarrow> kax_state \<Rightarrow> kax_state" where
  "kax_drop_tail i k =
     (if i \<ge> headKnownAssignedXids k then k\<lparr>headKnownAssignedXids := 0, tailKnownAssignedXids := 0\<rparr>
      else k\<lparr>tailKnownAssignedXids := i\<rparr>)"

lemma kax_drop_tail_list:
  assumes "tailKnownAssignedXids k \<le> i" "i \<le> headKnownAssignedXids k"
    and "\<forall>j. tailKnownAssignedXids k \<le> j \<longrightarrow> j < i \<longrightarrow> \<not> KnownAssignedXidsValid k j"
  shows "kax_list (kax_drop_tail i k) = kax_list k"
  using assms filter_upt_skip[OF assms(1,2), of "KnownAssignedXidsValid k"]
  by (auto simp: kax_drop_tail_def kax_list_def)

lemma kax_invalidate_list:
  assumes "\<forall>i. tailKnownAssignedXids k \<le> i \<longrightarrow> i < headKnownAssignedXids k \<longrightarrow>
             valid i = (KnownAssignedXidsValid k i \<and> P (KnownAssignedXids k i))"
  shows "kax_list (k\<lparr>KnownAssignedXidsValid := valid, numKnownAssignedXids := n\<rparr>) = filter P (kax_list k)"
  using assms unfolding kax_list_def filter_map
  by (simp add: comp_def conj_commute) (intro arg_cong[where f = "map _"] filter_cong; simp)

lemma kax_drop_tail_ok:
  assumes "kax_ok b k" "tailKnownAssignedXids k \<le> i" "i \<le> headKnownAssignedXids k"
    and "\<forall>j. tailKnownAssignedXids k \<le> j \<longrightarrow> j < i \<longrightarrow> \<not> KnownAssignedXidsValid k j"
  shows "kax_ok b (kax_drop_tail i k)"
proof -
  have "kax_list (kax_drop_tail i k) = kax_list k" by (rule kax_drop_tail_list[OF assms(2-4)])
  then show ?thesis
    using assms(1-3) kax_sorted_mono[of b "KnownAssignedXids k" "tailKnownAssignedXids k" "headKnownAssignedXids k" i "headKnownAssignedXids k"]
    unfolding kax_ok_def by (auto simp: kax_drop_tail_def)
qed

lemma kax_invalidate_ok:
  assumes "kax_ok b k" "n = int (length (kax_list (k\<lparr>KnownAssignedXidsValid := valid, numKnownAssignedXids := n\<rparr>)))"
  shows "kax_ok b (k\<lparr>KnownAssignedXidsValid := valid, numKnownAssignedXids := n\<rparr>)"
  using assms unfolding kax_ok_def by simp

lemma bsearch_in_list:
  assumes "kax_ok b k" "in_window b x"
  shows "case kax_bsearch (KnownAssignedXids k) x (int (tailKnownAssignedXids k)) (int (headKnownAssignedXids k) - 1) of
           None \<Rightarrow> x \<notin> set (kax_list k)
         | Some i \<Rightarrow> tailKnownAssignedXids k \<le> i \<and> i < headKnownAssignedXids k \<and> KnownAssignedXids k i = x
                     \<and> (x \<in> set (kax_list k) \<longleftrightarrow> KnownAssignedXidsValid k i)"
proof -
  have srt: "kax_sorted b (KnownAssignedXids k) (tailKnownAssignedXids k) (headKnownAssignedXids k)"
    using assms(1) by (simp add: kax_ok_def)
  note s = bsearch_correct[OF this assms(2) order_refl, of "int (headKnownAssignedXids k) - 1"]
  show ?thesis
  proof (cases "kax_bsearch (KnownAssignedXids k) x (int (tailKnownAssignedXids k)) (int (headKnownAssignedXids k) - 1)")
    case None
    with s show ?thesis by (auto simp: kax_list_set)
  next
    case (Some i)
    with s have i: "tailKnownAssignedXids k \<le> i" "i < headKnownAssignedXids k" "KnownAssignedXids k i = x" by auto
    then have "KnownAssignedXids k j = x \<longleftrightarrow> j = i"
      if "tailKnownAssignedXids k \<le> j" "j < headKnownAssignedXids k" for j
      using kax_sorted_inj[OF srt that, of i] by simp
    with i Some show ?thesis by (auto simp: kax_list_set)
  qed
qed

lemma Search_lookup:
  assumes "kax_ok b k" "in_window b x"
  shows "fst (KnownAssignedXidsSearch x remove k) \<longleftrightarrow> x \<in> set (kax_list k)"
  using bsearch_in_list[OF assms]
  by (auto simp: KnownAssignedXidsSearch_def Let_def split: option.splits if_splits)

lemma Search_remove_shape:
  assumes "kax_ok b k" "in_window b x" "x \<in> set (kax_list k)"
  obtains i t where "tailKnownAssignedXids k \<le> i" "i < headKnownAssignedXids k" "KnownAssignedXids k i = x"
    and "tailKnownAssignedXids k \<le> t" "t \<le> headKnownAssignedXids k"
    and "\<forall>j. tailKnownAssignedXids k \<le> j \<longrightarrow> j < t \<longrightarrow> \<not> ((KnownAssignedXidsValid k)(i := False)) j"
    and "snd (KnownAssignedXidsSearch x True k)
         = kax_drop_tail t (k\<lparr>KnownAssignedXidsValid := (KnownAssignedXidsValid k)(i := False),
                              numKnownAssignedXids := numKnownAssignedXids k - 1\<rparr>)"
proof -
  let ?h = "headKnownAssignedXids k" and ?t = "tailKnownAssignedXids k"
  obtain i where i: "kax_bsearch (KnownAssignedXids k) x (int ?t) (int ?h - 1) = Some i"
      "?t \<le> i" "i < ?h" "KnownAssignedXids k i = x" "KnownAssignedXidsValid k i"
    using bsearch_in_list[OF assms(1,2)] assms(3) by (auto split: option.splits)
  let ?v = "(KnownAssignedXidsValid k)(i := False)"
  show thesis
  proof (cases "i = ?t")
    case False
    show ?thesis
    proof (rule that[of i ?t])
      show "snd (KnownAssignedXidsSearch x True k) = kax_drop_tail ?t (k\<lparr>KnownAssignedXidsValid := ?v,
          numKnownAssignedXids := numKnownAssignedXids k - 1\<rparr>)"
        using i False by (simp add: KnownAssignedXidsSearch_def Let_def kax_drop_tail_def)
    qed (use i in auto)
  next
    case True
    let ?n = "kax_skip_invalid ?v (?t + 1) ?h"
    have sk: "?t + 1 \<le> ?n \<and> ?n \<le> ?h \<and> (\<forall>j. ?t + 1 \<le> j \<longrightarrow> j < ?n \<longrightarrow> \<not> ?v j)"
      using skip_invalid_spec[of "?t + 1" ?h ?v] i True by auto
    show ?thesis
    proof (rule that[of i ?n])
      show "\<forall>j. ?t \<le> j \<longrightarrow> j < ?n \<longrightarrow> \<not> ?v j" using sk True by (metis Suc_eq_plus1 Suc_leI fun_upd_same order_le_less)
      show "snd (KnownAssignedXidsSearch x True k) = kax_drop_tail ?n (k\<lparr>KnownAssignedXidsValid := ?v,
          numKnownAssignedXids := numKnownAssignedXids k - 1\<rparr>)"
        using i True by (simp add: KnownAssignedXidsSearch_def Let_def kax_drop_tail_def)
    qed (use i sk in auto)
  qed
qed

lemma kax_list_distinct:
  assumes "kax_ok b k"
  shows "distinct (kax_list k)"
proof -
  have "inj_on (KnownAssignedXids k) {tailKnownAssignedXids k..<headKnownAssignedXids k}"
    using assms by (intro xid_window.sorted_distinct[of _ _ _ b]) (auto simp: kax_ok_def kax_sorted_def)
  then have "inj_on (KnownAssignedXids k) (set (filter (KnownAssignedXidsValid k)
      [tailKnownAssignedXids k..<headKnownAssignedXids k]))"
    by (rule inj_on_subset) auto
  then show ?thesis by (simp add: kax_list_def distinct_map)
qed

lemma Search_absent:
  assumes "kax_ok b k" "in_window b x" "x \<notin> set (kax_list k)"
  shows "snd (KnownAssignedXidsSearch x remove k) = k"
  using bsearch_in_list[OF assms(1,2)] assms(3)
  by (auto simp: KnownAssignedXidsSearch_def Let_def split: option.splits)

lemma kax_Remove_effect:
  assumes ok: "kax_ok b k" and x: "in_window b x"
  shows "kax_list (KnownAssignedXidsRemove x k) = filter (\<lambda>y. y \<noteq> x) (kax_list k)"
    and "kax_ok b (KnownAssignedXidsRemove x k)"
    and "maxKnownAssignedXids (KnownAssignedXidsRemove x k) = maxKnownAssignedXids k"
proof -
  have "kax_list (KnownAssignedXidsRemove x k) = filter (\<lambda>y. y \<noteq> x) (kax_list k)
    \<and> kax_ok b (KnownAssignedXidsRemove x k) \<and> maxKnownAssignedXids (KnownAssignedXidsRemove x k) = maxKnownAssignedXids k"
  proof (cases "x \<in> set (kax_list k)")
    case False
    then have "filter (\<lambda>y. y \<noteq> x) (kax_list k) = kax_list k" by (intro filter_True) auto
    then show ?thesis using Search_absent[OF ok x False] ok by (simp add: KnownAssignedXidsRemove_def)
  next
    case True
    let ?h = "headKnownAssignedXids k" and ?t = "tailKnownAssignedXids k"
    obtain i t where i: "?t \<le> i" "i < ?h" "KnownAssignedXids k i = x"
      and t: "?t \<le> t" "t \<le> ?h" "\<forall>j. ?t \<le> j \<longrightarrow> j < t \<longrightarrow> \<not> ((KnownAssignedXidsValid k)(i := False)) j"
      and eq: "snd (KnownAssignedXidsSearch x True k) = kax_drop_tail t
          (k\<lparr>KnownAssignedXidsValid := (KnownAssignedXidsValid k)(i := False),
             numKnownAssignedXids := numKnownAssignedXids k - 1\<rparr>)"
      by (rule Search_remove_shape[OF ok x True])
    define k1 where "k1 = k\<lparr>KnownAssignedXidsValid := (KnownAssignedXidsValid k)(i := False),
             numKnownAssignedXids := numKnownAssignedXids k - 1\<rparr>"
    have srt: "kax_sorted b (KnownAssignedXids k) ?t ?h" using ok by (simp add: kax_ok_def)
    have l: "kax_list k1 = filter (\<lambda>y. y \<noteq> x) (kax_list k)"
      unfolding k1_def using kax_sorted_inj[OF srt _ _ i(1,2)] i(3) by (intro kax_invalidate_list) auto
    have "filter (\<lambda>y. y \<noteq> x) (kax_list k) = remove1 x (kax_list k)"
      using kax_list_distinct[OF ok] distinct_remove1_removeAll[of "kax_list k" x]
      by (simp add: removeAll_filter_not_eq eq_commute)
    then have "int (length (filter (\<lambda>y. y \<noteq> x) (kax_list k))) = int (length (kax_list k)) - 1"
      using True length_pos_if_in_set[OF True] by (simp add: length_remove1 of_nat_diff Suc_leI)
    then have k1: "kax_ok b k1"
      using ok l unfolding k1_def by (intro kax_invalidate_ok) (auto simp: kax_ok_def)
    have t1: "tailKnownAssignedXids k1 \<le> t" "t \<le> headKnownAssignedXids k1"
        "\<forall>j. tailKnownAssignedXids k1 \<le> j \<longrightarrow> j < t \<longrightarrow> \<not> KnownAssignedXidsValid k1 j"
      using t by (simp_all add: k1_def)
    have "KnownAssignedXidsRemove x k = kax_drop_tail t k1" by (simp only: KnownAssignedXidsRemove_def eq k1_def)
    moreover have "maxKnownAssignedXids (kax_drop_tail t k1) = maxKnownAssignedXids k"
      by (simp add: kax_drop_tail_def k1_def)
    ultimately show ?thesis using kax_drop_tail_list[OF t1] kax_drop_tail_ok[OF k1 t1] l by simp
  qed
  then show "kax_list (KnownAssignedXidsRemove x k) = filter (\<lambda>y. y \<noteq> x) (kax_list k)"
    and "kax_ok b (KnownAssignedXidsRemove x k)"
    and "maxKnownAssignedXids (KnownAssignedXidsRemove x k) = maxKnownAssignedXids k" by blast+
qed

lemma fold_Remove_effect:
  assumes "kax_ok b k" "\<forall>x \<in> set xs. in_window b x"
  shows "kax_list (fold KnownAssignedXidsRemove xs k) = filter (\<lambda>y. y \<notin> set xs) (kax_list k)
       \<and> kax_ok b (fold KnownAssignedXidsRemove xs k)"
  using assms
proof (induction xs arbitrary: k)
  case (Cons x xs)
  then show ?case using kax_Remove_effect[of b k x] by (simp add: conj_commute)
qed simp

lemma RemoveTree_effect:
  assumes "kax_ok b k" "TransactionIdIsValid xid \<Longrightarrow> in_window b xid" "\<forall>x \<in> set subxids. in_window b x"
  shows "kax_list (KnownAssignedXidsRemoveTree now xid subxids k)
           = filter (\<lambda>y. y \<noteq> xid \<and> y \<notin> set subxids) (kax_list k)"
    and "kax_ok b (KnownAssignedXidsRemoveTree now xid subxids k)"
proof -
  define k1 where "k1 = (if TransactionIdIsValid xid then KnownAssignedXidsRemove xid k else k)"
  have "y \<noteq> xid" if "\<not> TransactionIdIsValid xid" "y \<in> set (kax_list k)" for y
    using that kax_list_window[OF assms(1)] valid_of_normal window_normal by blast
  then have k1: "kax_list k1 = filter (\<lambda>y. y \<noteq> xid) (kax_list k)" "kax_ok b k1"
    using assms(1) kax_Remove_effect[OF assms(1), of xid] assms(2) by (auto simp: k1_def)
  from fold_Remove_effect[OF k1(2) assms(3)] k1(1)
  have k2: "kax_list (fold KnownAssignedXidsRemove subxids k1) = filter (\<lambda>y. y \<noteq> xid \<and> y \<notin> set subxids) (kax_list k)"
    "kax_ok b (fold KnownAssignedXidsRemove subxids k1)" by (simp_all add: conj_commute)
  show "kax_list (KnownAssignedXidsRemoveTree now xid subxids k)
           = filter (\<lambda>y. y \<noteq> xid \<and> y \<notin> set subxids) (kax_list k)"
    and "kax_ok b (KnownAssignedXidsRemoveTree now xid subxids k)"
    using Compress_ok[OF k2(2)] k2(1) by (simp_all add: KnownAssignedXidsRemoveTree_def Let_def flip: k1_def)
qed

section \<open>Pruning\<close>

definition kax_pruned :: "(TransactionId \<Rightarrow> bool) \<Rightarrow> TransactionId \<Rightarrow> TransactionId \<Rightarrow> bool" where
  "kax_pruned prepared removeXid x \<longleftrightarrow> TransactionIdPrecedes x removeXid \<and> \<not> prepared x"

lemma prune_loop_effect:
  assumes "kax_sorted b xids l h" "in_window b rx" "l \<le> h"
  shows "fst (kax_prune_loop prepared rx xids [l..<h] valid c)
           = (\<lambda>i. valid i \<and> \<not> (l \<le> i \<and> i < h \<and> kax_pruned prepared rx (xids i)))
       \<and> snd (kax_prune_loop prepared rx xids [l..<h] valid c)
           = c + int (length (filter (\<lambda>i. valid i \<and> kax_pruned prepared rx (xids i)) [l..<h]))"
  using assms(3,1)
proof (induction arbitrary: valid c rule: inc_induct)
  case base
  have "(h \<le> i \<and> i < h) = False" for i by auto
  then show ?case by simp
next
  case (step l)
  have srt: "kax_sorted b xids (Suc l) h" using step.prems by (rule kax_sorted_mono) simp_all
  have lw: "in_window b (xids l)" using step by (simp add: kax_sorted_def)
  have u: "[l..<h] = l # [Suc l..<h]" using step.hyps by (simp add: upt_conv_Cons)
  let ?loop = "\<lambda>is valid c. kax_prune_loop prepared rx xids is valid c"
  let ?cut = "\<lambda>i. kax_pruned prepared rx (xids i)"
  have IH: "fst (?loop [Suc l..<h] v c) = (\<lambda>i. v i \<and> \<not> (Suc l \<le> i \<and> i < h \<and> ?cut i))"
      "snd (?loop [Suc l..<h] v c) = c + int (length (filter (\<lambda>i. v i \<and> ?cut i) [Suc l..<h]))" for v c
    using step.IH[OF srt, of v c] by blast+
  have at: "(v i \<and> \<not> (l \<le> i \<and> i < h \<and> ?cut i)) = (if i = l then v l \<and> \<not> ?cut l
      else v i \<and> \<not> (Suc l \<le> i \<and> i < h \<and> ?cut i))" for v i using step.hyps(2) by auto
  consider (skip) "\<not> valid l \<or> prepared (xids l) \<and> \<not> TransactionIdFollowsOrEquals (xids l) rx"
    | (stop) "valid l" "TransactionIdFollowsOrEquals (xids l) rx"
    | (drop) "valid l" "\<not> TransactionIdFollowsOrEquals (xids l) rx" "\<not> prepared (xids l)" by blast
  then show ?case
  proof cases
    case skip
    then have "?loop [l..<h] valid c = ?loop [Suc l..<h] valid c" and nl: "\<not> (valid l \<and> ?cut l)"
      by (auto simp: u Let_def kax_pruned_def)
    moreover have "(\<lambda>i. valid i \<and> \<not> (Suc l \<le> i \<and> i < h \<and> ?cut i)) = (\<lambda>i. valid i \<and> \<not> (l \<le> i \<and> i < h \<and> ?cut i))"
      using nl by (intro ext, subst at) auto
    ultimately show ?thesis using IH nl by (simp only: u filter.simps if_False)
  next
    case stop
    have ge: "\<not> ?cut i" if "l \<le> i" "i < h" for i
    proof -
      have iw: "in_window b (xids i)" using step.prems that by (simp add: kax_sorted_def)
      have "xid_pos b (xids l) \<le> xid_pos b (xids i)"
      proof (cases "i = l")
        case False
        then have "TransactionIdPrecedes (xids l) (xids i)"
          using step.prems that by (simp add: kax_sorted_def sorted_range_def)
        then show ?thesis using iw lw by (simp add: Precedes_window)
      qed simp
      then show ?thesis
        using stop(2) lw iw assms(2) by (simp add: kax_pruned_def Precedes_window FollowsOrEquals_window)
    qed
    then have "filter (\<lambda>i. valid i \<and> ?cut i) [l..<h] = []" by (auto simp: filter_empty_conv)
    moreover have "(\<lambda>i. valid i \<and> \<not> (l \<le> i \<and> i < h \<and> ?cut i)) = valid" using ge by (intro ext) blast
    moreover have "?loop [l..<h] valid c = (valid, c)" using stop by (simp add: u)
    ultimately show ?thesis by simp
  next
    case drop
    then have p: "?cut l" by (simp add: kax_pruned_def not_Precedes_iff[symmetric])
    have f: "filter (\<lambda>i. (valid(l := False)) i \<and> ?cut i) [Suc l..<h] = filter (\<lambda>i. valid i \<and> ?cut i) [Suc l..<h]"
      by (rule filter_cong) auto
    have "?loop [l..<h] valid c = ?loop [Suc l..<h] (valid(l := False)) (c + 1)"
      using drop by (simp add: u Let_def)
    moreover have "(\<lambda>i. (valid(l := False)) i \<and> \<not> (Suc l \<le> i \<and> i < h \<and> ?cut i))
        = (\<lambda>i. valid i \<and> \<not> (l \<le> i \<and> i < h \<and> ?cut i))"
      using p by (intro ext, subst at) auto
    moreover have "filter (\<lambda>i. valid i \<and> ?cut i) [l..<h] = l # filter (\<lambda>i. valid i \<and> ?cut i) [Suc l..<h]"
      using p drop(1) by (simp add: u)
    ultimately show ?thesis using IH[of "valid(l := False)" "c + 1"] f by simp
  qed
qed

lemma RemovePreceding_all:
  assumes "kax_ok b k" "\<not> TransactionIdIsValid rx"
  shows "kax_list (KnownAssignedXidsRemovePreceding now prepared rx k) = []"
    and "kax_ok b (KnownAssignedXidsRemovePreceding now prepared rx k)"
  using assms by (simp_all add: KnownAssignedXidsRemovePreceding_def kax_list_def kax_ok_def)

lemma RemovePreceding_effect:
  assumes ok: "kax_ok b k" and rx: "in_window b rx"
  shows "kax_list (KnownAssignedXidsRemovePreceding now prepared rx k)
           = filter (\<lambda>x. \<not> kax_pruned prepared rx x) (kax_list k)"
    and "kax_ok b (KnownAssignedXidsRemovePreceding now prepared rx k)"
proof -
  let ?h = "headKnownAssignedXids k" and ?t = "tailKnownAssignedXids k"
  obtain valid c where pl: "kax_prune_loop prepared rx (KnownAssignedXids k) [?t..<?h] (KnownAssignedXidsValid k) 0
      = (valid, c)" by fastforce
  have srt: "kax_sorted b (KnownAssignedXids k) ?t ?h" "?t \<le> ?h" using ok by (auto simp: kax_ok_def)
  have v: "valid = (\<lambda>i. KnownAssignedXidsValid k i \<and> \<not> (?t \<le> i \<and> i < ?h \<and> kax_pruned prepared rx (KnownAssignedXids k i)))"
    and c: "c = int (length (filter (\<lambda>i. KnownAssignedXidsValid k i \<and> kax_pruned prepared rx (KnownAssignedXids k i)) [?t..<?h]))"
    using prune_loop_effect[OF srt(1) rx srt(2), of prepared "KnownAssignedXidsValid k" 0] pl by simp_all
  define k1 where "k1 = k\<lparr>KnownAssignedXidsValid := valid, numKnownAssignedXids := numKnownAssignedXids k - c\<rparr>"
  have l: "kax_list k1 = filter (\<lambda>x. \<not> kax_pruned prepared rx x) (kax_list k)"
    unfolding k1_def by (rule kax_invalidate_list) (auto simp: v)
  have "c = int (length (filter (kax_pruned prepared rx) (kax_list k)))"
    by (simp add: c kax_list_def filter_map comp_def conj_commute)
  then have "numKnownAssignedXids k - c = int (length (kax_list k1))"
    using ok sum_length_filter_compl[of "kax_pruned prepared rx" "kax_list k"] l
    by (simp add: kax_ok_def flip: of_nat_add)
  then have k1: "kax_ok b k1" using ok unfolding k1_def by (intro kax_invalidate_ok) auto
  let ?i = "kax_skip_invalid valid ?t ?h"
  have t1: "tailKnownAssignedXids k1 \<le> ?i" "?i \<le> headKnownAssignedXids k1"
      "\<forall>j. tailKnownAssignedXids k1 \<le> j \<longrightarrow> j < ?i \<longrightarrow> \<not> KnownAssignedXidsValid k1 j"
    using skip_invalid_spec[OF srt(2), of valid] by (simp_all add: k1_def)
  have val: "TransactionIdIsValid rx" using rx window_normal valid_of_normal by blast
  have eq: "KnownAssignedXidsRemovePreceding now prepared rx k
      = KnownAssignedXidsCompress now KAX_PRUNE (kax_drop_tail ?i k1)"
    using val by (simp add: KnownAssignedXidsRemovePreceding_def pl kax_drop_tail_def k1_def)
  show "kax_list (KnownAssignedXidsRemovePreceding now prepared rx k)
           = filter (\<lambda>x. \<not> kax_pruned prepared rx x) (kax_list k)"
    and "kax_ok b (KnownAssignedXidsRemovePreceding now prepared rx k)"
    unfolding eq using Compress_ok[OF kax_drop_tail_ok[OF k1 t1]] kax_drop_tail_list[OF t1] l by simp_all
qed

section \<open>Reading the array\<close>

lemma get_loop_eq:
  assumes "kax_sorted b (KnownAssignedXids k) l h" "l \<le> h"
  shows "kax_get_loop k xmax [l..<h] acc xmin =
     (let xs = map (KnownAssignedXids k) (filter (KnownAssignedXidsValid k) [l..<h])
      in (acc @ takeWhile (\<lambda>x. \<not> (TransactionIdIsValid xmax \<and> TransactionIdFollowsOrEquals x xmax)) xs,
          if acc = [] \<and> xs \<noteq> [] \<and> TransactionIdPrecedes (hd xs) xmin then hd xs else xmin))"
  using assms(2)
proof (induction arbitrary: acc xmin rule: inc_induct)
  case (step l)
  then show ?case by (simp add: upt_conv_Cons Let_def)
qed simp

lemma GetOldestXmin_eq: "KnownAssignedXidsGetOldestXmin k = (case kax_list k of [] \<Rightarrow> InvalidTransactionId | x # _ \<Rightarrow> x)"
  by (auto simp: KnownAssignedXidsGetOldestXmin_def kax_list_def split: list.splits)

lemma takeWhile_sorted:
  assumes "sorted_wrt TransactionIdPrecedes xs" "\<forall>x \<in> set xs. in_window b x" "in_window b xmax"
  shows "takeWhile (\<lambda>x. \<not> TransactionIdFollowsOrEquals x xmax) xs = filter (\<lambda>x. TransactionIdPrecedes x xmax) xs"
  using assms
proof (induction xs)
  case (Cons x xs)
  show ?case
  proof (cases "TransactionIdFollowsOrEquals x xmax")
    case False
    with Cons show ?thesis by (simp add: not_Precedes_iff[symmetric])
  next
    case True
    have "\<not> TransactionIdPrecedes y xmax" if "y \<in> set (x # xs)" for y
    proof -
      have "in_window b x" "in_window b y" "xid_pos b x \<le> xid_pos b y"
        using Cons.prems that by (auto simp: Precedes_window less_imp_le)
      with True Cons.prems(3) show ?thesis by (simp add: Precedes_window FollowsOrEquals_window)
    qed
    then have "filter (\<lambda>x. TransactionIdPrecedes x xmax) (x # xs) = []" by (simp only: filter_empty_conv) blast
    with True show ?thesis by (simp del: filter.simps)
  qed
qed simp

lemma GetAndSetXmin_effect:
  assumes "kax_ok b k" "in_window b xmax"
  shows "KnownAssignedXidsGetAndSetXmin k xmin xmax =
     (filter (\<lambda>x. TransactionIdPrecedes x xmax) (kax_list k),
      if kax_list k \<noteq> [] \<and> TransactionIdPrecedes (hd (kax_list k)) xmin then hd (kax_list k) else xmin)"
proof -
  have srt: "kax_sorted b (KnownAssignedXids k) (tailKnownAssignedXids k) (headKnownAssignedXids k)"
      "tailKnownAssignedXids k \<le> headKnownAssignedXids k"
    using assms(1) by (auto simp: kax_ok_def)
  have "TransactionIdIsValid xmax" using assms(2) window_normal valid_of_normal by blast
  then show ?thesis
    using takeWhile_sorted[OF kax_list_sorted[OF assms(1)] _ assms(2)] kax_list_window[OF assms(1)]
    by (simp add: KnownAssignedXidsGetAndSetXmin_def get_loop_eq[OF srt] Let_def flip: kax_list_def)
qed

section \<open>Properties\<close>

text \<open>A small array with a gap, for the concrete instances.\<close>

definition sample_kax :: kax_state where
  "sample_kax = \<lparr>KnownAssignedXids = (\<lambda>i. [5, 6, 7] ! i), KnownAssignedXidsValid = (\<lambda>i. i \<noteq> 1),
     maxKnownAssignedXids = 4, numKnownAssignedXids = 2, tailKnownAssignedXids = 0,
     headKnownAssignedXids = 3, transactionEndsCounter = 0, lastCompressTs = 0\<rparr>"

lemma sample_kax_list: "kax_list sample_kax = [5, 7]"
  by (simp add: kax_list_def sample_kax_def upt_rec)

lemma sample_window: "in_window 3 5" "in_window 3 6" "in_window 3 7" "in_window 3 8" "in_window 3 9"
  by (simp_all add: in_window_def xid_pos_def TransactionIdIsNormal_def FirstNormalTransactionId_def)

lemma sample_kax_ok: "kax_ok 3 sample_kax"
proof -
  have "in_window 3 ([5, 6, 7] ! i)" if "i < 3" for i
    using that sample_window by (auto simp: less_Suc_eq numeral_3_eq_3)
  moreover have "TransactionIdPrecedes ([5, 6, 7] ! i) ([5, 6, 7] ! j)" if "i < j" "j < 3" for i j
  proof -
    have "TransactionIdPrecedes 5 6" "TransactionIdPrecedes 5 7" "TransactionIdPrecedes 6 7" by code_simp+
    then show ?thesis using that by (auto simp: less_Suc_eq numeral_3_eq_3)
  qed
  ultimately have "kax_sorted 3 (\<lambda>i. [5, 6, 7] ! i) 0 3" by (simp add: kax_sorted_def sorted_range_def)
  then show ?thesis using sample_kax_list by (simp add: kax_ok_def) (simp add: sample_kax_def)
qed



text \<open>
  C20.  \<^verbatim>\<open>KnownAssignedXidsSearch\<close>, the bisection over valid and invalid entries, answers whether the id
  is in the list; as a search it changes nothing, and with \<^verbatim>\<open>remove\<close> it takes exactly that id out.
\<close>

theorem KnownAssignedXidsSearch_correct:
  assumes "kax_ok b k" "in_window b xid"
  shows "(fst (KnownAssignedXidsSearch xid remove k) \<longleftrightarrow> xid \<in> set (kax_list k))
       \<and> snd (KnownAssignedXidsSearch xid False k) = k
       \<and> kax_list (snd (KnownAssignedXidsSearch xid True k)) = filter (\<lambda>y. y \<noteq> xid) (kax_list k)
       \<and> kax_ok b (snd (KnownAssignedXidsSearch xid True k))"
proof -
  have "snd (KnownAssignedXidsSearch xid False k) = k"
    by (auto simp: KnownAssignedXidsSearch_def Let_def split: option.splits)
  then show ?thesis
    using Search_lookup[OF assms] kax_Remove_effect[OF assms] by (simp add: KnownAssignedXidsRemove_def)
qed

theorem KnownAssignedXidsSearch_correct_witness:
  "(fst (KnownAssignedXidsSearch 6 True sample_kax) \<longleftrightarrow> 6 \<in> set (kax_list sample_kax))
   \<and> kax_list (snd (KnownAssignedXidsSearch 5 True sample_kax)) = [7]"
  using KnownAssignedXidsSearch_correct[OF sample_kax_ok sample_window(2), of True]
    KnownAssignedXidsSearch_correct[OF sample_kax_ok sample_window(1), of True]
  by (simp add: sample_kax_list)

text \<open>
  C31.  \<^verbatim>\<open>KnownAssignedXidsRemoveTree\<close> takes out the top-level id and the subtransactions of a finished
  transaction, whether or not it also compresses the array, and keeps the invariant.
\<close>

theorem KnownAssignedXidsRemoveTree_correct:
  assumes "kax_ok b k" "in_window b xid" "\<forall>x \<in> set subxids. in_window b x"
  shows "kax_list (KnownAssignedXidsRemoveTree now xid subxids k)
           = filter (\<lambda>y. y \<noteq> xid \<and> y \<notin> set subxids) (kax_list k)
       \<and> kax_ok b (KnownAssignedXidsRemoveTree now xid subxids k)"
  using RemoveTree_effect[OF assms(1) _ assms(3)] assms(2) by blast

theorem KnownAssignedXidsRemoveTree_correct_witness:
  "kax_list (KnownAssignedXidsRemoveTree 0 5 [6] sample_kax) = [7]
   \<and> kax_ok 3 (KnownAssignedXidsRemoveTree 0 5 [6] sample_kax)"
  using KnownAssignedXidsRemoveTree_correct[OF sample_kax_ok sample_window(1), of "[6]" 0] sample_window(2)
  by (simp add: sample_kax_list)

text \<open>
  C32.  \<^verbatim>\<open>KnownAssignedXidsRemovePreceding\<close> removes exactly the ids before \<^verbatim>\<open>removeXid\<close> that do not belong
  to a prepared transaction, although it stops at the first valid entry that is not older.
\<close>

theorem KnownAssignedXidsRemovePreceding_correct:
  assumes "kax_ok b k" "in_window b removeXid"
  shows "kax_list (KnownAssignedXidsRemovePreceding now prepared removeXid k)
           = filter (\<lambda>x. \<not> TransactionIdPrecedes x removeXid \<or> prepared x) (kax_list k)
       \<and> kax_ok b (KnownAssignedXidsRemovePreceding now prepared removeXid k)"
  using RemovePreceding_effect[OF assms] by (simp add: kax_pruned_def)

theorem KnownAssignedXidsRemovePreceding_correct_witness:
  "kax_list (KnownAssignedXidsRemovePreceding 0 (\<lambda>x. x = 5) 8 sample_kax) = [5]
   \<and> kax_ok 3 (KnownAssignedXidsRemovePreceding 0 (\<lambda>x. x = 5) 8 sample_kax)"
proof -
  have "TransactionIdPrecedes 7 8" by code_simp
  then show ?thesis
    using KnownAssignedXidsRemovePreceding_correct[OF sample_kax_ok sample_window(4), of 0 "\<lambda>x. x = 5"]
    by (simp add: sample_kax_list)
qed

text \<open>
  C33.  \<^verbatim>\<open>KnownAssignedXidsGetAndSetXmin\<close> returns all listed ids before \<^verbatim>\<open>xmax\<close>, and an \<^verbatim>\<open>xmin\<close> that is no
  later than the given one and than any listed id.
\<close>

theorem KnownAssignedXidsGetAndSetXmin_correct:
  assumes "kax_ok b k" "in_window b xmax" "in_window b xmin"
  shows "\<exists>xmin'. KnownAssignedXidsGetAndSetXmin k xmin xmax
             = (filter (\<lambda>x. TransactionIdPrecedes x xmax) (kax_list k), xmin')
       \<and> xmin' \<in> insert xmin (set (kax_list k))
       \<and> (\<forall>x \<in> insert xmin (set (kax_list k)). TransactionIdPrecedesOrEquals xmin' x)"
proof (cases "kax_list k")
  case Nil
  then show ?thesis using assms(3) by (simp add: GetAndSetXmin_effect[OF assms(1,2)] PrecedesOrEquals_window)
next
  case (Cons y ys)
  have win: "in_window b x" if "x \<in> set (y # ys)" for x using kax_list_window[OF assms(1)] that Cons by simp
  have first: "xid_pos b y \<le> xid_pos b x" if "x \<in> set (y # ys)" for x
  proof (cases "x = y")
    case False
    then have "TransactionIdPrecedes y x" using kax_list_sorted[OF assms(1)] that by (simp add: Cons)
    then show ?thesis using win[of y] win[OF that] by (simp add: Precedes_window)
  qed simp
  let ?x = "if TransactionIdPrecedes y xmin then y else xmin"
  have "xid_pos b ?x \<le> xid_pos b y" "xid_pos b ?x \<le> xid_pos b xmin" "in_window b ?x"
    using win[of y] assms(3) by (auto simp: Precedes_window)
  then have "\<forall>x \<in> insert xmin (set (y # ys)). TransactionIdPrecedesOrEquals ?x x"
    using first win assms(3) by (metis PrecedesOrEquals_window insert_iff order_trans)
  then show ?thesis by (auto simp: GetAndSetXmin_effect[OF assms(1,2)] Cons)
qed

theorem KnownAssignedXidsGetAndSetXmin_correct_witness:
  "\<exists>xmin'. KnownAssignedXidsGetAndSetXmin sample_kax 8 8
        = (filter (\<lambda>x. TransactionIdPrecedes x 8) (kax_list sample_kax), xmin')
     \<and> xmin' \<in> insert 8 (set (kax_list sample_kax))
     \<and> (\<forall>x \<in> insert 8 (set (kax_list sample_kax)). TransactionIdPrecedesOrEquals xmin' x)"
  by (rule KnownAssignedXidsGetAndSetXmin_correct[OF sample_kax_ok sample_window(4,4)])

end
