(* ===== verification/Varsup.thy ===== *)
theory Varsup
  imports Xid
begin

text \<open>
  \<^verbatim>\<open>src/backend/access/transam/varsup.c\<close>: the shared id and OID counters, the wraparound limits and the
  check that \<^verbatim>\<open>GetNewTransactionId\<close> makes before it assigns an id.  The part of that function that
  enters the id into the process array is in the theory of the process array.
\<close>

section \<open>Shared variables\<close>

record TransamVariablesData =
  nextOid :: Oid
  oidCount :: uint32
  nextXid :: FullTransactionId
  oldestXid :: TransactionId
  xidVacLimit :: TransactionId
  xidWarnLimit :: TransactionId
  xidStopLimit :: TransactionId
  xidWrapLimit :: TransactionId
  oldestXidDB :: Oid
  oldestCommitTsXid :: TransactionId
  newestCommitTsXid :: TransactionId
  latestCompletedXid :: FullTransactionId
  xactCompletionCount :: uint64
  oldestClogXid :: TransactionId

text \<open>Signals to the postmaster and warnings, with the number of ids left.\<close>

datatype xid_message = StartAutovacLauncher | WarnWraparound uint32

definition FirstGenbkiObjectId :: Oid where
  "FirstGenbkiObjectId = 10000"

definition FirstUnpinnedObjectId :: Oid where
  "FirstUnpinnedObjectId = 12000"

definition FirstNormalObjectId :: Oid where
  "FirstNormalObjectId = 16384"

definition VAR_OID_PREFETCH :: uint32 where
  "VAR_OID_PREFETCH = 8192"

lemmas oid_consts = FirstGenbkiObjectId_def FirstUnpinnedObjectId_def FirstNormalObjectId_def VAR_OID_PREFETCH_def

section \<open>Transaction ids\<close>

text \<open>
  The protection against wraparound in \<^verbatim>\<open>GetNewTransactionId\<close>, for the id read under the lock: whether
  the lock is released, the messages and the error raised.  The name of the database only enters
  the message text.
\<close>

definition xid_limit_check ::
    "bool \<Rightarrow> TransactionId \<Rightarrow> TransamVariablesData \<Rightarrow> bool \<times> xid_message list \<times> pg_error option" where
  "xid_limit_check IsUnderPostmaster xid tv =
     (if TransactionIdFollowsOrEquals xid (xidVacLimit tv)
      then let signal = (if IsUnderPostmaster \<and> xid mod 65536 = 0 then [StartAutovacLauncher] else [])
           in if IsUnderPostmaster \<and> TransactionIdFollowsOrEquals xid (xidStopLimit tv)
              then (True, signal, Some (ErrXidWraparound (oldestXidDB tv)))
              else if TransactionIdFollowsOrEquals xid (xidWarnLimit tv)
              then (True, signal @ [WarnWraparound (xidWrapLimit tv - xid)], None)
              else (True, signal, None)
      else (False, [], None))"

definition ReadNextFullTransactionId :: "TransamVariablesData \<Rightarrow> FullTransactionId" where
  "ReadNextFullTransactionId tv = nextXid tv"

definition AdvanceNextFullTransactionIdPastXid ::
    "TransactionId \<Rightarrow> TransamVariablesData \<Rightarrow> TransamVariablesData" where
  "AdvanceNextFullTransactionIdPastXid xid tv =
     (let next_xid = XidFromFullTransactionId (nextXid tv)
      in if \<not> TransactionIdFollowsOrEquals xid next_xid then tv
         else let xid = TransactionIdAdvance xid;
                  epoch = EpochFromFullTransactionId (nextXid tv);
                  epoch = (if xid < next_xid then epoch + 1 else epoch)
              in tv\<lparr>nextXid := FullTransactionIdFromEpochAndXid epoch xid\<rparr>)"

definition AdvanceOldestClogXid :: "TransactionId \<Rightarrow> TransamVariablesData \<Rightarrow> TransamVariablesData" where
  "AdvanceOldestClogXid oldest_datfrozenxid tv =
     (if TransactionIdPrecedes (oldestClogXid tv) oldest_datfrozenxid
      then tv\<lparr>oldestClogXid := oldest_datfrozenxid\<rparr> else tv)"

definition SetTransactionIdLimit ::
    "uint32 \<Rightarrow> bool \<Rightarrow> bool \<Rightarrow> TransactionId \<Rightarrow> Oid \<Rightarrow> TransamVariablesData
     \<Rightarrow> xid_message list \<times> TransamVariablesData" where
  "SetTransactionIdLimit autovacuum_freeze_max_age IsUnderPostmaster InRecovery
       oldest_datfrozenxid oldest_datoid tv =
     (let wrap = oldest_datfrozenxid + drop_bit 1 MaxTransactionId;
          wrap = (if wrap < FirstNormalTransactionId then wrap + FirstNormalTransactionId else wrap);
          stop = wrap - 3000000;
          stop = (if stop < FirstNormalTransactionId then stop - FirstNormalTransactionId else stop);
          warn = wrap - 40000000;
          warn = (if warn < FirstNormalTransactionId then warn - FirstNormalTransactionId else warn);
          vac = oldest_datfrozenxid + autovacuum_freeze_max_age;
          vac = (if vac < FirstNormalTransactionId then vac + FirstNormalTransactionId else vac);
          tv = tv\<lparr>oldestXid := oldest_datfrozenxid, xidVacLimit := vac, xidWarnLimit := warn,
                 xidStopLimit := stop, xidWrapLimit := wrap, oldestXidDB := oldest_datoid\<rparr>;
          curXid = XidFromFullTransactionId (nextXid tv);
          signal = (if TransactionIdFollowsOrEquals curXid vac \<and> IsUnderPostmaster \<and> \<not> InRecovery
                    then [StartAutovacLauncher] else []);
          warning = (if TransactionIdFollowsOrEquals curXid warn \<and> \<not> InRecovery
                     then [WarnWraparound (wrap - curXid)] else [])
      in (signal @ warning, tv))"

text \<open>\<^verbatim>\<open>SearchSysCacheExists1(DATABASEOID, \<dots>)\<close> is the parameter \<open>database_exists\<close>.\<close>

definition ForceTransactionIdLimitUpdate :: "(Oid \<Rightarrow> bool) \<Rightarrow> TransamVariablesData \<Rightarrow> bool" where
  "ForceTransactionIdLimitUpdate database_exists tv =
     (if \<not> TransactionIdIsNormal (oldestXid tv) then True
      else if \<not> TransactionIdIsValid (xidVacLimit tv) then True
      else if TransactionIdFollowsOrEquals (XidFromFullTransactionId (nextXid tv)) (xidVacLimit tv) then True
      else if \<not> database_exists (oldestXidDB tv) then True
      else False)"

section \<open>OIDs\<close>

text \<open>The result carries the OID passed to \<^verbatim>\<open>XLogPutNextOid\<close>, if the call logs one.\<close>

definition GetNewObjectId ::
    "bool \<Rightarrow> bool \<Rightarrow> TransamVariablesData \<Rightarrow> pg_error + (Oid \<times> Oid option \<times> TransamVariablesData)" where
  "GetNewObjectId RecoveryInProgress IsPostmasterEnvironment tv =
     (if RecoveryInProgress then Inl ErrRecoveryOid
      else
        let tv = (if nextOid tv < FirstNormalObjectId
                  then if IsPostmasterEnvironment
                       then tv\<lparr>nextOid := FirstNormalObjectId, oidCount := 0\<rparr>
                       else if nextOid tv < FirstGenbkiObjectId
                       then tv\<lparr>nextOid := FirstNormalObjectId, oidCount := 0\<rparr>
                       else tv
                  else tv);
            (logged, tv) = (if oidCount tv = 0
                  then (Some (nextOid tv + VAR_OID_PREFETCH), tv\<lparr>oidCount := VAR_OID_PREFETCH\<rparr>)
                  else (None, tv));
            result = nextOid tv;
            tv = tv\<lparr>nextOid := nextOid tv + 1, oidCount := oidCount tv - 1\<rparr>
        in Inr (result, logged, tv))"

definition SetNextObjectId ::
    "bool \<Rightarrow> Oid \<Rightarrow> TransamVariablesData \<Rightarrow> pg_error + TransamVariablesData" where
  "SetNextObjectId IsPostmasterEnvironment next tv =
     (if IsPostmasterEnvironment then Inl ErrOidAdvance
      else if nextOid tv > next then Inl (ErrOidTooLate next (nextOid tv))
      else Inr (tv\<lparr>nextOid := next, oidCount := 0\<rparr>))"

definition StopGeneratingPinnedObjectIds ::
    "bool \<Rightarrow> TransamVariablesData \<Rightarrow> pg_error + TransamVariablesData" where
  "StopGeneratingPinnedObjectIds IsPostmasterEnvironment tv =
     SetNextObjectId IsPostmasterEnvironment FirstUnpinnedObjectId tv"

section \<open>The limits\<close>

lemma limit_up:
  fixes b c :: uint32
  assumes "unat c + 3 < 4294967296"
  defines "x \<equiv> b + c"
  defines "l \<equiv> (if x < FirstNormalTransactionId then x + FirstNormalTransactionId else x)"
  shows "TransactionIdIsNormal l" "xid_pos b l = unat c \<or> xid_pos b l = unat c + 3"
proof -
  show "TransactionIdIsNormal l"
  proof (cases "x < FirstNormalTransactionId")
    case True
    then have "unat x < 3" by (simp add: FirstNormalTransactionId_def word_less_nat_alt)
    then have "unat (x + 3) = unat x + 3" by (simp add: unat_add_mod32)
    then show ?thesis using True
      by (simp add: l_def TransactionIdIsNormal_def FirstNormalTransactionId_def word_le_nat_alt)
  qed (auto simp: l_def TransactionIdIsNormal_def not_less)
  have "unat (c + 3) = unat c + 3" using assms(1) by (simp add: unat_add_mod32)
  moreover have x: "x + 3 - b = c + 3" "x - b = c" by (simp_all add: x_def)
  ultimately have "xid_pos b (x + 3) = unat c + 3" "xid_pos b x = unat c"
    by (simp_all only: xid_pos_def x)
  then show "xid_pos b l = unat c \<or> xid_pos b l = unat c + 3"
    by (auto simp: l_def FirstNormalTransactionId_def)
qed

lemma limit_down:
  fixes b w c :: uint32
  assumes "unat c + 3 \<le> xid_pos b w"
  defines "x \<equiv> w - c"
  defines "l \<equiv> (if x < FirstNormalTransactionId then x - FirstNormalTransactionId else x)"
  shows "TransactionIdIsNormal l" "xid_pos b l = xid_pos b w - unat c \<or> xid_pos b l = xid_pos b w - unat c - 3"
proof -
  show "TransactionIdIsNormal l"
  proof (cases "x < FirstNormalTransactionId")
    case True
    then have "unat x < 3" by (simp add: FirstNormalTransactionId_def word_less_nat_alt)
    then have "unat x = unat (0::uint32) \<or> unat x = unat (1::uint32) \<or> unat x = unat (2::uint32)"
      by (simp del: unat_0_iff) presburger
    then have "x = 0 \<or> x = 1 \<or> x = 2" by (simp only: word_unat_eq_iff)
    then show ?thesis using True
      by (auto simp: l_def TransactionIdIsNormal_def FirstNormalTransactionId_def)
  qed (auto simp: l_def TransactionIdIsNormal_def not_less)
  have "unat ((w - b) - c) = unat (w - b) - unat c"
    using assms(1) by (intro unat_sub) (simp add: xid_pos_def word_le_nat_alt)
  moreover from this have "unat ((w - b) - c - 3) = unat (w - b) - unat c - 3"
    using assms(1) by (subst unat_sub) (simp_all add: xid_pos_def word_le_nat_alt)
  moreover have "x - 3 - b = (w - b) - c - 3" "x - b = (w - b) - c" by (simp_all add: x_def)
  ultimately show "xid_pos b l = xid_pos b w - unat c \<or> xid_pos b l = xid_pos b w - unat c - 3"
    by (simp only: l_def xid_pos_def FirstNormalTransactionId_def split: if_split) auto
qed


text \<open>What every reader of the limits relies on: their order, counted from the horizon.\<close>

definition limits_ok :: "TransamVariablesData \<Rightarrow> bool" where
  "limits_ok tv \<longleftrightarrow> TransactionIdIsNormal (oldestXid tv)
     \<and> in_window (oldestXid tv) (xidVacLimit tv)
     \<and> in_window (oldestXid tv) (xidWarnLimit tv)
     \<and> in_window (oldestXid tv) (xidStopLimit tv)
     \<and> xid_pos (oldestXid tv) (xidVacLimit tv) \<le> 2000000003
     \<and> xid_pos (oldestXid tv) (xidVacLimit tv) < xid_pos (oldestXid tv) (xidWarnLimit tv)
     \<and> xid_pos (oldestXid tv) (xidWarnLimit tv) + 36999990 \<le> xid_pos (oldestXid tv) (xidStopLimit tv)
     \<and> xid_pos (oldestXid tv) (xidStopLimit tv) + 3000000 \<le> xid_pos (oldestXid tv) (xidWrapLimit tv)
     \<and> xid_pos (oldestXid tv) (xidStopLimit tv) \<le> 2144483650
     \<and> 2147483647 \<le> xid_pos (oldestXid tv) (xidWrapLimit tv)"

lemma half_max: "drop_bit 1 MaxTransactionId = 2147483647"
  by (simp add: MaxTransactionId_def)

lemma SetLimit_ok:
  assumes "TransactionIdIsNormal oldest" "unat max_age \<le> 2000000000"
  shows "limits_ok (snd (SetTransactionIdLimit max_age up ri oldest db tv))"
proof -
  define wrap where "wrap = (let x = oldest + drop_bit 1 MaxTransactionId
     in if x < FirstNormalTransactionId then x + FirstNormalTransactionId else x)"
  define stop where "stop = (let x = wrap - 3000000
     in if x < FirstNormalTransactionId then x - FirstNormalTransactionId else x)"
  define warn where "warn = (let x = wrap - 40000000
     in if x < FirstNormalTransactionId then x - FirstNormalTransactionId else x)"
  define vac where "vac = (let x = oldest + max_age
     in if x < FirstNormalTransactionId then x + FirstNormalTransactionId else x)"
  have w: "xid_pos oldest wrap = 2147483647 \<or> xid_pos oldest wrap = 2147483650"
    using limit_up(2)[of 2147483647 oldest] unfolding wrap_def half_max Let_def by simp
  have s: "TransactionIdIsNormal stop"
    "xid_pos oldest stop = xid_pos oldest wrap - 3000000 \<or> xid_pos oldest stop = xid_pos oldest wrap - 3000003"
    using limit_down[of 3000000 oldest wrap] w by (auto simp: stop_def Let_def)
  have r: "TransactionIdIsNormal warn"
    "xid_pos oldest warn = xid_pos oldest wrap - 40000000 \<or> xid_pos oldest warn = xid_pos oldest wrap - 40000003"
    using limit_down[of 40000000 oldest wrap] w by (auto simp: warn_def Let_def)
  have v: "TransactionIdIsNormal vac" "xid_pos oldest vac \<le> 2000000003"
    using limit_up[of max_age oldest] assms(2) by (auto simp: vac_def Let_def)
  have "snd (SetTransactionIdLimit max_age up ri oldest db tv)
     = tv\<lparr>oldestXid := oldest, xidVacLimit := vac, xidWarnLimit := warn,
          xidStopLimit := stop, xidWrapLimit := wrap, oldestXidDB := db\<rparr>"
    by (simp add: SetTransactionIdLimit_def wrap_def stop_def warn_def vac_def Let_def)
  then show ?thesis
    using w s r v assms(1) by (auto simp: limits_ok_def in_window_def)
qed

section \<open>The protection against wraparound as a transition system\<close>

text \<open>
  Under the postmaster, the backends that assign ids and the one that moves the horizon.  A state
  is the shared variables and the number of backends that have passed the check and released the
  lock; there are at most \<open>nbackends\<close> of them, and a backend that took the lock again assigns the
  id it then reads without checking it.  The counter stays below its 64-bit end.
\<close>

definition counter_ok :: "TransamVariablesData \<Rightarrow> bool" where
  "counter_ok tv \<longleftrightarrow> 3 \<le> uint (fxid_value (nextXid tv))
     \<and> uint (fxid_value (nextXid tv)) + 4 < 18446744073709551616
     \<and> TransactionIdIsNormal (XidFromFullTransactionId (nextXid tv))"

definition assign_next :: "TransamVariablesData \<Rightarrow> TransamVariablesData" where
  "assign_next tv = tv\<lparr>nextXid := FullTransactionIdAdvance (nextXid tv)\<rparr>"

inductive xid_alloc ::
    "uint32 \<Rightarrow> nat \<Rightarrow> TransamVariablesData \<times> nat \<Rightarrow> TransamVariablesData \<times> nat \<Rightarrow> bool"
  for max_age :: uint32 and nbackends :: nat where
  fast: "xid_limit_check True (XidFromFullTransactionId (nextXid tv)) tv = (False, msgs, None) \<Longrightarrow>
    counter_ok tv \<Longrightarrow> xid_alloc max_age nbackends (tv, p) (assign_next tv, p)"
| release: "xid_limit_check True (XidFromFullTransactionId (nextXid tv)) tv = (True, msgs, None) \<Longrightarrow>
    p < nbackends \<Longrightarrow> xid_alloc max_age nbackends (tv, p) (tv, Suc p)"
| resume: "counter_ok tv \<Longrightarrow> xid_alloc max_age nbackends (tv, Suc p) (assign_next tv, p)"
| horizon: "TransactionIdIsNormal oldest \<Longrightarrow>
    xid_pos (oldestXid tv) oldest \<le> xid_pos (oldestXid tv) (XidFromFullTransactionId (nextXid tv)) \<Longrightarrow>
    xid_alloc max_age nbackends (tv, p) (snd (SetTransactionIdLimit max_age True ri oldest db tv), p)"

inductive_cases xid_allocE: "xid_alloc max_age nbackends s s'"

definition alloc_inv :: "nat \<Rightarrow> TransamVariablesData \<times> nat \<Rightarrow> bool" where
  "alloc_inv nbackends = (\<lambda>(tv, p). limits_ok tv \<and> p \<le> nbackends
     \<and> TransactionIdIsNormal (XidFromFullTransactionId (nextXid tv))
     \<and> xid_pos (oldestXid tv) (XidFromFullTransactionId (nextXid tv)) \<le> 2144483650 + 4 * (nbackends - p))"

lemma Advance_pos_le:
  assumes "xid_pos b a + 4 < 4294967296"
  shows "xid_pos b (TransactionIdAdvance a) \<le> xid_pos b a + 4"
proof (cases "a + 1 < FirstNormalTransactionId")
  case False
  have "unat ((a - b) + 1) = unat (a - b) + 1"
    using assms by (simp add: unat_add_mod32 xid_pos_def)
  moreover have "a + 1 - b = (a - b) + 1" by simp
  ultimately have "xid_pos b (a + 1) = xid_pos b a + 1" by (simp only: xid_pos_def)
  then show ?thesis using False by (simp add: TransactionIdAdvance_def Let_def)
next
  case True
  then have c: "a + 1 \<le> 3" by (simp add: FirstNormalTransactionId_def)
  define d where "d = 3 - (a + 1)"
  have d: "unat d \<le> 3"
    using unat_sub[OF c] by (simp only: d_def) simp
  have "3 - b = (a - b) + 1 + d" by (simp add: d_def)
  moreover have "unat ((a - b) + 1 + d) = unat (a - b) + 1 + unat d"
    using assms d by (simp add: unat_add_mod32 xid_pos_def)
  ultimately have "xid_pos b 3 = xid_pos b a + 1 + unat d" by (simp only: xid_pos_def)
  then show ?thesis using True d
    by (simp add: TransactionIdAdvance_def Let_def FirstNormalTransactionId_def)
qed

lemma assign_next_xid:
  assumes "counter_ok tv"
  shows "XidFromFullTransactionId (nextXid (assign_next tv)) = TransactionIdAdvance (XidFromFullTransactionId (nextXid tv))"
  using FullAdvance_next(4)[of "nextXid tv"] assms by (simp add: assign_next_def counter_ok_def)

lemma assign_next_sel [simp]:
  "oldestXid (assign_next tv) = oldestXid tv" "xidVacLimit (assign_next tv) = xidVacLimit tv"
  "xidWarnLimit (assign_next tv) = xidWarnLimit tv" "xidStopLimit (assign_next tv) = xidStopLimit tv"
  "xidWrapLimit (assign_next tv) = xidWrapLimit tv" "limits_ok (assign_next tv) = limits_ok tv"
  by (simp_all add: assign_next_def limits_ok_def)

lemma SetLimit_sel [simp]:
  "nextXid (snd (SetTransactionIdLimit max_age up ri oldest db tv)) = nextXid tv"
  "oldestXid (snd (SetTransactionIdLimit max_age up ri oldest db tv)) = oldest"
  by (simp_all add: SetTransactionIdLimit_def Let_def)

lemma limit_check_pass:
  assumes "limits_ok tv" "in_window (oldestXid tv) xid"
  shows "xid_limit_check True xid tv = (False, msgs, None) \<Longrightarrow> xid_pos (oldestXid tv) xid < 2000000003"
    and "xid_limit_check True xid tv = (True, msgs, None) \<Longrightarrow> xid_pos (oldestXid tv) xid < 2144483650"
proof -
  have cmp: "TransactionIdFollowsOrEquals xid y \<longleftrightarrow> xid_pos (oldestXid tv) y \<le> xid_pos (oldestXid tv) xid"
    if "in_window (oldestXid tv) y" for y
    using FollowsOrEquals_window[OF assms(2) that] .
  show "xid_limit_check True xid tv = (False, msgs, None) \<Longrightarrow> xid_pos (oldestXid tv) xid < 2000000003"
    using assms(1) cmp[of "xidVacLimit tv"]
    by (auto simp: xid_limit_check_def limits_ok_def Let_def split: if_splits)
  show "xid_limit_check True xid tv = (True, msgs, None) \<Longrightarrow> xid_pos (oldestXid tv) xid < 2144483650"
    using assms(1) cmp[of "xidStopLimit tv"]
    by (auto simp: xid_limit_check_def limits_ok_def Let_def split: if_splits)
qed

lemma alloc_inv_window:
  assumes "alloc_inv nbackends (tv, p)" "nbackends \<le> 262143"
  shows "in_window (oldestXid tv) (XidFromFullTransactionId (nextXid tv))"
  using assms by (auto simp: alloc_inv_def in_window_def)

lemma alloc_inv_step:
  assumes "xid_alloc max_age nbackends s s'" "alloc_inv nbackends s"
    and "nbackends \<le> 262143" "unat max_age \<le> 2000000000"
  shows "alloc_inv nbackends s'"
  using assms(1)
proof cases
  case (fast tv msgs p)
  have "xid_pos (oldestXid tv) (XidFromFullTransactionId (nextXid tv)) < 2000000003"
    using limit_check_pass(1)[OF _ alloc_inv_window[of nbackends tv p] fast(3)] assms(2,3) fast(1)
    by (simp add: alloc_inv_def)
  then show ?thesis
    using assms(2) fast Advance_pos_le[of "oldestXid tv" "XidFromFullTransactionId (nextXid tv)"]
    by (simp add: alloc_inv_def assign_next_xid Advance_normal)
next
  case (release tv msgs p)
  have "xid_pos (oldestXid tv) (XidFromFullTransactionId (nextXid tv)) < 2144483650"
    using limit_check_pass(2)[OF _ alloc_inv_window[of nbackends tv p] release(3)] assms(2,3) release(1)
    by (simp add: alloc_inv_def)
  then show ?thesis
    using assms(2) release by (simp add: alloc_inv_def)
next
  case (resume tv p)
  moreover have "xid_pos (oldestXid tv) (XidFromFullTransactionId (nextXid tv)) + 4 < 4294967296"
    "4 * (nbackends - Suc p) + 4 = 4 * (nbackends - p)"
    using assms(2,3) resume(1) by (auto simp: alloc_inv_def)
  ultimately show ?thesis
    using assms(2) Advance_pos_le[of "oldestXid tv" "XidFromFullTransactionId (nextXid tv)"]
    by (simp add: alloc_inv_def assign_next_xid Advance_normal)
next
  case (horizon oldest tv p ri db)
  then show ?thesis
    using assms(2,4) SetLimit_ok[of oldest max_age True ri db tv]
      xid_pos_diff[of "oldestXid tv" oldest "XidFromFullTransactionId (nextXid tv)"]
    by (auto simp: alloc_inv_def)
qed


lemma AdvancePast_full:
  assumes nx: "TransactionIdIsNormal (XidFromFullTransactionId (nextXid tv))" "3 \<le> uint (fxid_value (nextXid tv))"
    and f: "TransactionIdIsNormal (XidFromFullTransactionId f)" "3 \<le> uint (fxid_value f)"
      "uint (fxid_value f) + 4 < 18446744073709551616"
    and near: "\<bar>uint (fxid_value f) - uint (fxid_value (nextXid tv))\<bar> < 2147483648"
  shows "AdvanceNextFullTransactionIdPastXid (XidFromFullTransactionId f) tv
     = tv\<lparr>nextXid := FullTransactionIdNewer (nextXid tv) (FullTransactionIdAdvance f)\<rparr>"
proof (cases "FullTransactionIdPrecedes f (nextXid tv)")
  case True
  then have "\<not> FullTransactionIdPrecedes (nextXid tv) (FullTransactionIdAdvance f)"
    using FullAdvance_next(3)[of f "nextXid tv"] f nx by auto
  then have "FullTransactionIdNewer (nextXid tv) (FullTransactionIdAdvance f) = nextXid tv"
    using f nx valid_of_normal[OF nx(1)]
    by (auto simp: FullTransactionIdNewer_def FullTransactionIdIsValid_def FullTransactionIdFollows_def
        FullTransactionIdPrecedes_def intro: FullTransactionId.equality)
  moreover have "\<not> TransactionIdFollowsOrEquals (XidFromFullTransactionId f) (XidFromFullTransactionId (nextXid tv))"
    using True Precedes_full[OF near f(1) nx(1)] by (simp flip: not_Precedes_iff)
  ultimately show ?thesis by (simp add: AdvanceNextFullTransactionIdPastXid_def Let_def)
next
  case False
  let ?a = "FullTransactionIdAdvance f"
  define A where "A = uint (fxid_value ?a)"
  define N where "N = uint (fxid_value (nextXid tv))"
  have A: "XidFromFullTransactionId ?a = TransactionIdAdvance (XidFromFullTransactionId f)" "uint (fxid_value f) < A"
    "A \<le> uint (fxid_value f) + 4"
    using FullAdvance_next(2,4)[of f] uint_FullAdvance[of f] f
    by (auto simp: A_def FullTransactionIdPrecedes_def word_less_def Let_def split: if_splits)
  have N: "N < A" "A - N < 4294967296"
    using A near False by (auto simp: N_def FullTransactionIdPrecedes_def word_less_def)
  have "TransactionIdFollowsOrEquals (XidFromFullTransactionId f) (XidFromFullTransactionId (nextXid tv))"
    using False Precedes_full[OF near f(1) nx(1)] by (simp flip: not_Precedes_iff)
  moreover have "FullTransactionIdNewer (nextXid tv) ?a = ?a"
    using N valid_of_normal[OF FullAdvance_next(1)[of f]] f
    by (auto simp: FullTransactionIdNewer_def FullTransactionIdFollows_def word_less_def A_def N_def
        FullTransactionIdIsValid_def)
  moreover have "FullTransactionIdFromEpochAndXid
      (if XidFromFullTransactionId ?a < XidFromFullTransactionId (nextXid tv)
       then EpochFromFullTransactionId (nextXid tv) + 1 else EpochFromFullTransactionId (nextXid tv))
      (XidFromFullTransactionId ?a) = ?a"
  proof (rule full_eqI)
    have epoch: "0 \<le> A div 4294967296" "A div 4294967296 < 4294967296"
      using uint_bounded[of "fxid_value ?a"] by (simp_all add: A_def pos_imp_zdiv_nonneg_iff)
    have "uint (XidFromFullTransactionId ?a) = A mod 4294967296"
      "uint (XidFromFullTransactionId (nextXid tv)) = N mod 4294967296"
      "uint (EpochFromFullTransactionId (nextXid tv)) = N div 4294967296"
      by (simp_all add: uint_XidFromFull uint_Epoch A_def N_def)
    moreover have "uint (EpochFromFullTransactionId (nextXid tv) + 1) = N div 4294967296 + 1"
      if "N div 4294967296 + 1 = A div 4294967296"
      using epoch that N by (simp add: uint_word_ariths uint_Epoch N_def)
    moreover have "N div 4294967296
       = (if A mod 4294967296 < N mod 4294967296 then A div 4294967296 - 1 else A div 4294967296)"
      using div_below_window[of N A] N by simp
    ultimately have "uint (if XidFromFullTransactionId ?a < XidFromFullTransactionId (nextXid tv)
         then EpochFromFullTransactionId (nextXid tv) + 1 else EpochFromFullTransactionId (nextXid tv))
       = A div 4294967296"
      by (auto simp: word_less_def split: if_splits)
    then show "uint (fxid_value (FullTransactionIdFromEpochAndXid
      (if XidFromFullTransactionId ?a < XidFromFullTransactionId (nextXid tv)
       then EpochFromFullTransactionId (nextXid tv) + 1 else EpochFromFullTransactionId (nextXid tv))
      (XidFromFullTransactionId ?a))) = uint (fxid_value ?a)"
      by (simp only: uint_FromEpochAndXid uint_XidFromFull flip: A_def) simp
  qed
  ultimately show ?thesis by (simp add: AdvanceNextFullTransactionIdPastXid_def Let_def A)
qed


section \<open>OID assignment\<close>

text \<open>
  What the log knows: the OIDs up to \<open>logged\<close> (exclusively) may be handed out.  The counter wraps
  at 2^32, so the claim counts the OIDs left in the logged range.
\<close>

definition oid_logged_ok :: "Oid \<Rightarrow> TransamVariablesData \<Rightarrow> bool" where
  "oid_logged_ok logged tv \<longleftrightarrow> oidCount tv \<noteq> 0 \<longrightarrow> nextOid tv + oidCount tv = logged"

lemma GetNewObjectId_unfold:
  assumes "GetNewObjectId ri pm tv = Inr (result, logged, tv')"
  shows "\<not> ri" "result = (if nextOid tv < (if pm then FirstNormalObjectId else FirstGenbkiObjectId)
      then FirstNormalObjectId else nextOid tv)"
    "nextOid tv' = result + 1"
    "logged = None \<Longrightarrow> result = nextOid tv \<and> oidCount tv \<noteq> 0 \<and> oidCount tv' = oidCount tv - 1"
    "logged = Some l \<Longrightarrow> l = result + 8192 \<and> oidCount tv' = 8191"
  using assms
  by (auto simp: GetNewObjectId_def oid_consts Let_def word_less_nat_alt split: if_splits)

section \<open>Properties\<close>

text \<open>
  The limits that \<^verbatim>\<open>SetTransactionIdLimit\<close> publishes come, for every horizon and every
  admissible \<^verbatim>\<open>autovacuum_freeze_max_age\<close>, in the order vacuum, warning, stop, wrap when counted
  from the horizon, the first three are normal ids on the future side of it, the stop limit leaves
  at least 3000000 ids before the wrap limit and the wrap limit lies at least 2^31 - 1 ids ahead.
\<close>

theorem SetTransactionIdLimit_order:
  assumes "TransactionIdIsNormal oldest" "unat autovacuum_freeze_max_age \<le> 2000000000"
    and "tv' = snd (SetTransactionIdLimit autovacuum_freeze_max_age up rec oldest db tv)"
  shows "oldestXid tv' = oldest \<and> in_window oldest (xidVacLimit tv') \<and> in_window oldest (xidWarnLimit tv')
     \<and> in_window oldest (xidStopLimit tv')
     \<and> xid_pos oldest (xidVacLimit tv') < xid_pos oldest (xidWarnLimit tv')
     \<and> xid_pos oldest (xidWarnLimit tv') < xid_pos oldest (xidStopLimit tv')
     \<and> xid_pos oldest (xidStopLimit tv') + 3000000 \<le> xid_pos oldest (xidWrapLimit tv')
     \<and> 2147483647 \<le> xid_pos oldest (xidWrapLimit tv')"
  using SetLimit_ok[OF assms(1,2), of up rec db tv] assms(3) by (simp add: limits_ok_def)

definition sample_tv :: TransamVariablesData where
  "sample_tv = \<lparr>nextOid = 16384, oidCount = 0, nextXid = \<lparr>fxid_value = 2144483649\<rparr>, oldestXid = 3,
     xidVacLimit = 200000003, xidWarnLimit = 2107483650, xidStopLimit = 2144483650,
     xidWrapLimit = 2147483650, oldestXidDB = 1, oldestCommitTsXid = 0, newestCommitTsXid = 0,
     latestCompletedXid = \<lparr>fxid_value = 2144483640\<rparr>, xactCompletionCount = 1, oldestClogXid = 3\<rparr>"

theorem SetTransactionIdLimit_order_witness:
  "xid_pos 4294967295 (xidVacLimit (snd (SetTransactionIdLimit 100000 True False 4294967295 5 sample_tv)))
     < xid_pos 4294967295 (xidWarnLimit (snd (SetTransactionIdLimit 100000 True False 4294967295 5 sample_tv)))"
  using SetTransactionIdLimit_order[of 4294967295 100000 _ True False 5 sample_tv]
  by (simp add: TransactionIdIsNormal_def FirstNormalTransactionId_def)

text \<open>
  C17. No wraparound under the postmaster.  Whatever the interleaving of at most 2^18 - 1
  (\<^verbatim>\<open>MAX_BACKENDS\<close>) backends that pass the limit check, release the lock and assign an id without
  checking again, and of horizon updates that stay between the old horizon and the next id, the
  next id remains within 2^31 ids of the horizon and short of the wrap limit.
\<close>

theorem xid_alloc_no_wraparound:
  assumes "(xid_alloc max_age nbackends)\<^sup>*\<^sup>* (tv0, 0) (tv, p)"
    and "nbackends \<le> 262143" "unat max_age \<le> 2000000000"
    and "limits_ok tv0" "TransactionIdIsNormal (XidFromFullTransactionId (nextXid tv0))"
      "xid_pos (oldestXid tv0) (XidFromFullTransactionId (nextXid tv0)) \<le> 2144483650"
  shows "in_window (oldestXid tv) (XidFromFullTransactionId (nextXid tv))
     \<and> xid_pos (oldestXid tv) (XidFromFullTransactionId (nextXid tv)) + 1000000
         < xid_pos (oldestXid tv) (xidWrapLimit tv)"
proof -
  have "alloc_inv nbackends (tv, p)"
    using assms(1)
  proof (induction rule: rtranclp_induct)
    case base
    then show ?case using assms(4,5,6) by (simp add: alloc_inv_def)
  next
    case (step y z)
    then show ?case using alloc_inv_step assms(2,3) by blast
  qed
  then show ?thesis using alloc_inv_window assms(2) by (auto simp: alloc_inv_def limits_ok_def)
qed


lemma sample_tv_check:
  "xid_limit_check True (XidFromFullTransactionId (nextXid sample_tv)) sample_tv
     = (True, [WarnWraparound 3000001], None)"
  by code_simp

lemma sample_tv_counter: "counter_ok sample_tv" "counter_ok (assign_next sample_tv)"
  by code_simp+

lemma sample_tv_limits: "limits_ok sample_tv"
  by (simp add: limits_ok_def sample_tv_def in_window_def xid_pos_def TransactionIdIsNormal_def
      FirstNormalTransactionId_def)

lemma sample_tv_run:
  "(xid_alloc 200000000 2)\<^sup>*\<^sup>* (sample_tv, 0) (assign_next sample_tv, 1)"
proof -
  have "xid_alloc 200000000 2 (sample_tv, 0) (sample_tv, Suc 0)"
    "xid_alloc 200000000 2 (sample_tv, Suc 0) (sample_tv, Suc (Suc 0))"
    "xid_alloc 200000000 2 (sample_tv, Suc (Suc 0)) (assign_next sample_tv, Suc 0)"
    by (rule xid_alloc.release[OF sample_tv_check] xid_alloc.resume[OF sample_tv_counter(1)]; simp)+
  then show ?thesis by (simp add: converse_rtranclp_into_rtranclp)
qed

theorem xid_alloc_no_wraparound_witness:
  "in_window (oldestXid (assign_next sample_tv)) (XidFromFullTransactionId (nextXid (assign_next sample_tv)))"
proof -
  have "TransactionIdIsNormal (XidFromFullTransactionId (nextXid sample_tv))"
    "xid_pos (oldestXid sample_tv) (XidFromFullTransactionId (nextXid sample_tv)) \<le> 2144483650"
    by (simp_all add: sample_tv_def xid_pos_def XidFromFullTransactionId_def TransactionIdIsNormal_def
        FirstNormalTransactionId_def)
  then show ?thesis using xid_alloc_no_wraparound[OF sample_tv_run _ _ sample_tv_limits] by simp
qed


text \<open>
  C35. \<^verbatim>\<open>AdvanceNextFullTransactionIdPastXid\<close> recovers the 64-bit counter from a 32-bit id seen in
  the log: for the id of any full id within 2^31 of the counter, on either side of an epoch
  boundary, the counter becomes the later of its old value and the first normal full id after it,
  and nothing else changes.
\<close>

theorem AdvanceNextFullTransactionIdPastXid_correct:
  assumes "TransactionIdIsNormal (XidFromFullTransactionId (nextXid tv))" "3 \<le> uint (fxid_value (nextXid tv))"
    and "TransactionIdIsNormal (XidFromFullTransactionId f)" "3 \<le> uint (fxid_value f)"
      "uint (fxid_value f) + 4 < 18446744073709551616"
    and "\<bar>uint (fxid_value f) - uint (fxid_value (nextXid tv))\<bar> < 2147483648"
  shows "AdvanceNextFullTransactionIdPastXid (XidFromFullTransactionId f) tv
     = tv\<lparr>nextXid := FullTransactionIdNewer (nextXid tv) (FullTransactionIdAdvance f)\<rparr>"
  using AdvancePast_full[OF assms] .

theorem AdvanceNextFullTransactionIdPastXid_correct_witness:
  "AdvanceNextFullTransactionIdPastXid (XidFromFullTransactionId \<lparr>fxid_value = 4294967305\<rparr>)
       (sample_tv\<lparr>nextXid := \<lparr>fxid_value = 4294967290\<rparr>\<rparr>)
     = sample_tv\<lparr>nextXid := \<lparr>fxid_value = 4294967306\<rparr>\<rparr>"
proof -
  have "FullTransactionIdNewer \<lparr>fxid_value = 4294967290\<rparr> (FullTransactionIdAdvance \<lparr>fxid_value = 4294967305\<rparr>)
     = \<lparr>fxid_value = 4294967306\<rparr>" by code_simp
  moreover have "TransactionIdIsNormal (XidFromFullTransactionId \<lparr>fxid_value = 4294967290\<rparr>)"
    "TransactionIdIsNormal (XidFromFullTransactionId \<lparr>fxid_value = 4294967305\<rparr>)" by code_simp+
  ultimately show ?thesis
    using AdvanceNextFullTransactionIdPastXid_correct[of "sample_tv\<lparr>nextXid := \<lparr>fxid_value = 4294967290\<rparr>\<rparr>"
      "\<lparr>fxid_value = 4294967305\<rparr>"] by simp
qed

text \<open>
  C36. OID assignment.  Outside recovery \<^verbatim>\<open>GetNewObjectId\<close> always returns an OID; in a postmaster
  environment it is at least \<^verbatim>\<open>FirstNormalObjectId\<close>, whatever the counter was (it restarts there
  after the 32-bit counter wraps), standalone it is at least \<^verbatim>\<open>FirstGenbkiObjectId\<close>; the next call
  starts after it; and the OID is covered by the log: when no new range is logged the counter was
  inside the last one, whose end stays the end of the range.
\<close>

theorem GetNewObjectId_correct:
  assumes "oid_logged_ok logged tv"
  shows "\<exists>oid new tv'. GetNewObjectId False pm tv = Inr (oid, new, tv')
     \<and> (if pm then FirstNormalObjectId else FirstGenbkiObjectId) \<le> oid
     \<and> nextOid tv' = oid + 1
     \<and> (let limit = (case new of None \<Rightarrow> logged | Some l \<Rightarrow> l)
        in oid_logged_ok limit tv' \<and> oid \<noteq> limit \<and> unat (limit - oid) \<le> max 8192 (unat (oidCount tv)))"
proof -
  obtain oid new tv' where r: "GetNewObjectId False pm tv = Inr (oid, new, tv')"
    by (cases "GetNewObjectId False pm tv") (auto simp: GetNewObjectId_def Let_def split: if_splits)
  note u = GetNewObjectId_unfold[OF r]
  have "(if pm then FirstNormalObjectId else FirstGenbkiObjectId) \<le> oid"
    using u(2) by (auto simp: oid_consts not_less split: if_splits)
  moreover have "oid_logged_ok limit tv' \<and> oid \<noteq> limit \<and> unat (limit - oid) \<le> max 8192 (unat (oidCount tv))"
    if "limit = (case new of None \<Rightarrow> logged | Some l \<Rightarrow> l)" for limit
  proof (cases new)
    case None
    then have "limit = oid + oidCount tv" using u(4) assms that by (auto simp: oid_logged_ok_def)
    then show ?thesis using u(3,4) None by (auto simp: oid_logged_ok_def)
  next
    case (Some l)
    then show ?thesis using u(3) u(5)[OF Some] that by (auto simp: oid_logged_ok_def)
  qed
  ultimately show ?thesis using r u(3) by (auto simp: Let_def)
qed

theorem GetNewObjectId_correct_witness:
  "\<exists>oid new tv'. GetNewObjectId False True (sample_tv\<lparr>nextOid := 0, oidCount := 7\<rparr>) = Inr (oid, new, tv')
     \<and> FirstNormalObjectId \<le> oid"
  using GetNewObjectId_correct[of 7 "sample_tv\<lparr>nextOid := 0, oidCount := 7\<rparr>" True]
  by (auto simp: oid_logged_ok_def)

end
