(* ===== verification/ProcArray.thy ===== *)
theory ProcArray
  imports Transam KnownAssigned Varsup
begin

text \<open>
  The array of running processes of \<^verbatim>\<open>src/backend/storage/ipc/procarray.c\<close>, with the process structures
  of \<^verbatim>\<open>src/include/storage/proc.h\<close>, and \<^verbatim>\<open>GetNewTransactionId\<close> of
  \<^verbatim>\<open>src/backend/access/transam/varsup.c\<close>.  The dense arrays \<^verbatim>\<open>xids\<close>, \<^verbatim>\<open>subxidStates\<close> and
  \<^verbatim>\<open>statusFlags\<close> of \<^verbatim>\<open>ProcGlobal\<close> are lists of their first \<^verbatim>\<open>numProcs\<close> entries; each operation is
  one step, as it holds \<^verbatim>\<open>ProcArrayLock\<close> or \<^verbatim>\<open>XidGenLock\<close>, and where the code releases a lock and takes
  one again the steps in between are a parameter.
\<close>

section \<open>Shared state\<close>

definition PGPROC_MAX_CACHED_SUBXIDS :: nat where
  "PGPROC_MAX_CACHED_SUBXIDS = 64"

record XidCacheStatus =
  cs_count :: nat
  cs_overflowed :: bool

type_synonym LocalTransactionId = uint32

definition InvalidLocalTransactionId :: LocalTransactionId where
  "InvalidLocalTransactionId = 0"

record PGPROC =
  proc_xid :: TransactionId
  proc_xmin :: TransactionId
  pid :: int
  pgxactoff :: nat
  procNumber :: int
  lxid :: LocalTransactionId
  databaseId :: Oid
  roleId :: Oid
  isBackgroundWorker :: bool
  recoveryConflictPending :: bool
  waitLock :: "nat option"
  delayChkptFlags :: nat
  statusFlags :: uint8
  subxidStatus :: XidCacheStatus
  subxids :: "TransactionId list"  \<comment> \<open>\<^verbatim>\<open>subxids.xids\<close>, of length 64\<close>
  procArrayGroupMember :: bool
  procArrayGroupNext :: "nat option"  \<comment> \<open>\<^verbatim>\<open>INVALID_PROC_NUMBER\<close> is None\<close>
  procArrayGroupMemberXid :: TransactionId

definition PROC_IS_AUTOVACUUM :: uint8 where "PROC_IS_AUTOVACUUM = 0x01"
definition PROC_IN_VACUUM :: uint8 where "PROC_IN_VACUUM = 0x02"
definition PROC_IN_SAFE_IC :: uint8 where "PROC_IN_SAFE_IC = 0x04"
definition PROC_VACUUM_FOR_WRAPAROUND :: uint8 where "PROC_VACUUM_FOR_WRAPAROUND = 0x08"
definition PROC_IN_LOGICAL_DECODING :: uint8 where "PROC_IN_LOGICAL_DECODING = 0x10"
definition PROC_AFFECTS_ALL_HORIZONS :: uint8 where "PROC_AFFECTS_ALL_HORIZONS = 0x20"

unbundle bit_operations_syntax

definition PROC_VACUUM_STATE_MASK :: uint8 where
  "PROC_VACUUM_STATE_MASK = PROC_IN_VACUUM OR PROC_IN_SAFE_IC OR PROC_VACUUM_FOR_WRAPAROUND"

definition PROC_XMIN_FLAGS :: uint8 where
  "PROC_XMIN_FLAGS = PROC_IN_VACUUM OR PROC_IN_SAFE_IC"

lemmas proc_flags = PROC_IS_AUTOVACUUM_def PROC_IN_VACUUM_def PROC_IN_SAFE_IC_def
  PROC_VACUUM_FOR_WRAPAROUND_def PROC_IN_LOGICAL_DECODING_def PROC_AFFECTS_ALL_HORIZONS_def
  PROC_VACUUM_STATE_MASK_def PROC_XMIN_FLAGS_def

record shmem =
  allProcs :: "nat \<Rightarrow> PGPROC"
  pg_xids :: "TransactionId list"
  pg_subxidStates :: "XidCacheStatus list"
  pg_statusFlags :: "uint8 list"
  procArrayGroupFirst :: "nat option"
  pgprocnos :: "nat list"
  maxProcs :: nat
  kax :: kax_state
  lastOverflowedXid :: TransactionId
  replication_slot_xmin :: TransactionId
  replication_slot_catalog_xmin :: TransactionId
  TransamVariables :: TransamVariablesData
  XactCtl :: clog_ctl
  SubTransCtl :: subtrans_ctl

abbreviation numProcs :: "shmem \<Rightarrow> nat" where
  "numProcs s \<equiv> length (pgprocnos s)"

definition upd_proc :: "nat \<Rightarrow> (PGPROC \<Rightarrow> PGPROC) \<Rightarrow> shmem \<Rightarrow> shmem" where
  "upd_proc p f s = s\<lparr>allProcs := (allProcs s)(p := f (allProcs s p))\<rparr>"

definition upd_tv :: "(TransamVariablesData \<Rightarrow> TransamVariablesData) \<Rightarrow> shmem \<Rightarrow> shmem" where
  "upd_tv f s = s\<lparr>TransamVariables := f (TransamVariables s)\<rparr>"

section \<open>Adding and removing processes\<close>

text \<open>The \<^verbatim>\<open>memmove\<close> that opens or closes a gap in the first \<^verbatim>\<open>numProcs\<close> entries.\<close>

definition insert_at :: "nat \<Rightarrow> 'a \<Rightarrow> 'a list \<Rightarrow> 'a list" where
  "insert_at i x xs = take i xs @ x # drop i xs"

definition remove_at :: "nat \<Rightarrow> 'a list \<Rightarrow> 'a list" where
  "remove_at i xs = take i xs @ drop (Suc i) xs"

definition renumber_from :: "nat \<Rightarrow> shmem \<Rightarrow> shmem" where
  "renumber_from start s =
     fold (\<lambda>index s. upd_proc (pgprocnos s ! index) (\<lambda>p. p\<lparr>pgxactoff := index\<rparr>) s) [start..<numProcs s] s"

definition ProcArrayAdd :: "nat \<Rightarrow> shmem \<Rightarrow> pg_error + shmem" where
  "ProcArrayAdd pgprocno s =
     (if numProcs s \<ge> maxProcs s then Inl ErrTooManyClients
      else let index = length (takeWhile (\<lambda>this_procno. \<not> this_procno > pgprocno) (pgprocnos s));
               proc = allProcs s pgprocno;
               s = s\<lparr>pgprocnos := insert_at index pgprocno (pgprocnos s),
                     pg_xids := insert_at index (proc_xid proc) (pg_xids s),
                     pg_subxidStates := insert_at index (subxidStatus proc) (pg_subxidStates s),
                     pg_statusFlags := insert_at index (statusFlags proc) (pg_statusFlags s)\<rparr>;
               s = upd_proc pgprocno (\<lambda>p. p\<lparr>pgxactoff := index\<rparr>) s
           in Inr (renumber_from (Suc index) s))"

definition MaintainLatestCompletedXid :: "TransactionId \<Rightarrow> TransamVariablesData \<Rightarrow> TransamVariablesData" where
  "MaintainLatestCompletedXid latestXid tv =
     (let cur_latest = latestCompletedXid tv
      in if TransactionIdPrecedes (XidFromFullTransactionId cur_latest) latestXid
         then tv\<lparr>latestCompletedXid := FullXidRelativeTo cur_latest latestXid\<rparr>
         else tv)"

definition MaintainLatestCompletedXidRecovery ::
    "TransactionId \<Rightarrow> TransamVariablesData \<Rightarrow> TransamVariablesData" where
  "MaintainLatestCompletedXidRecovery latestXid tv =
     (let cur_latest = latestCompletedXid tv;
          rel = nextXid tv
      in if \<not> FullTransactionIdIsValid cur_latest
            \<or> TransactionIdPrecedes (XidFromFullTransactionId cur_latest) latestXid
         then tv\<lparr>latestCompletedXid := FullXidRelativeTo rel latestXid\<rparr>
         else tv)"

definition bump_xactCompletionCount :: "TransamVariablesData \<Rightarrow> TransamVariablesData" where
  "bump_xactCompletionCount tv = tv\<lparr>xactCompletionCount := xactCompletionCount tv + 1\<rparr>"

definition ProcArrayRemove :: "nat \<Rightarrow> TransactionId \<Rightarrow> shmem \<Rightarrow> shmem" where
  "ProcArrayRemove proc latestXid s =
     (let myoff = pgxactoff (allProcs s proc);
          s = (if TransactionIdIsValid latestXid
               then upd_tv (bump_xactCompletionCount \<circ> MaintainLatestCompletedXid latestXid)
                      (s\<lparr>pg_xids := (pg_xids s)[myoff := InvalidTransactionId],
                         pg_subxidStates := (pg_subxidStates s)[myoff := \<lparr>cs_count = 0, cs_overflowed = False\<rparr>]\<rparr>)
               else s);
          s = s\<lparr>pg_statusFlags := (pg_statusFlags s)[myoff := 0]\<rparr>;
          s = s\<lparr>pgprocnos := remove_at myoff (pgprocnos s),
                pg_xids := remove_at myoff (pg_xids s),
                pg_subxidStates := remove_at myoff (pg_subxidStates s),
                pg_statusFlags := remove_at myoff (pg_statusFlags s)\<rparr>
      in renumber_from myoff s)"

section \<open>Ending transactions\<close>

definition clear_vacuum_flags :: "nat \<Rightarrow> shmem \<Rightarrow> shmem" where
  "clear_vacuum_flags proc s =
     (if statusFlags (allProcs s proc) AND PROC_VACUUM_STATE_MASK \<noteq> 0
      then let s = upd_proc proc (\<lambda>p. p\<lparr>statusFlags := statusFlags p AND NOT PROC_VACUUM_STATE_MASK\<rparr>) s
           in s\<lparr>pg_statusFlags := (pg_statusFlags s)[pgxactoff (allProcs s proc) := statusFlags (allProcs s proc)]\<rparr>
      else s)"

definition clear_subxids :: "nat \<Rightarrow> shmem \<Rightarrow> shmem" where
  "clear_subxids proc s =
     (if cs_count (subxidStatus (allProcs s proc)) > 0 \<or> cs_overflowed (subxidStatus (allProcs s proc))
      then upd_proc proc (\<lambda>p. p\<lparr>subxidStatus := \<lparr>cs_count = 0, cs_overflowed = False\<rparr>\<rparr>)
             (s\<lparr>pg_subxidStates := (pg_subxidStates s)
                  [pgxactoff (allProcs s proc) := \<lparr>cs_count = 0, cs_overflowed = False\<rparr>]\<rparr>)
      else s)"

definition ProcArrayEndTransactionInternal :: "nat \<Rightarrow> TransactionId \<Rightarrow> shmem \<Rightarrow> shmem" where
  "ProcArrayEndTransactionInternal proc latestXid s =
     (let off = pgxactoff (allProcs s proc);
          s = s\<lparr>pg_xids := (pg_xids s)[off := InvalidTransactionId]\<rparr>;
          s = upd_proc proc (\<lambda>p. p\<lparr>proc_xid := InvalidTransactionId, lxid := InvalidLocalTransactionId,
                proc_xmin := InvalidTransactionId, delayChkptFlags := 0, recoveryConflictPending := False\<rparr>) s;
          s = clear_vacuum_flags proc s;
          s = clear_subxids proc s
      in upd_tv (bump_xactCompletionCount \<circ> MaintainLatestCompletedXid latestXid) s)"

text \<open>
  \<^verbatim>\<open>ProcArrayGroupClearXid\<close>: a backend that does not get the lock pushes itself on a list; the first
  on the list clears all of them.  \<open>group_push\<close> is the compare-and-exchange loop, which ends with
  the head it replaced, and \<open>group_lead\<close> what the leader does with the lock and after it.
\<close>

definition group_push :: "nat \<Rightarrow> TransactionId \<Rightarrow> shmem \<Rightarrow> nat option \<times> shmem" where
  "group_push proc latestXid s =
     (let s = upd_proc proc (\<lambda>p. p\<lparr>procArrayGroupMember := True, procArrayGroupMemberXid := latestXid\<rparr>) s;
          nextidx = procArrayGroupFirst s;
          s = upd_proc proc (\<lambda>p. p\<lparr>procArrayGroupNext := nextidx\<rparr>) s
      in (nextidx, s\<lparr>procArrayGroupFirst := Some proc\<rparr>))"

partial_function (option) group_end_loop :: "nat option \<Rightarrow> shmem \<Rightarrow> shmem option" where
  "group_end_loop nextidx s =
     (case nextidx of
        None \<Rightarrow> Some s
      | Some n \<Rightarrow>
          let s = ProcArrayEndTransactionInternal n (procArrayGroupMemberXid (allProcs s n)) s
          in group_end_loop (procArrayGroupNext (allProcs s n)) s)"

partial_function (option) group_wake_loop :: "nat option \<Rightarrow> shmem \<Rightarrow> shmem option" where
  "group_wake_loop wakeidx s =
     (case wakeidx of
        None \<Rightarrow> Some s
      | Some n \<Rightarrow>
          group_wake_loop (procArrayGroupNext (allProcs s n))
            (upd_proc n (\<lambda>p. p\<lparr>procArrayGroupNext := None, procArrayGroupMember := False\<rparr>) s))"

definition group_lead :: "shmem \<Rightarrow> shmem option" where
  "group_lead s =
     (let nextidx = procArrayGroupFirst s;
          s = s\<lparr>procArrayGroupFirst := None\<rparr>
      in case group_end_loop nextidx s of
           None \<Rightarrow> None
         | Some s \<Rightarrow> group_wake_loop nextidx s)"

definition ProcArrayGroupClearXid ::
    "(shmem \<Rightarrow> shmem) \<Rightarrow> nat \<Rightarrow> TransactionId \<Rightarrow> shmem \<Rightarrow> shmem option" where
  "ProcArrayGroupClearXid others proc latestXid s =
     (let (nextidx, s) = group_push proc latestXid s;
          s = others s
      in if nextidx \<noteq> None then Some s else group_lead s)"

text \<open>\<open>lock_free\<close> is the result of \<^verbatim>\<open>LWLockConditionalAcquire\<close>.\<close>

definition ProcArrayEndTransaction ::
    "bool \<Rightarrow> (shmem \<Rightarrow> shmem) \<Rightarrow> nat \<Rightarrow> TransactionId \<Rightarrow> shmem \<Rightarrow> shmem option" where
  "ProcArrayEndTransaction lock_free others proc latestXid s =
     (if TransactionIdIsValid latestXid
      then if lock_free then Some (ProcArrayEndTransactionInternal proc latestXid s)
           else ProcArrayGroupClearXid others proc latestXid s
      else Some (clear_vacuum_flags proc
             (upd_proc proc (\<lambda>p. p\<lparr>lxid := InvalidLocalTransactionId, proc_xmin := InvalidTransactionId,
                delayChkptFlags := 0, recoveryConflictPending := False\<rparr>) s)))"

definition ProcArrayClearTransaction :: "nat \<Rightarrow> shmem \<Rightarrow> shmem" where
  "ProcArrayClearTransaction proc s =
     (let off = pgxactoff (allProcs s proc);
          s = s\<lparr>pg_xids := (pg_xids s)[off := InvalidTransactionId]\<rparr>;
          s = upd_proc proc (\<lambda>p. p\<lparr>proc_xid := InvalidTransactionId, lxid := InvalidLocalTransactionId,
                proc_xmin := InvalidTransactionId, recoveryConflictPending := False\<rparr>) s;
          s = upd_tv bump_xactCompletionCount s
      in clear_subxids proc s)"

section \<open>The cache of subtransaction ids\<close>

text \<open>The search runs from the last cached id down; \<open>None\<close> is the warning that it was not found.\<close>

fun subxid_index :: "TransactionId list \<Rightarrow> TransactionId \<Rightarrow> nat \<Rightarrow> nat option" where
  "subxid_index xids anxid 0 = None"
| "subxid_index xids anxid (Suc j) = (if xids ! j = anxid then Some j else subxid_index xids anxid j)"

definition cache_remove :: "nat \<Rightarrow> TransactionId \<Rightarrow> shmem \<times> TransactionId list \<Rightarrow> shmem \<times> TransactionId list" where
  "cache_remove MyProc anxid = (\<lambda>(s, warnings).
     let me = allProcs s MyProc;
         count = cs_count (subxidStatus me);
         off = pgxactoff me
     in case subxid_index (subxids me) anxid count of
          Some j \<Rightarrow>
            (upd_proc MyProc (\<lambda>p. p\<lparr>subxids := (subxids p)[j := subxids p ! (count - 1)],
                 subxidStatus := (subxidStatus p)\<lparr>cs_count := count - 1\<rparr>\<rparr>)
               (s\<lparr>pg_subxidStates := (pg_subxidStates s)
                   [off := (pg_subxidStates s ! off)\<lparr>cs_count := cs_count (pg_subxidStates s ! off) - 1\<rparr>]\<rparr>),
             warnings)
        | None \<Rightarrow> (s, if cs_overflowed (subxidStatus me) then warnings else warnings @ [anxid]))"

definition XidCacheRemoveRunningXids ::
    "nat \<Rightarrow> TransactionId \<Rightarrow> TransactionId list \<Rightarrow> TransactionId \<Rightarrow> shmem \<Rightarrow> shmem \<times> TransactionId list" where
  "XidCacheRemoveRunningXids MyProc xid xids latestXid s =
     (let (s, warnings) = cache_remove MyProc xid (fold (cache_remove MyProc) (rev xids) (s, []))
      in (upd_tv (bump_xactCompletionCount \<circ> MaintainLatestCompletedXid latestXid) s, warnings))"

section \<open>Assigning a transaction id\<close>

text \<open>
  The part of \<^verbatim>\<open>GetNewTransactionId\<close> that runs with \<^verbatim>\<open>XidGenLock\<close> after the limit check.  The commit
  timestamp log is not modelled: \<^verbatim>\<open>ExtendCommitTs\<close> does nothing unless \<^verbatim>\<open>track_commit_timestamp\<close> is on.
\<close>

definition store_new_xid :: "nat \<Rightarrow> bool \<Rightarrow> TransactionId \<Rightarrow> shmem \<Rightarrow> shmem" where
  "store_new_xid MyProc isSubXact xid s =
     (let off = pgxactoff (allProcs s MyProc)
      in if \<not> isSubXact
         then upd_proc MyProc (\<lambda>p. p\<lparr>proc_xid := xid\<rparr>) (s\<lparr>pg_xids := (pg_xids s)[off := xid]\<rparr>)
         else let nxids = cs_count (subxidStatus (allProcs s MyProc))
              in if nxids < PGPROC_MAX_CACHED_SUBXIDS
                 then upd_proc MyProc (\<lambda>p. p\<lparr>subxids := (subxids p)[nxids := xid],
                          subxidStatus := (subxidStatus p)\<lparr>cs_count := nxids + 1\<rparr>\<rparr>)
                        (s\<lparr>pg_subxidStates := (pg_subxidStates s)
                             [off := (pg_subxidStates s ! off)\<lparr>cs_count := nxids + 1\<rparr>]\<rparr>)
                 else upd_proc MyProc (\<lambda>p. p\<lparr>subxidStatus := (subxidStatus p)\<lparr>cs_overflowed := True\<rparr>\<rparr>)
                        (s\<lparr>pg_subxidStates := (pg_subxidStates s)
                             [off := (pg_subxidStates s ! off)\<lparr>cs_overflowed := True\<rparr>]\<rparr>))"

definition assign_new_xid :: "nat \<Rightarrow> bool \<Rightarrow> shmem \<Rightarrow> FullTransactionId \<times> shmem" where
  "assign_new_xid MyProc isSubXact s =
     (let full_xid = nextXid (TransamVariables s);
          xid = XidFromFullTransactionId full_xid;
          s = s\<lparr>XactCtl := ExtendCLOG xid (XactCtl s)\<rparr>;
          s = s\<lparr>SubTransCtl := ExtendSUBTRANS xid (SubTransCtl s)\<rparr>;
          s = upd_tv assign_next s
      in (full_xid, store_new_xid MyProc isSubXact xid s))"

text \<open>\<open>others\<close> is what other processes do while the lock is released in the limit check.\<close>

definition GetNewTransactionId ::
    "bool \<Rightarrow> bool \<Rightarrow> bool \<Rightarrow> bool \<Rightarrow> (shmem \<Rightarrow> shmem) \<Rightarrow> nat \<Rightarrow> bool \<Rightarrow> shmem
     \<Rightarrow> xid_message list \<times> (pg_error + (FullTransactionId \<times> shmem))" where
  "GetNewTransactionId IsInParallelMode IsBootstrapProcessingMode RecoveryInProgress IsUnderPostmaster
       others MyProc isSubXact s =
     (if IsInParallelMode then ([], Inl ErrParallelXid)
      else if IsBootstrapProcessingMode
      then ([], Inr (FullTransactionIdFromEpochAndXid 0 BootstrapTransactionId,
             upd_proc MyProc (\<lambda>p. p\<lparr>proc_xid := BootstrapTransactionId\<rparr>)
               (s\<lparr>pg_xids := (pg_xids s)[pgxactoff (allProcs s MyProc) := BootstrapTransactionId]\<rparr>)))
      else if RecoveryInProgress then ([], Inl ErrRecoveryXid)
      else case xid_limit_check IsUnderPostmaster
                  (XidFromFullTransactionId (nextXid (TransamVariables s))) (TransamVariables s) of
             (released, msgs, Some err) \<Rightarrow> (msgs, Inl err)
           | (released, msgs, None) \<Rightarrow>
               (msgs, Inr (assign_new_xid MyProc isSubXact (if released then others s else s))))"

section \<open>Replication slots\<close>

definition ProcArraySetReplicationSlotXmin :: "TransactionId \<Rightarrow> TransactionId \<Rightarrow> shmem \<Rightarrow> shmem" where
  "ProcArraySetReplicationSlotXmin xmin catalog_xmin s =
     s\<lparr>replication_slot_xmin := xmin, replication_slot_catalog_xmin := catalog_xmin\<rparr>"

definition ProcArrayGetReplicationSlotXmin :: "shmem \<Rightarrow> TransactionId \<times> TransactionId" where
  "ProcArrayGetReplicationSlotXmin s = (replication_slot_xmin s, replication_slot_catalog_xmin s)"

section \<open>Consistency of the dense arrays\<close>

definition proc_ok :: "PGPROC \<Rightarrow> bool" where
  "proc_ok p \<longleftrightarrow> length (subxids p) = PGPROC_MAX_CACHED_SUBXIDS
     \<and> cs_count (subxidStatus p) \<le> PGPROC_MAX_CACHED_SUBXIDS
     \<and> (TransactionIdIsValid (proc_xid p) \<or> cs_count (subxidStatus p) = 0 \<and> \<not> cs_overflowed (subxidStatus p))"

definition procarray_ok :: "shmem \<Rightarrow> bool" where
  "procarray_ok s \<longleftrightarrow> sorted_wrt (<) (pgprocnos s) \<and> numProcs s \<le> maxProcs s
     \<and> map (\<lambda>p. pgxactoff (allProcs s p)) (pgprocnos s) = [0..<numProcs s]
     \<and> pg_xids s = map (\<lambda>p. proc_xid (allProcs s p)) (pgprocnos s)
     \<and> pg_subxidStates s = map (\<lambda>p. subxidStatus (allProcs s p)) (pgprocnos s)
     \<and> pg_statusFlags s = map (\<lambda>p. statusFlags (allProcs s p)) (pgprocnos s)
     \<and> (\<forall>p \<in> set (pgprocnos s). proc_ok (allProcs s p))"

abbreviation cached :: "PGPROC \<Rightarrow> TransactionId list" where
  "cached p \<equiv> take (cs_count (subxidStatus p)) (subxids p)"

text \<open>What the array says of a process: its id, its cached subtransactions and the overflow flag.\<close>

definition running_of :: "PGPROC \<Rightarrow> TransactionId \<times> TransactionId set \<times> bool" where
  "running_of p = (proc_xid p, set (take (cs_count (subxidStatus p)) (subxids p)), cs_overflowed (subxidStatus p))"

definition proc_view :: "shmem \<Rightarrow> nat \<rightharpoonup> TransactionId \<times> TransactionId set \<times> bool" where
  "proc_view s = (\<lambda>p. if p \<in> set (pgprocnos s) then Some (running_of (allProcs s p)) else None)"

lemma procarray_distinct: "procarray_ok s \<Longrightarrow> distinct (pgprocnos s)"
  by (auto simp: procarray_ok_def strict_sorted_iff)

lemma pgxactoff_nth:
  assumes "procarray_ok s" "i < numProcs s"
  shows "pgxactoff (allProcs s (pgprocnos s ! i)) = i"
proof -
  have "map (\<lambda>p. pgxactoff (allProcs s p)) (pgprocnos s) ! i = [0..<numProcs s] ! i"
    using assms(1) by (simp only: procarray_ok_def)
  then show ?thesis using assms(2) by simp
qed

lemma pgprocnos_pgxactoff:
  assumes "procarray_ok s" "p \<in> set (pgprocnos s)"
  shows "pgxactoff (allProcs s p) < numProcs s" "pgprocnos s ! pgxactoff (allProcs s p) = p"
  using assms pgxactoff_nth[OF assms(1)] by (auto simp: in_set_conv_nth)

lemma map_mirror_upd:
  assumes "procarray_ok s" "p \<in> set (pgprocnos s)"
  shows "map (\<lambda>q. f (((allProcs s)(p := v)) q)) (pgprocnos s)
       = (map (\<lambda>q. f (allProcs s q)) (pgprocnos s))[pgxactoff (allProcs s p) := f v]"
proof (rule nth_equalityI)
  fix i assume i: "i < length (map (\<lambda>q. f (((allProcs s)(p := v)) q)) (pgprocnos s))"
  then have "pgprocnos s ! i = p \<longleftrightarrow> i = pgxactoff (allProcs s p)"
    using pgprocnos_pgxactoff[OF assms] pgxactoff_nth[OF assms(1), of i] by auto
  then show "map (\<lambda>q. f (((allProcs s)(p := v)) q)) (pgprocnos s) ! i
    = (map (\<lambda>q. f (allProcs s q)) (pgprocnos s))[pgxactoff (allProcs s p) := f v] ! i"
    using i by (auto simp: nth_list_update)
qed simp

text \<open>
  The one lemma behind every update of a process that stays in the array: the new process keeps
  its place, and each dense array holds its new field.
\<close>

lemma procarray_ok_upd:
  assumes s: "procarray_ok s" "p \<in> set (pgprocnos s)"
    and s': "allProcs s' = (allProcs s)(p := v)" "pgprocnos s' = pgprocnos s" "maxProcs s' = maxProcs s"
    and v: "pgxactoff v = pgxactoff (allProcs s p)" "proc_ok v"
    and "pg_xids s' = (pg_xids s)[pgxactoff (allProcs s p) := proc_xid v]"
    and "pg_subxidStates s' = (pg_subxidStates s)[pgxactoff (allProcs s p) := subxidStatus v]"
    and "pg_statusFlags s' = (pg_statusFlags s)[pgxactoff (allProcs s p) := statusFlags v]"
  shows "procarray_ok s'" "proc_view s' = (proc_view s)(p \<mapsto> running_of v)"
proof -
  have o: "map (\<lambda>q. pgxactoff (((allProcs s)(p := v)) q)) (pgprocnos s) = map (\<lambda>q. pgxactoff (allProcs s q)) (pgprocnos s)"
    using v(1) by auto
  show "procarray_ok s'"
    using s assms(6-) unfolding procarray_ok_def s' o
    by (simp add: map_mirror_upd[OF s] del: fun_upd_apply) (simp add: o)
  show "proc_view s' = (proc_view s)(p \<mapsto> running_of v)"
    using s(2) by (auto simp: proc_view_def s')
qed

lemma dense_nth:
  assumes "procarray_ok s" "p \<in> set (pgprocnos s)"
  shows "pg_xids s ! pgxactoff (allProcs s p) = proc_xid (allProcs s p)"
    "pg_subxidStates s ! pgxactoff (allProcs s p) = subxidStatus (allProcs s p)"
    "pg_statusFlags s ! pgxactoff (allProcs s p) = statusFlags (allProcs s p)"
  using pgprocnos_pgxactoff[OF assms] assms(1) by (auto simp: procarray_ok_def)

lemma dense_same:
  assumes "procarray_ok s" "p \<in> set (pgprocnos s)"
  shows "(pg_xids s)[pgxactoff (allProcs s p) := proc_xid (allProcs s p)] = pg_xids s"
    "(pg_subxidStates s)[pgxactoff (allProcs s p) := subxidStatus (allProcs s p)] = pg_subxidStates s"
    "(pg_statusFlags s)[pgxactoff (allProcs s p) := statusFlags (allProcs s p)] = pg_statusFlags s"
  using dense_nth[OF assms] by (metis list_update_id)+

lemma procarray_proc_ok: "procarray_ok s \<Longrightarrow> p \<in> set (pgprocnos s) \<Longrightarrow> proc_ok (allProcs s p)"
  by (simp add: procarray_ok_def)

lemma upd_tv_sel [simp]:
  "allProcs (upd_tv f s) = allProcs s" "pgprocnos (upd_tv f s) = pgprocnos s" "pg_xids (upd_tv f s) = pg_xids s"
  "pg_subxidStates (upd_tv f s) = pg_subxidStates s" "pg_statusFlags (upd_tv f s) = pg_statusFlags s"
  "maxProcs (upd_tv f s) = maxProcs s" "procArrayGroupFirst (upd_tv f s) = procArrayGroupFirst s"
  "TransamVariables (upd_tv f s) = f (TransamVariables s)" "kax (upd_tv f s) = kax s"
  "XactCtl (upd_tv f s) = XactCtl s" "SubTransCtl (upd_tv f s) = SubTransCtl s"
  "lastOverflowedXid (upd_tv f s) = lastOverflowedXid s"
  by (simp_all add: upd_tv_def)

lemma upd_proc_sel [simp]:
  "allProcs (upd_proc p f s) = (allProcs s)(p := f (allProcs s p))" "pgprocnos (upd_proc p f s) = pgprocnos s"
  "pg_xids (upd_proc p f s) = pg_xids s" "pg_subxidStates (upd_proc p f s) = pg_subxidStates s"
  "pg_statusFlags (upd_proc p f s) = pg_statusFlags s" "maxProcs (upd_proc p f s) = maxProcs s"
  "procArrayGroupFirst (upd_proc p f s) = procArrayGroupFirst s" "kax (upd_proc p f s) = kax s"
  "TransamVariables (upd_proc p f s) = TransamVariables s" "XactCtl (upd_proc p f s) = XactCtl s"
  "SubTransCtl (upd_proc p f s) = SubTransCtl s" "lastOverflowedXid (upd_proc p f s) = lastOverflowedXid s"
  by (simp_all add: upd_proc_def)

section \<open>Ending a transaction\<close>

text \<open>The process after \<^verbatim>\<open>ProcArrayEndTransactionInternal\<close>.\<close>

definition ended_proc :: "PGPROC \<Rightarrow> PGPROC" where
  "ended_proc p = p\<lparr>proc_xid := InvalidTransactionId, lxid := InvalidLocalTransactionId,
     proc_xmin := InvalidTransactionId, delayChkptFlags := 0, recoveryConflictPending := False,
     statusFlags := statusFlags p AND NOT PROC_VACUUM_STATE_MASK,
     subxidStatus := \<lparr>cs_count = 0, cs_overflowed = False\<rparr>\<rparr>"

abbreviation idle_view :: "TransactionId \<times> TransactionId set \<times> bool" where
  "idle_view \<equiv> (InvalidTransactionId, {}, False)"

lemma and_mask_zero: "x AND m = 0 \<Longrightarrow> x AND NOT m = x" for x m :: uint8
  by (metis bit.conj_disj_distrib bit.disj_cancel_right bit.conj_one_right or.left_neutral)

lemma cs_zero: "cs_count c = 0 \<Longrightarrow> \<not> cs_overflowed c \<Longrightarrow> c = \<lparr>cs_count = 0, cs_overflowed = False\<rparr>"
  by (cases c) simp

lemma clear_vacuum_flags_sel [simp]:
  "allProcs (clear_vacuum_flags p s)
     = (allProcs s)(p := (allProcs s p)\<lparr>statusFlags := statusFlags (allProcs s p) AND NOT PROC_VACUUM_STATE_MASK\<rparr>)"
  "pgprocnos (clear_vacuum_flags p s) = pgprocnos s" "pg_xids (clear_vacuum_flags p s) = pg_xids s"
  "pg_subxidStates (clear_vacuum_flags p s) = pg_subxidStates s" "maxProcs (clear_vacuum_flags p s) = maxProcs s"
  "procArrayGroupFirst (clear_vacuum_flags p s) = procArrayGroupFirst s"
  "TransamVariables (clear_vacuum_flags p s) = TransamVariables s"
  by (simp_all add: clear_vacuum_flags_def Let_def and_mask_zero)

lemma clear_subxids_sel [simp]:
  "allProcs (clear_subxids p s)
     = (allProcs s)(p := (allProcs s p)\<lparr>subxidStatus := \<lparr>cs_count = 0, cs_overflowed = False\<rparr>\<rparr>)"
  "pgprocnos (clear_subxids p s) = pgprocnos s" "pg_xids (clear_subxids p s) = pg_xids s"
  "pg_statusFlags (clear_subxids p s) = pg_statusFlags s" "maxProcs (clear_subxids p s) = maxProcs s"
  "procArrayGroupFirst (clear_subxids p s) = procArrayGroupFirst s"
  "TransamVariables (clear_subxids p s) = TransamVariables s"
proof -
  have "(allProcs s)(p := (allProcs s p)\<lparr>subxidStatus := \<lparr>cs_count = 0, cs_overflowed = False\<rparr>\<rparr>) = allProcs s"
    if "\<not> (cs_count (subxidStatus (allProcs s p)) > 0 \<or> cs_overflowed (subxidStatus (allProcs s p)))"
    using cs_zero[of "subxidStatus (allProcs s p)"] that
    by (intro fun_upd_idem PGPROC.equality) simp_all
  then show "allProcs (clear_subxids p s)
     = (allProcs s)(p := (allProcs s p)\<lparr>subxidStatus := \<lparr>cs_count = 0, cs_overflowed = False\<rparr>\<rparr>)"
    unfolding clear_subxids_def by (cases "cs_count (subxidStatus (allProcs s p)) > 0
      \<or> cs_overflowed (subxidStatus (allProcs s p))") (simp, simp only: if_False not_False_eq_True simp_thms)
qed (simp_all add: clear_subxids_def)

lemma EndInternal_sel:
  "allProcs (ProcArrayEndTransactionInternal p latestXid s) = (allProcs s)(p := ended_proc (allProcs s p))"
  "pgprocnos (ProcArrayEndTransactionInternal p latestXid s) = pgprocnos s"
  "maxProcs (ProcArrayEndTransactionInternal p latestXid s) = maxProcs s"
  "procArrayGroupFirst (ProcArrayEndTransactionInternal p latestXid s) = procArrayGroupFirst s"
  "TransamVariables (ProcArrayEndTransactionInternal p latestXid s)
     = bump_xactCompletionCount (MaintainLatestCompletedXid latestXid (TransamVariables s))"
  by (simp_all add: ProcArrayEndTransactionInternal_def Let_def ended_proc_def)

lemma EndInternal_dense:
  assumes "procarray_ok s" "p \<in> set (pgprocnos s)"
  defines "off \<equiv> pgxactoff (allProcs s p)"
  shows
  "pg_xids (ProcArrayEndTransactionInternal p latestXid s) = (pg_xids s)[off := InvalidTransactionId]"
  "pg_subxidStates (ProcArrayEndTransactionInternal p latestXid s)
     = (pg_subxidStates s)[off := \<lparr>cs_count = 0, cs_overflowed = False\<rparr>]"
  "pg_statusFlags (ProcArrayEndTransactionInternal p latestXid s)
     = (pg_statusFlags s)[off := statusFlags (allProcs s p) AND NOT PROC_VACUUM_STATE_MASK]"
proof -
  have sub: "pg_subxidStates s = (pg_subxidStates s)[off := \<lparr>cs_count = 0, cs_overflowed = False\<rparr>]"
    if "cs_count (subxidStatus (allProcs s p)) = 0" "\<not> cs_overflowed (subxidStatus (allProcs s p))"
    using cs_zero[OF that] dense_same(2)[OF assms(1,2)] by (simp only: off_def)
  show "pg_xids (ProcArrayEndTransactionInternal p latestXid s) = (pg_xids s)[off := InvalidTransactionId]"
    by (simp add: ProcArrayEndTransactionInternal_def Let_def off_def)
  show "pg_subxidStates (ProcArrayEndTransactionInternal p latestXid s)
     = (pg_subxidStates s)[off := \<lparr>cs_count = 0, cs_overflowed = False\<rparr>]"
    using sub by (auto simp: ProcArrayEndTransactionInternal_def clear_subxids_def Let_def simp flip: off_def)
  show "pg_statusFlags (ProcArrayEndTransactionInternal p latestXid s)
     = (pg_statusFlags s)[off := statusFlags (allProcs s p) AND NOT PROC_VACUUM_STATE_MASK]"
    using dense_same(3)[OF assms(1,2)]
    by (auto simp: ProcArrayEndTransactionInternal_def clear_vacuum_flags_def Let_def and_mask_zero simp flip: off_def)
qed

lemma EndInternal_effect:
  assumes "procarray_ok s" "p \<in> set (pgprocnos s)"
  shows "procarray_ok (ProcArrayEndTransactionInternal p latestXid s)"
    "proc_view (ProcArrayEndTransactionInternal p latestXid s) = (proc_view s)(p \<mapsto> idle_view)"
proof -
  let ?v = "ended_proc (allProcs s p)"
  have v: "pgxactoff ?v = pgxactoff (allProcs s p)" "proc_ok ?v"
    using procarray_proc_ok[OF assms] by (simp_all add: proc_ok_def ended_proc_def)
  have e: "proc_xid ?v = InvalidTransactionId" "subxidStatus ?v = \<lparr>cs_count = 0, cs_overflowed = False\<rparr>"
    "statusFlags ?v = statusFlags (allProcs s p) AND NOT PROC_VACUUM_STATE_MASK" "running_of ?v = idle_view"
    by (simp_all add: ended_proc_def running_of_def)
  note u = procarray_ok_upd[OF assms EndInternal_sel(1-3) v, unfolded e, OF EndInternal_dense[OF assms]]
  show "procarray_ok (ProcArrayEndTransactionInternal p latestXid s)" by (rule u(1))
  show "proc_view (ProcArrayEndTransactionInternal p latestXid s) = (proc_view s)(p \<mapsto> idle_view)" by (rule u(2))
qed

section \<open>Adding and removing a process\<close>

lemma insert_at_map: "map f (insert_at i x xs) = insert_at i (f x) (map f xs)"
  by (simp add: insert_at_def take_map drop_map)

lemma remove_at_map: "map f (remove_at i xs) = remove_at i (map f xs)"
  by (simp add: remove_at_def take_map drop_map)

lemma set_insert_at: "set (insert_at i x xs) = insert x (set xs)"
  by (simp add: insert_at_def) (metis append_take_drop_id set_append)

lemma length_insert_at [simp]: "length (insert_at i x xs) = Suc (length xs)"
  by (simp add: insert_at_def)

lemma remove_at_middle:
  assumes "distinct (a @ x # c)"
  shows "remove_at (length a) (a @ x # c) = filter (\<lambda>y. y \<noteq> x) (a @ x # c)"
proof -
  have "\<forall>y \<in> set a. y \<noteq> x" "\<forall>y \<in> set c. y \<noteq> x" using assms by auto
  then have "filter (\<lambda>y. y \<noteq> x) a = a" "filter (\<lambda>y. y \<noteq> x) c = c" by (simp_all add: filter_id_conv)
  then show ?thesis by (simp add: remove_at_def)
qed

lemma remove_at_nth_eq:
  assumes "i < length xs" "distinct xs"
  shows "remove_at i xs = filter (\<lambda>x. x \<noteq> xs ! i) xs"
  using remove_at_middle[of "take i xs" "xs ! i" "drop (Suc i) xs"] assms
  unfolding id_take_nth_drop[OF assms(1), symmetric] by simp

text \<open>The insertion point keeps the array sorted by process number.\<close>

lemma insert_sorted_place:
  fixes p :: nat
  assumes "sorted_wrt (<) xs" "p \<notin> set xs"
  shows "sorted_wrt (<) (insert_at (length (takeWhile (\<lambda>q. \<not> q > p) xs)) p xs)"
proof -
  define a where "a = takeWhile (\<lambda>q. \<not> q > p) xs"
  define c where "c = dropWhile (\<lambda>q. \<not> q > p) xs"
  have xs: "xs = a @ c" by (simp add: a_def c_def)
  have lt: "q < p" if "q \<in> set a" for q
  proof -
    have "q \<noteq> p" using assms(2) that by (auto simp: xs)
    moreover have "\<not> q > p" using that by (auto simp: a_def dest: set_takeWhileD)
    ultimately show ?thesis by simp
  qed
  have srt: "sorted_wrt (<) a" "sorted_wrt (<) c" using assms(1) by (simp_all add: xs sorted_wrt_append)
  have gt: "p < q" if "q \<in> set c" for q
  proof (cases c)
    case (Cons b d)
    then have "p < b" using hd_dropWhile[of "\<lambda>q. \<not> q > p" xs] by (simp add: c_def)
    then show ?thesis using srt(2) that Cons by auto
  qed (use that in simp)
  have "insert_at (length a) p xs = a @ p # c" by (simp add: insert_at_def xs)
  moreover have "sorted_wrt (<) (a @ p # c)"
    using srt lt gt by (auto simp: sorted_wrt_append dest: less_trans)
  ultimately show ?thesis by (simp add: a_def)
qed

lemma renumber_fold:
  fixes a b :: nat
  assumes "distinct (pgprocnos s)" "b \<le> numProcs s"
  defines "s' \<equiv> fold (\<lambda>index s. upd_proc (pgprocnos s ! index) (\<lambda>p. p\<lparr>pgxactoff := index\<rparr>) s) [a..<b] s"
  shows "pgprocnos s' = pgprocnos s \<and> pg_xids s' = pg_xids s \<and> pg_subxidStates s' = pg_subxidStates s
     \<and> pg_statusFlags s' = pg_statusFlags s \<and> maxProcs s' = maxProcs s
     \<and> TransamVariables s' = TransamVariables s \<and> SubTransCtl s' = SubTransCtl s
     \<and> (\<forall>q. (allProcs s' q)\<lparr>pgxactoff := 0\<rparr> = (allProcs s q)\<lparr>pgxactoff := 0\<rparr>)
     \<and> (\<forall>i<numProcs s. pgxactoff (allProcs s' (pgprocnos s ! i))
          = (if a \<le> i \<and> i < b then i else pgxactoff (allProcs s (pgprocnos s ! i))))"
  using assms(2) unfolding s'_def
proof (induction b)
  case (Suc b)
  show ?case
  proof (cases "a \<le> b")
    case True
    then show ?thesis
      using Suc assms(1) by (auto simp: nth_eq_iff_index_eq less_Suc_eq)
  qed (use Suc in \<open>auto simp: not_le\<close>)
qed simp

lemma renumber_effect:
  fixes a :: nat
  assumes "distinct (pgprocnos s)"
  defines "s' \<equiv> renumber_from a s"
  shows "pgprocnos s' = pgprocnos s" "pg_xids s' = pg_xids s" "pg_subxidStates s' = pg_subxidStates s"
    "pg_statusFlags s' = pg_statusFlags s" "maxProcs s' = maxProcs s" "TransamVariables s' = TransamVariables s"
    "proc_xid (allProcs s' q) = proc_xid (allProcs s q)" "subxidStatus (allProcs s' q) = subxidStatus (allProcs s q)"
    "statusFlags (allProcs s' q) = statusFlags (allProcs s q)" "running_of (allProcs s' q) = running_of (allProcs s q)"
    "proc_ok (allProcs s' q) = proc_ok (allProcs s q)"
    "i < numProcs s \<Longrightarrow> pgxactoff (allProcs s' (pgprocnos s ! i))
        = (if a \<le> i then i else pgxactoff (allProcs s (pgprocnos s ! i)))"
    "subxids (allProcs s' q) = subxids (allProcs s q)" "SubTransCtl s' = SubTransCtl s"
proof -
  note r = renumber_fold[OF assms(1) order_refl, of a, folded renumber_from_def, folded s'_def]
  have eq: "(allProcs s' q)\<lparr>pgxactoff := 0\<rparr> = (allProcs s q)\<lparr>pgxactoff := 0\<rparr>" using r by blast
  have f: "f (allProcs s' q) = f (allProcs s q)" if "\<And>p. f (p\<lparr>pgxactoff := 0\<rparr>) = f p" for f :: "PGPROC \<Rightarrow> 'b"
    using arg_cong[OF eq, of f] that by simp
  show "proc_xid (allProcs s' q) = proc_xid (allProcs s q)" "subxidStatus (allProcs s' q) = subxidStatus (allProcs s q)"
    "statusFlags (allProcs s' q) = statusFlags (allProcs s q)" "running_of (allProcs s' q) = running_of (allProcs s q)"
    "proc_ok (allProcs s' q) = proc_ok (allProcs s q)" "subxids (allProcs s' q) = subxids (allProcs s q)"
    using arg_cong[OF eq, of proc_xid] arg_cong[OF eq, of subxidStatus] arg_cong[OF eq, of statusFlags]
      arg_cong[OF eq, of subxids]
    by (simp_all add: running_of_def proc_ok_def)
qed (use renumber_fold[OF assms(1) order_refl, of a, folded renumber_from_def, folded s'_def] in auto)

lemma Add_effect:
  assumes s: "procarray_ok s" and p: "p \<notin> set (pgprocnos s)" "proc_ok (allProcs s p)" and "numProcs s < maxProcs s"
  shows "\<exists>s'. ProcArrayAdd p s = Inr s' \<and> procarray_ok s' \<and> TransamVariables s' = TransamVariables s
     \<and> set (pgprocnos s') = insert p (set (pgprocnos s)) \<and> SubTransCtl s' = SubTransCtl s
     \<and> (\<forall>q. cached (allProcs s' q) = cached (allProcs s q))
     \<and> proc_view s' = (proc_view s)(p \<mapsto> running_of (allProcs s p))"
proof -
  define index where "index = length (takeWhile (\<lambda>q. \<not> q > p) (pgprocnos s))"
  define t where "t = upd_proc p (\<lambda>p. p\<lparr>pgxactoff := index\<rparr>)
     (s\<lparr>pgprocnos := insert_at index p (pgprocnos s),
        pg_xids := insert_at index (proc_xid (allProcs s p)) (pg_xids s),
        pg_subxidStates := insert_at index (subxidStatus (allProcs s p)) (pg_subxidStates s),
        pg_statusFlags := insert_at index (statusFlags (allProcs s p)) (pg_statusFlags s)\<rparr>)"
  define s' where "s' = renumber_from (Suc index) t"
  have add: "ProcArrayAdd p s = Inr s'"
    using assms(4) by (simp add: ProcArrayAdd_def s'_def t_def index_def Let_def)
  have nos: "pgprocnos t = insert_at index p (pgprocnos s)" by (simp add: t_def)
  have srt: "sorted_wrt (<) (pgprocnos t)"
    using insert_sorted_place[of "pgprocnos s" p] s p(1) by (simp add: nos index_def procarray_ok_def)
  then have "distinct (pgprocnos t)" by (simp add: strict_sorted_iff)
  note r = renumber_effect[OF this, where a = "Suc index", folded s'_def]
  have len: "index \<le> numProcs s" by (simp add: index_def length_takeWhile_le)
  have off: "pgxactoff (allProcs s' (pgprocnos t ! i)) = i" if "i < numProcs t" for i
  proof (cases "i < index")
    case True
    then have "pgprocnos t ! i = pgprocnos s ! i" using len by (simp add: nos insert_at_def nth_append)
    moreover have "pgprocnos s ! i \<noteq> p" using p(1) True len by (metis nth_mem order_less_le_trans)
    ultimately show ?thesis
      using r(12)[OF that] True pgxactoff_nth[OF s, of i] len by (simp add: t_def)
  next
    case False
    have "pgprocnos t ! index = p" using len by (simp add: nos insert_at_def nth_append)
    then show ?thesis using r(12)[OF that] False by (cases "i = index") (simp_all add: t_def)
  qed
  have same: "proc_xid (allProcs s' q) = proc_xid (allProcs s q)" "subxidStatus (allProcs s' q) = subxidStatus (allProcs s q)"
    "statusFlags (allProcs s' q) = statusFlags (allProcs s q)" "proc_ok (allProcs s' q) = proc_ok (allProcs s q)"
    "running_of (allProcs s' q) = running_of (allProcs s q)" for q
    by (simp_all only: r) (simp_all add: t_def proc_ok_def running_of_def)
  have dense: "pg_xids t = insert_at index (proc_xid (allProcs s p)) (pg_xids s)"
    "pg_subxidStates t = insert_at index (subxidStatus (allProcs s p)) (pg_subxidStates s)"
    "pg_statusFlags t = insert_at index (statusFlags (allProcs s p)) (pg_statusFlags s)" "maxProcs t = maxProcs s"
    by (simp_all add: t_def)
  have "map (\<lambda>q. pgxactoff (allProcs s' q)) (pgprocnos t) = [0..<numProcs t]"
    using off by (intro nth_equalityI) simp_all
  then have "procarray_ok s'"
    using s p assms(4) srt unfolding procarray_ok_def r(1-6) same dense
    by (simp add: nos insert_at_map set_insert_at)
  moreover have "proc_view s' = (proc_view s)(p \<mapsto> running_of (allProcs s p))"
    by (simp add: proc_view_def fun_eq_iff same r(1) nos set_insert_at)
  moreover have "cached (allProcs s' q) = cached (allProcs s q)" for q
    by (simp only: r) (simp add: t_def)
  ultimately show ?thesis
    using add r(1,6) r(14) by (simp add: nos set_insert_at t_def)
qed

lemma Remove_effect:
  fixes latestXid :: TransactionId
  assumes s: "procarray_ok s" "p \<in> set (pgprocnos s)"
  defines "s' \<equiv> ProcArrayRemove p latestXid s"
  shows "procarray_ok s'" "proc_view s' = (proc_view s)(p := None)"
    "set (pgprocnos s') = set (pgprocnos s) - {p}"
    "TransamVariables s' = (if TransactionIdIsValid latestXid
        then bump_xactCompletionCount (MaintainLatestCompletedXid latestXid (TransamVariables s))
        else TransamVariables s)"
    "SubTransCtl s' = SubTransCtl s" "cached (allProcs s' q) = cached (allProcs s q)"
proof -
  define off where "off = pgxactoff (allProcs s p)"
  have off: "off < numProcs s" "pgprocnos s ! off = p" using pgprocnos_pgxactoff[OF s] by (simp_all add: off_def)
  define t where "t = (if TransactionIdIsValid latestXid
      then upd_tv (bump_xactCompletionCount \<circ> MaintainLatestCompletedXid latestXid)
             (s\<lparr>pg_xids := (pg_xids s)[off := InvalidTransactionId],
                pg_subxidStates := (pg_subxidStates s)[off := \<lparr>cs_count = 0, cs_overflowed = False\<rparr>]\<rparr>)
      else s)"
  define u where "u = t\<lparr>pgprocnos := remove_at off (pgprocnos t), pg_xids := remove_at off (pg_xids t),
      pg_subxidStates := remove_at off (pg_subxidStates t),
      pg_statusFlags := remove_at off ((pg_statusFlags t)[off := 0])\<rparr>"
  have s'u: "s' = renumber_from off u"
    by (simp add: s'_def ProcArrayRemove_def u_def t_def off_def Let_def)
  have tsel: "allProcs t = allProcs s" "pgprocnos t = pgprocnos s" "maxProcs t = maxProcs s"
    "pg_statusFlags t = pg_statusFlags s"
    "TransamVariables t = (if TransactionIdIsValid latestXid
        then bump_xactCompletionCount (MaintainLatestCompletedXid latestXid (TransamVariables s))
        else TransamVariables s)" by (simp_all add: t_def)
  have usel: "allProcs u = allProcs s" "pgprocnos u = remove_at off (pgprocnos s)" "maxProcs u = maxProcs s"
    "TransamVariables u = TransamVariables t"
    "pg_xids u = remove_at off (pg_xids s)" "pg_subxidStates u = remove_at off (pg_subxidStates s)"
    "pg_statusFlags u = remove_at off (pg_statusFlags s)"
    by (simp_all add: u_def tsel) (simp_all add: t_def remove_at_def)
  have nos: "pgprocnos u = filter (\<lambda>q. q \<noteq> p) (pgprocnos s)"
    using remove_at_nth_eq[OF off(1) procarray_distinct[OF s(1)]] by (simp add: usel off(2))
  have srt: "sorted_wrt (<) (pgprocnos u)"
    using s(1) by (simp add: nos procarray_ok_def sorted_wrt_filter)
  then have "distinct (pgprocnos u)" by (simp add: strict_sorted_iff)
  note r = renumber_effect[OF this, where a = off, folded s'u]
  have len: "numProcs u = numProcs s - 1" using off(1) by (simp add: usel remove_at_def)
  have offs: "pgxactoff (allProcs s' (pgprocnos u ! i)) = i" if i: "i < numProcs u" for i
  proof (cases "i < off")
    case True
    then have "pgprocnos u ! i = pgprocnos s ! i" using off(1) by (simp add: usel remove_at_def nth_append)
    then show ?thesis using r(12)[OF i] True pgxactoff_nth[OF s(1), of i] off(1) by (simp add: usel)
  qed (use r(12)[OF i] in simp)
  have offs': "map (\<lambda>q. pgxactoff (allProcs s' q)) (pgprocnos u) = [0..<numProcs u]"
    using offs by (intro nth_equalityI) simp_all
  show "procarray_ok s'"
    using s srt offs' len unfolding procarray_ok_def r(1-6) r(7-11) usel(1,3,5-7)
    by (simp add: usel(2) remove_at_map) (auto simp flip: usel(2) simp: nos)
  show "proc_view s' = (proc_view s)(p := None)"
    by (auto simp: proc_view_def fun_eq_iff r(1) r(10) usel(1) nos)
  show "set (pgprocnos s') = set (pgprocnos s) - {p}" by (auto simp: r(1) nos)
  show "TransamVariables s' = (if TransactionIdIsValid latestXid
        then bump_xactCompletionCount (MaintainLatestCompletedXid latestXid (TransamVariables s))
        else TransamVariables s)" by (simp add: r(6) usel(4) tsel(5))
  show "SubTransCtl s' = SubTransCtl s" by (simp add: r(14) u_def t_def)
  show "cached (allProcs s' q) = cached (allProcs s q)" by (simp only: r usel(1))
qed

section \<open>Storing a new id\<close>

lemma set_take_Suc_update:
  "n < length xs \<Longrightarrow> set (take (Suc n) (xs[n := x])) = insert x (set (take n xs))"
  by (simp add: take_Suc_conv_app_nth)

text \<open>What the process is after its new id has been stored.\<close>

definition stored_proc :: "bool \<Rightarrow> TransactionId \<Rightarrow> PGPROC \<Rightarrow> PGPROC" where
  "stored_proc isSubXact xid p =
     (if \<not> isSubXact then p\<lparr>proc_xid := xid\<rparr>
      else if cs_count (subxidStatus p) < PGPROC_MAX_CACHED_SUBXIDS
      then p\<lparr>subxids := (subxids p)[cs_count (subxidStatus p) := xid],
             subxidStatus := (subxidStatus p)\<lparr>cs_count := Suc (cs_count (subxidStatus p))\<rparr>\<rparr>
      else p\<lparr>subxidStatus := (subxidStatus p)\<lparr>cs_overflowed := True\<rparr>\<rparr>)"

lemma stored_proc_sel [simp]:
  "pgxactoff (stored_proc sub xid p) = pgxactoff p" "statusFlags (stored_proc sub xid p) = statusFlags p"
  "proc_xid (stored_proc sub xid p) = (if sub then proc_xid p else xid)"
  by (simp_all add: stored_proc_def)

lemma stored_running:
  assumes "proc_ok p"
  shows "running_of (stored_proc sub xid p) = (case running_of p of (x, subs, ovf) \<Rightarrow>
      if \<not> sub then (xid, subs, ovf)
      else if cs_count (subxidStatus p) < PGPROC_MAX_CACHED_SUBXIDS then (x, insert xid subs, ovf)
      else (x, subs, True))"
  using assms by (auto simp: running_of_def stored_proc_def proc_ok_def set_take_Suc_update simp del: take_Suc)

lemma store_sel:
  "allProcs (store_new_xid p sub xid s) = (allProcs s)(p := stored_proc sub xid (allProcs s p))"
  "pgprocnos (store_new_xid p sub xid s) = pgprocnos s" "maxProcs (store_new_xid p sub xid s) = maxProcs s"
  "TransamVariables (store_new_xid p sub xid s) = TransamVariables s"
  "XactCtl (store_new_xid p sub xid s) = XactCtl s" "SubTransCtl (store_new_xid p sub xid s) = SubTransCtl s"
  by (simp_all add: store_new_xid_def stored_proc_def Let_def)

lemma store_dense:
  fixes sub :: bool and xid :: TransactionId
  assumes "procarray_ok s" "p \<in> set (pgprocnos s)"
  defines "off \<equiv> pgxactoff (allProcs s p)" and "v \<equiv> stored_proc sub xid (allProcs s p)"
  shows "pg_xids (store_new_xid p sub xid s) = (pg_xids s)[off := proc_xid v]"
    "pg_subxidStates (store_new_xid p sub xid s) = (pg_subxidStates s)[off := subxidStatus v]"
    "pg_statusFlags (store_new_xid p sub xid s) = (pg_statusFlags s)[off := statusFlags v]"
  using dense_same[OF assms(1,2)] dense_nth[OF assms(1,2)]
  by (auto simp: store_new_xid_def stored_proc_def Let_def off_def v_def)

lemma store_effect:
  assumes "procarray_ok s" "p \<in> set (pgprocnos s)"
    and "if sub then TransactionIdIsValid (proc_xid (allProcs s p)) else TransactionIdIsValid xid"
  shows "procarray_ok (store_new_xid p sub xid s)"
    "proc_view (store_new_xid p sub xid s) = (proc_view s)(p \<mapsto> running_of (stored_proc sub xid (allProcs s p)))"
proof -
  have v: "pgxactoff (stored_proc sub xid (allProcs s p)) = pgxactoff (allProcs s p)"
    "proc_ok (stored_proc sub xid (allProcs s p))"
    using procarray_proc_ok[OF assms(1,2)] assms(3) by (auto simp: proc_ok_def stored_proc_def)
  note u = procarray_ok_upd[OF assms(1,2) store_sel(1-3) v store_dense[OF assms(1,2)]]
  show "procarray_ok (store_new_xid p sub xid s)" by (rule u(1))
  show "proc_view (store_new_xid p sub xid s) = (proc_view s)(p \<mapsto> running_of (stored_proc sub xid (allProcs s p)))"
    by (rule u(2))
qed

section \<open>Removing subtransactions from the cache\<close>

lemma subxid_index_Some: "subxid_index xids x n = Some j \<Longrightarrow> j < n \<and> xids ! j = x"
  by (induction n) (auto split: if_splits)

lemma subxid_index_None:
  assumes "n \<le> length xids"
  shows "subxid_index xids x n = None \<longleftrightarrow> x \<notin> set (take n xids)"
  using assms by (induction n) (auto simp: take_Suc_conv_app_nth)

lemma take_swap_remove:
  assumes "distinct (take n xs)" "n \<le> length xs" "j < n"
  defines "ys \<equiv> take (n - 1) (xs[j := xs ! (n - 1)])"
  shows "distinct ys \<and> set ys = set (take n xs) - {xs ! j}"
proof -
  obtain m where n: "n = Suc m" using assms(3) by (cases n) auto
  have m: "take n xs = take m xs @ [xs ! m]" using assms(2) by (simp add: n take_Suc_conv_app_nth)
  have d: "distinct (take m xs)" "xs ! m \<notin> set (take m xs)" using assms(1) by (simp_all add: m)
  show ?thesis
  proof (cases "j = m")
    case True
    then show ?thesis using d by (auto simp: ys_def n m[unfolded n])
  next
    case False
    then have j: "j < m" "j < length (take m xs)" "take m xs ! j = xs ! j" using assms(2,3) by (simp_all add: n)
    have ys: "ys = (take m xs)[j := xs ! m]" using j by (simp add: ys_def n take_update_swap)
    have "set ys = insert (xs ! m) (set (take m xs) - {xs ! j})"
      using set_update_distinct[OF d(1) j(2)] j(3) by (simp add: ys)
    moreover have "xs ! m \<noteq> xs ! j" using d(2) j by (metis nth_mem)
    moreover have "distinct ys" using d j by (simp add: ys distinct_list_update)
    ultimately show ?thesis by (auto simp: m)
  qed
qed

text \<open>The process after one removal.\<close>

definition uncached_proc :: "TransactionId \<Rightarrow> PGPROC \<Rightarrow> PGPROC" where
  "uncached_proc x p = (case subxid_index (subxids p) x (cs_count (subxidStatus p)) of
     Some j \<Rightarrow> p\<lparr>subxids := (subxids p)[j := subxids p ! (cs_count (subxidStatus p) - 1)],
                 subxidStatus := (subxidStatus p)\<lparr>cs_count := cs_count (subxidStatus p) - 1\<rparr>\<rparr>
   | None \<Rightarrow> p)"

lemma uncached_proc_sel:
  assumes "proc_ok p" "distinct (cached p)"
  shows "proc_ok (uncached_proc x p)" "distinct (cached (uncached_proc x p))"
    "set (cached (uncached_proc x p)) = set (cached p) - {x}"
    "pgxactoff (uncached_proc x p) = pgxactoff p" "proc_xid (uncached_proc x p) = proc_xid p"
    "statusFlags (uncached_proc x p) = statusFlags p"
    "cs_overflowed (subxidStatus (uncached_proc x p)) = cs_overflowed (subxidStatus p)"
proof -
  have n: "cs_count (subxidStatus p) \<le> length (subxids p)" using assms(1) by (simp add: proc_ok_def)
  have "distinct (cached (uncached_proc x p)) \<and> set (cached (uncached_proc x p)) = set (cached p) - {x}"
  proof (cases "subxid_index (subxids p) x (cs_count (subxidStatus p))")
    case None
    then show ?thesis using subxid_index_None[OF n, of x] assms(2) by (simp add: uncached_proc_def)
  next
    case (Some j)
    then show ?thesis
      using take_swap_remove[OF assms(2) n, of j] subxid_index_Some[OF Some] by (simp add: uncached_proc_def)
  qed
  then show "distinct (cached (uncached_proc x p))" "set (cached (uncached_proc x p)) = set (cached p) - {x}"
    by simp_all
  show "proc_ok (uncached_proc x p)"
    using assms(1) subxid_index_Some by (auto simp: proc_ok_def uncached_proc_def split: option.splits)
qed (auto simp: uncached_proc_def split: option.splits)

lemma cache_remove_sel:
  "allProcs (fst (cache_remove p x (s, w))) = (allProcs s)(p := uncached_proc x (allProcs s p))"
  "pgprocnos (fst (cache_remove p x (s, w))) = pgprocnos s" "maxProcs (fst (cache_remove p x (s, w))) = maxProcs s"
  "TransamVariables (fst (cache_remove p x (s, w))) = TransamVariables s"
  "XactCtl (fst (cache_remove p x (s, w))) = XactCtl s" "SubTransCtl (fst (cache_remove p x (s, w))) = SubTransCtl s"
  by (simp_all add: cache_remove_def uncached_proc_def Let_def split: option.split)

lemma cache_remove_dense:
  fixes x :: TransactionId
  assumes "procarray_ok s" "p \<in> set (pgprocnos s)"
  defines "off \<equiv> pgxactoff (allProcs s p)" and "v \<equiv> uncached_proc x (allProcs s p)"
  shows "pg_xids (fst (cache_remove p x (s, w))) = (pg_xids s)[off := proc_xid v]"
    "pg_subxidStates (fst (cache_remove p x (s, w))) = (pg_subxidStates s)[off := subxidStatus v]"
    "pg_statusFlags (fst (cache_remove p x (s, w))) = (pg_statusFlags s)[off := statusFlags v]"
  using dense_same[OF assms(1,2)] dense_nth[OF assms(1,2)]
  by (simp_all add: cache_remove_def uncached_proc_def Let_def off_def v_def split: option.split)

lemma cache_remove_effect:
  assumes "procarray_ok s" "p \<in> set (pgprocnos s)" "distinct (cached (allProcs s p))"
    and r: "cache_remove p x (s, w) = (s', w')"
  shows "procarray_ok s'" "distinct (cached (allProcs s' p))" "pgprocnos s' = pgprocnos s"
    "TransamVariables s' = TransamVariables s" "q \<noteq> p \<Longrightarrow> allProcs s' q = allProcs s q"
    "running_of (allProcs s' p) = (proc_xid (allProcs s p), set (cached (allProcs s p)) - {x},
       cs_overflowed (subxidStatus (allProcs s p)))"
    "proc_view s' = (proc_view s)(p \<mapsto> running_of (allProcs s' p))"
    "w' = (if x \<in> set (cached (allProcs s p)) \<or> cs_overflowed (subxidStatus (allProcs s p)) then w else w @ [x])"
proof -
  let ?p = "allProcs s p"
  have ok: "proc_ok ?p" by (rule procarray_proc_ok[OF assms(1,2)])
  have s': "s' = fst (cache_remove p x (s, w))" using r by simp
  note v = uncached_proc_sel[OF ok assms(3), of x]
  note u = procarray_ok_upd[OF assms(1,2) cache_remove_sel(1-3)[of p x s w] v(4,1) cache_remove_dense[OF assms(1,2)]]
  show "procarray_ok s'" unfolding s' by (rule u(1))
  have all: "allProcs s' = (allProcs s)(p := uncached_proc x ?p)" by (simp add: s' cache_remove_sel)
  show "proc_view s' = (proc_view s)(p \<mapsto> running_of (allProcs s' p))" using u(2) by (simp add: all flip: s')
  show "distinct (cached (allProcs s' p))" using v(2) by (simp add: all)
  show "pgprocnos s' = pgprocnos s" "TransamVariables s' = TransamVariables s" by (simp_all add: s' cache_remove_sel)
  show "q \<noteq> p \<Longrightarrow> allProcs s' q = allProcs s q" by (simp add: all)
  show "running_of (allProcs s' p) = (proc_xid ?p, set (cached ?p) - {x}, cs_overflowed (subxidStatus ?p))"
    using v(3,5,7) by (simp add: all running_of_def)
  have n: "cs_count (subxidStatus ?p) \<le> length (subxids ?p)" using ok by (simp add: proc_ok_def)
  show "w' = (if x \<in> set (cached ?p) \<or> cs_overflowed (subxidStatus ?p) then w else w @ [x])"
    using r subxid_index_None[OF n, of x]
    by (cases "subxid_index (subxids ?p) x (cs_count (subxidStatus ?p))") (auto simp: cache_remove_def Let_def)
qed

lemma cache_remove_fold:
  assumes "procarray_ok s" "p \<in> set (pgprocnos s)" "distinct (cached (allProcs s p))"
    and "fold (cache_remove p) xids (s, w) = (s', w')"
  shows "procarray_ok s' \<and> distinct (cached (allProcs s' p)) \<and> pgprocnos s' = pgprocnos s
     \<and> TransamVariables s' = TransamVariables s \<and> (\<forall>q. q \<noteq> p \<longrightarrow> allProcs s' q = allProcs s q)
     \<and> running_of (allProcs s' p) = (proc_xid (allProcs s p), set (cached (allProcs s p)) - set xids,
         cs_overflowed (subxidStatus (allProcs s p)))
     \<and> proc_view s' = (proc_view s)(p \<mapsto> running_of (allProcs s' p))
     \<and> (set xids \<subseteq> set (cached (allProcs s p)) \<longrightarrow> distinct xids \<longrightarrow> w' = w)"
  using assms
proof (induction xids arbitrary: s w)
  case Nil
  then show ?case by (auto simp: running_of_def proc_view_def)
next
  case (Cons x xids)
  obtain t u where t: "cache_remove p x (s, w) = (t, u)" by force
  note e = cache_remove_effect[OF Cons.prems(1-3) t]
  have f: "proc_xid (allProcs t p) = proc_xid (allProcs s p)" "set (cached (allProcs t p)) = set (cached (allProcs s p)) - {x}"
    "cs_overflowed (subxidStatus (allProcs t p)) = cs_overflowed (subxidStatus (allProcs s p))"
    using e(6) by (simp_all add: running_of_def)
  have "fold (cache_remove p) xids (t, u) = (s', w')" using Cons.prems(4) t by simp
  note IH = Cons.IH[OF e(1) _ e(2) this]
  have *: "u = w" if "x \<in> set (cached (allProcs s p))" using e(8) that by simp
  from IH show ?case
    using Cons.prems(2) e(3,4,5,7) * unfolding f by (auto simp: fun_eq_iff)
qed

lemma RemoveRunning_effect:
  assumes "procarray_ok s" "p \<in> set (pgprocnos s)" "distinct (cached (allProcs s p))"
    and "XidCacheRemoveRunningXids p xid xids latestXid s = (s', w)"
  shows "procarray_ok s'" "pgprocnos s' = pgprocnos s" "distinct (cached (allProcs s' p))"
    "TransamVariables s' = bump_xactCompletionCount (MaintainLatestCompletedXid latestXid (TransamVariables s))"
    "q \<noteq> p \<Longrightarrow> allProcs s' q = allProcs s q"
    "proc_view s' = (proc_view s)(p \<mapsto> (proc_xid (allProcs s p), set (cached (allProcs s p)) - set (xid # xids),
         cs_overflowed (subxidStatus (allProcs s p))))"
    "distinct (xid # xids) \<Longrightarrow> set (xid # xids) \<subseteq> set (cached (allProcs s p)) \<Longrightarrow> w = []"
proof -
  obtain t u where t: "fold (cache_remove p) (rev xids @ [xid]) (s, []) = (t, u)" by force
  then have s': "s' = upd_tv (bump_xactCompletionCount \<circ> MaintainLatestCompletedXid latestXid) t" "w = u"
    using assms(4) by (auto simp: XidCacheRemoveRunningXids_def Let_def split: prod.splits)
  note f = cache_remove_fold[OF assms(1-3) t]
  have ok: "procarray_ok (upd_tv g t) = procarray_ok t" "proc_view (upd_tv g t) = proc_view t" for g
    by (auto simp: procarray_ok_def proc_view_def fun_eq_iff)
  have st: "set (rev xids @ [xid]) = set (xid # xids)" by auto
  from f show "procarray_ok s'" "pgprocnos s' = pgprocnos s" "distinct (cached (allProcs s' p))"
    "TransamVariables s' = bump_xactCompletionCount (MaintainLatestCompletedXid latestXid (TransamVariables s))"
    "q \<noteq> p \<Longrightarrow> allProcs s' q = allProcs s q"
    by (simp_all add: s' ok)
  from f show "proc_view s' = (proc_view s)(p \<mapsto> (proc_xid (allProcs s p), set (cached (allProcs s p)) - set (xid # xids),
         cs_overflowed (subxidStatus (allProcs s p))))" unfolding s' ok st by simp
  show "distinct (xid # xids) \<Longrightarrow> set (xid # xids) \<subseteq> set (cached (allProcs s p)) \<Longrightarrow> w = []"
    using f unfolding s' st by auto
qed

section \<open>The interface of the process array\<close>

text \<open>
  What a client of the array relies on when transactions end: the operation keeps the array
  consistent and its members, and makes exactly one process idle.
\<close>

locale proc_table =
  fixes ok :: "'s \<Rightarrow> bool" and members :: "'s \<Rightarrow> nat set" and view :: "'s \<Rightarrow> nat \<rightharpoonup> 'v"
    and ending :: "nat \<Rightarrow> 'x \<Rightarrow> 's \<Rightarrow> 's" and idle :: 'v
  assumes ending_ok: "ok s \<Longrightarrow> p \<in> members s \<Longrightarrow> ok (ending p x s)"
    and ending_members: "members (ending p x s) = members s"
    and ending_view: "ok s \<Longrightarrow> p \<in> members s \<Longrightarrow> view (ending p x s) = (view s)(p \<mapsto> idle)"
begin

lemma ending_all:
  assumes "ok s" "fst ` set reqs \<subseteq> members s"
  shows "ok (fold (\<lambda>(p, x). ending p x) reqs s) \<and> members (fold (\<lambda>(p, x). ending p x) reqs s) = members s
     \<and> view (fold (\<lambda>(p, x). ending p x) reqs s) = (\<lambda>q. if q \<in> fst ` set reqs then Some idle else view s q)"
  using assms
proof (induction reqs arbitrary: s)
  case (Cons r reqs)
  then show ?case
    using Cons.IH[of "ending (fst r) (snd r) s"] ending_ok ending_members ending_view
    by (auto simp: case_prod_beta fun_eq_iff)
qed simp

end

interpretation proctab: proc_table procarray_ok "\<lambda>s. set (pgprocnos s)" proc_view
  ProcArrayEndTransactionInternal idle_view
  by unfold_locales (simp_all add: EndInternal_effect EndInternal_sel)

section \<open>Clearing a group of processes\<close>

fun group_chain :: "(nat \<Rightarrow> PGPROC) \<Rightarrow> nat option \<Rightarrow> nat list \<Rightarrow> bool" where
  "group_chain procs first [] \<longleftrightarrow> first = None"
| "group_chain procs first (p # ps) \<longleftrightarrow> first = Some p \<and> group_chain procs (procArrayGroupNext (procs p)) ps"

lemma group_chain_cong:
  "(\<forall>p \<in> set ps. procArrayGroupNext (procs' p) = procArrayGroupNext (procs p)) \<Longrightarrow>
    group_chain procs' first ps = group_chain procs first ps"
  by (induction ps arbitrary: first) auto

definition group_reqs :: "(nat \<Rightarrow> PGPROC) \<Rightarrow> nat list \<Rightarrow> (nat \<times> TransactionId) list" where
  "group_reqs procs ps = map (\<lambda>p. (p, procArrayGroupMemberXid (procs p))) ps"

lemma group_reqs_simps [simp]:
  "group_reqs procs [] = []"
  "group_reqs procs (p # ps) = (p, procArrayGroupMemberXid (procs p)) # group_reqs procs ps"
  by (simp_all add: group_reqs_def)

lemma group_reqs_cong:
  "(\<And>p. p \<in> set ps \<Longrightarrow> procArrayGroupMemberXid (procs' p) = procArrayGroupMemberXid (procs p)) \<Longrightarrow>
    group_reqs procs' ps = group_reqs procs ps"
  by (simp add: group_reqs_def)

lemma ended_group [simp]:
  "procArrayGroupNext (ended_proc p) = procArrayGroupNext p"
  "procArrayGroupMemberXid (ended_proc p) = procArrayGroupMemberXid p"
  by (simp_all add: ended_proc_def)

lemma group_end_fold:
  assumes "group_chain (allProcs s) first ps" "distinct ps"
  shows "group_end_loop first s
     = Some (fold (\<lambda>(p, x). ProcArrayEndTransactionInternal p x) (group_reqs (allProcs s) ps) s)"
  using assms
proof (induction ps arbitrary: first s)
  case Nil
  then show ?case by (subst group_end_loop.simps) (simp add: group_reqs_def)
next
  case (Cons p ps)
  let ?s = "ProcArrayEndTransactionInternal p (procArrayGroupMemberXid (allProcs s p)) s"
  have "group_chain (allProcs ?s) (procArrayGroupNext (allProcs ?s p)) ps"
    using Cons.prems by (subst group_chain_cong[of _ _ "allProcs s"]) (auto simp: EndInternal_sel)
  then have "group_end_loop (procArrayGroupNext (allProcs ?s p)) ?s
     = Some (fold (\<lambda>(p, x). ProcArrayEndTransactionInternal p x) (group_reqs (allProcs ?s) ps) ?s)"
    using Cons by simp
  moreover have "group_reqs (allProcs ?s) ps = group_reqs (allProcs s) ps"
    by (auto simp: group_reqs_def EndInternal_sel)
  moreover have "group_reqs (allProcs s) (p # ps)
     = (p, procArrayGroupMemberXid (allProcs s p)) # group_reqs (allProcs s) ps"
    by (simp add: group_reqs_def)
  ultimately show ?case
    using Cons.prems(1) by (subst group_end_loop.simps) (simp add: Let_def)
qed

definition wake :: "nat \<Rightarrow> shmem \<Rightarrow> shmem" where
  "wake n s = upd_proc n (\<lambda>p. p\<lparr>procArrayGroupNext := None, procArrayGroupMember := False\<rparr>) s"

lemma group_wake_fold:
  assumes "group_chain (allProcs s) first ps" "distinct ps"
  shows "group_wake_loop first s = Some (fold wake ps s)"
  using assms
proof (induction ps arbitrary: first s)
  case Nil
  then show ?case by (subst group_wake_loop.simps) simp
next
  case (Cons p ps)
  have "group_chain (allProcs (wake p s)) (procArrayGroupNext (allProcs s p)) ps"
    using Cons.prems by (subst group_chain_cong[of _ _ "allProcs s"]) (auto simp: wake_def)
  then show ?case
    using Cons by (subst group_wake_loop.simps) (simp flip: wake_def)
qed

lemma wake_sel [simp]:
  "pgprocnos (wake n s) = pgprocnos s" "pg_xids (wake n s) = pg_xids s" "pg_statusFlags (wake n s) = pg_statusFlags s"
  "pg_subxidStates (wake n s) = pg_subxidStates s" "TransamVariables (wake n s) = TransamVariables s"
  "maxProcs (wake n s) = maxProcs s" "procArrayGroupFirst (wake n s) = procArrayGroupFirst s"
  by (simp_all add: wake_def)

lemma procarray_cong:
  assumes "\<And>q. pgxactoff (allProcs t q) = pgxactoff (allProcs s q) \<and> proc_xid (allProcs t q) = proc_xid (allProcs s q)
      \<and> statusFlags (allProcs t q) = statusFlags (allProcs s q)
      \<and> subxidStatus (allProcs t q) = subxidStatus (allProcs s q) \<and> subxids (allProcs t q) = subxids (allProcs s q)"
    and "pgprocnos t = pgprocnos s" "pg_xids t = pg_xids s" "pg_statusFlags t = pg_statusFlags s"
      "pg_subxidStates t = pg_subxidStates s" "maxProcs t = maxProcs s"
  shows "procarray_ok t = procarray_ok s" "proc_view t = proc_view s"
proof -
  have "proc_ok (allProcs t q) = proc_ok (allProcs s q)" "running_of (allProcs t q) = running_of (allProcs s q)" for q
    using assms(1)[of q] by (simp_all add: proc_ok_def running_of_def)
  then show "procarray_ok t = procarray_ok s" "proc_view t = proc_view s"
    using assms by (simp_all add: procarray_ok_def proc_view_def cong: if_cong)
qed

lemma wake_ok: "procarray_ok (wake n s) = procarray_ok s" and wake_view: "proc_view (wake n s) = proc_view s"
  by (rule procarray_cong; simp add: wake_def)+

lemma wake_fold:
  "pgprocnos (fold wake ps s) = pgprocnos s \<and> pg_xids (fold wake ps s) = pg_xids s
   \<and> pg_statusFlags (fold wake ps s) = pg_statusFlags s \<and> pg_subxidStates (fold wake ps s) = pg_subxidStates s
   \<and> TransamVariables (fold wake ps s) = TransamVariables s
   \<and> procArrayGroupFirst (fold wake ps s) = procArrayGroupFirst s
   \<and> (procarray_ok s \<longrightarrow> procarray_ok (fold wake ps s)) \<and> proc_view (fold wake ps s) = proc_view s
   \<and> (\<forall>p \<in> set ps. \<not> procArrayGroupMember (allProcs (fold wake ps s) p) \<and> procArrayGroupNext (allProcs (fold wake ps s) p) = None)"
proof (induction ps rule: rev_induct)
  case (snoc p ps)
  moreover have "allProcs (wake p (fold wake ps s)) q = (if q = p
      then (allProcs (fold wake ps s) p)\<lparr>procArrayGroupNext := None, procArrayGroupMember := False\<rparr>
      else allProcs (fold wake ps s) q)" for q
    by (simp add: wake_def)
  ultimately show ?case by (simp add: wake_ok wake_view)
qed simp

text \<open>Pushing the members: the list holds them, the last one first, each with its id.\<close>

definition push_all :: "(nat \<times> TransactionId) list \<Rightarrow> shmem \<Rightarrow> shmem" where
  "push_all = fold (\<lambda>(p, x) s. snd (group_push p x s))"

lemma group_push_sel:
  "allProcs (snd (group_push p x s)) = (allProcs s)(p := (allProcs s p)\<lparr>procArrayGroupMember := True,
     procArrayGroupMemberXid := x, procArrayGroupNext := procArrayGroupFirst s\<rparr>)"
  "fst (group_push p x s) = procArrayGroupFirst s" "procArrayGroupFirst (snd (group_push p x s)) = Some p"
  "pgprocnos (snd (group_push p x s)) = pgprocnos s" "pg_xids (snd (group_push p x s)) = pg_xids s"
  "pg_statusFlags (snd (group_push p x s)) = pg_statusFlags s" "maxProcs (snd (group_push p x s)) = maxProcs s"
  "pg_subxidStates (snd (group_push p x s)) = pg_subxidStates s"
  "TransamVariables (snd (group_push p x s)) = TransamVariables s"
  by (simp_all add: group_push_def Let_def)

lemma push_all_snoc: "push_all (reqs @ [(p, x)]) s = snd (group_push p x (push_all reqs s))"
  by (simp add: push_all_def)

lemma push_all_chain:
  assumes "procArrayGroupFirst s = None" "distinct (map fst reqs)"
  shows "group_chain (allProcs (push_all reqs s)) (procArrayGroupFirst (push_all reqs s)) (map fst (rev reqs))
     \<and> group_reqs (allProcs (push_all reqs s)) (map fst (rev reqs)) = rev reqs"
  using assms(2)
proof (induction reqs rule: rev_induct)
  case (snoc r reqs)
  obtain p x where r: "r = (p, x)" by force
  let ?t = "push_all reqs s"
  let ?procs = "allProcs (snd (group_push p x ?t))"
  have p: "p \<notin> set (map fst (rev reqs))" using snoc.prems by (simp add: r)
  have "group_chain ?procs (procArrayGroupFirst ?t) (map fst (rev reqs))"
    using p snoc by (subst group_chain_cong[of _ _ "allProcs ?t"]) (auto simp: group_push_sel)
  moreover have "group_reqs ?procs (map fst (rev reqs)) = rev reqs"
    using p snoc by (subst group_reqs_cong[of _ _ "allProcs ?t"]) (auto simp: group_push_sel)
  moreover have "map fst (rev (reqs @ [r])) = p # map fst (rev reqs)" "rev (reqs @ [r]) = (p, x) # rev reqs"
    "procArrayGroupMemberXid (?procs p) = x" "procArrayGroupNext (?procs p) = procArrayGroupFirst ?t"
    by (simp_all add: r group_push_sel)
  ultimately show ?case
    by (simp only: r push_all_snoc group_chain.simps group_reqs_simps group_push_sel(3) simp_thms)
qed (simp add: push_all_def assms(1))

lemma push_all_fields:
  "pgprocnos (push_all reqs s) = pgprocnos s \<and> pg_xids (push_all reqs s) = pg_xids s
     \<and> pg_statusFlags (push_all reqs s) = pg_statusFlags s \<and> pg_subxidStates (push_all reqs s) = pg_subxidStates s
     \<and> maxProcs (push_all reqs s) = maxProcs s \<and> TransamVariables (push_all reqs s) = TransamVariables s
     \<and> (\<forall>q. pgxactoff (allProcs (push_all reqs s) q) = pgxactoff (allProcs s q)
          \<and> proc_xid (allProcs (push_all reqs s) q) = proc_xid (allProcs s q)
          \<and> statusFlags (allProcs (push_all reqs s) q) = statusFlags (allProcs s q)
          \<and> subxidStatus (allProcs (push_all reqs s) q) = subxidStatus (allProcs s q)
          \<and> subxids (allProcs (push_all reqs s) q) = subxids (allProcs s q))"
proof (induction reqs rule: rev_induct)
  case (snoc r reqs)
  then show ?case by (cases r) (simp add: push_all_snoc group_push_sel)
qed (simp add: push_all_def)

text \<open>
  Ending the transactions of two states that differ only in the group fields gives states that
  differ only there.
\<close>

definition same_procs :: "shmem \<Rightarrow> shmem \<Rightarrow> bool" where
  "same_procs t s \<longleftrightarrow> pgprocnos t = pgprocnos s \<and> pg_xids t = pg_xids s \<and> pg_statusFlags t = pg_statusFlags s
     \<and> pg_subxidStates t = pg_subxidStates s \<and> maxProcs t = maxProcs s \<and> TransamVariables t = TransamVariables s
     \<and> (\<forall>q. pgxactoff (allProcs t q) = pgxactoff (allProcs s q) \<and> proc_xid (allProcs t q) = proc_xid (allProcs s q)
          \<and> statusFlags (allProcs t q) = statusFlags (allProcs s q)
          \<and> subxidStatus (allProcs t q) = subxidStatus (allProcs s q) \<and> subxids (allProcs t q) = subxids (allProcs s q))"

lemma same_procs_ok:
  assumes "same_procs t s"
  shows "procarray_ok t = procarray_ok s" "proc_view t = proc_view s"
  by (rule procarray_cong; use assms in \<open>simp add: same_procs_def\<close>)+

lemma same_procs_End:
  assumes "same_procs t s" "procarray_ok s" "p \<in> set (pgprocnos s)"
  shows "same_procs (ProcArrayEndTransactionInternal p x t) (ProcArrayEndTransactionInternal p x s)"
proof -
  have t: "procarray_ok t" "p \<in> set (pgprocnos t)"
    using assms same_procs_ok[OF assms(1)] by (simp_all add: same_procs_def)
  show ?thesis
    using assms(1) EndInternal_dense[OF t] EndInternal_dense[OF assms(2,3)]
    by (simp add: same_procs_def EndInternal_sel ended_proc_def)
qed

lemma same_procs_End_fold:
  assumes "same_procs t s" "procarray_ok s" "fst ` set reqs \<subseteq> set (pgprocnos s)"
  shows "same_procs (fold (\<lambda>(p, x). ProcArrayEndTransactionInternal p x) reqs t)
     (fold (\<lambda>(p, x). ProcArrayEndTransactionInternal p x) reqs s)"
  using assms
proof (induction reqs arbitrary: t s)
  case (Cons r reqs)
  then show ?case
    using Cons.IH[OF same_procs_End[of t s "fst r" "snd r"]]
    by (auto simp: case_prod_beta EndInternal_sel EndInternal_effect)
qed simp

lemma same_procs_wake: "same_procs (fold wake ps s) s"
proof -
  have "same_procs t s \<Longrightarrow> same_procs (fold wake ps t) s" for t
    by (induction ps arbitrary: t) (auto simp: same_procs_def wake_def)
  then show ?thesis by (simp add: same_procs_def)
qed

lemma same_procs_trans: "same_procs a b \<Longrightarrow> same_procs b c \<Longrightarrow> same_procs a c"
  by (auto simp: same_procs_def)

lemma End_fold_group:
  "procArrayGroupNext (allProcs (fold (\<lambda>(p, x). ProcArrayEndTransactionInternal p x) reqs u) q)
     = procArrayGroupNext (allProcs u q)
   \<and> procArrayGroupFirst (fold (\<lambda>(p, x). ProcArrayEndTransactionInternal p x) reqs u) = procArrayGroupFirst u"
  by (induction reqs arbitrary: u) (auto simp: EndInternal_sel case_prod_beta)

lemma group_clear:
  assumes "procarray_ok s" "procArrayGroupFirst s = None" "distinct (map fst reqs)"
    and "fst ` set reqs \<subseteq> set (pgprocnos s)"
  shows "\<exists>s'. group_lead (push_all reqs s) = Some s'
     \<and> same_procs s' (fold (\<lambda>(p, x). ProcArrayEndTransactionInternal p x) (rev reqs) s)
     \<and> procArrayGroupFirst s' = None
     \<and> (\<forall>p \<in> fst ` set reqs. \<not> procArrayGroupMember (allProcs s' p) \<and> procArrayGroupNext (allProcs s' p) = None)"
proof -
  let ?t = "push_all reqs s" and ?ps = "map fst (rev reqs)"
  let ?E = "fold (\<lambda>(p, x). ProcArrayEndTransactionInternal p x) (rev reqs)"
  let ?w = "?t\<lparr>procArrayGroupFirst := None\<rparr>"
  have t: "group_chain (allProcs ?w) (procArrayGroupFirst ?t) ?ps" "group_reqs (allProcs ?w) ?ps = rev reqs"
    "distinct ?ps"
    using push_all_chain[OF assms(2,3)] assms(3) by (simp_all flip: rev_map)
  have e: "group_end_loop (procArrayGroupFirst ?t) ?w = Some (?E ?w)"
    using group_end_fold[OF t(1,3)] t(2) by simp
  have same: "same_procs ?w s" using push_all_fields[of reqs s] by (simp add: same_procs_def)
  have endsel: "procArrayGroupNext (allProcs (?E u) q) = procArrayGroupNext (allProcs u q)
      \<and> procArrayGroupFirst (?E u) = procArrayGroupFirst u" for u q
    by (rule End_fold_group)
  have "group_chain (allProcs (?E ?w)) (procArrayGroupFirst ?t) ?ps"
    using t(1) endsel by (subst group_chain_cong[of _ _ "allProcs ?w"]) auto
  then have w: "group_wake_loop (procArrayGroupFirst ?t) (?E ?w) = Some (fold wake ?ps (?E ?w))"
    using group_wake_fold t(3) by blast
  have "same_procs (fold wake ?ps (?E ?w)) (?E s)"
    using same_procs_trans[OF same_procs_wake same_procs_End_fold[OF same assms(1)]] assms(4) by simp
  moreover have "group_lead ?t = Some (fold wake ?ps (?E ?w))"
    using e w by (simp add: group_lead_def Let_def)
  ultimately show ?thesis
    using wake_fold[of ?ps "?E ?w"] endsel[of ?w] by auto
qed

section \<open>The logs ahead of the next id\<close>

text \<open>
  The entries of the next id and of the ids after it on its page are clean, unless the page is
  still to be zeroed when the next id is assigned.
\<close>

definition fresh_from :: "nat \<Rightarrow> (TransactionId \<Rightarrow> bool) \<Rightarrow> TransactionId \<Rightarrow> bool" where
  "fresh_from n clean nx \<longleftrightarrow> unat nx mod n = 0 \<or> nx = FirstNormalTransactionId
     \<or> (\<forall>x. unat x div n = unat nx div n \<longrightarrow> unat nx \<le> unat x \<longrightarrow> clean x)"

lemma fresh_step:
  assumes "n > 0" "fresh_from n clean nx"
    and clean': "\<And>x. clean' x \<longleftrightarrow> unat x div n = unat nx div n \<and> (unat nx mod n = 0 \<or> nx = FirstNormalTransactionId) \<or> clean x"
  shows "clean' nx" "fresh_from n clean' (TransactionIdAdvance nx)"
proof -
  show "clean' nx" using assms(2) clean'[of nx] by (auto simp: fresh_from_def)
  show "fresh_from n clean' (TransactionIdAdvance nx)"
  proof (cases "nx + 1 < FirstNormalTransactionId")
    case True
    then show ?thesis by (simp add: fresh_from_def TransactionIdAdvance_def Let_def)
  next
    case False
    then have a: "TransactionIdAdvance nx = nx + 1" by (simp add: TransactionIdAdvance_def Let_def)
    have "nx + 1 \<noteq> 0" using False by (auto simp: FirstNormalTransactionId_def)
    then have u: "unat (nx + 1) = unat nx + 1" by (simp add: unatSuc add.commute)
    show ?thesis
    proof (cases "(unat nx + 1) mod n = 0")
      case True
      then show ?thesis by (simp add: a u fresh_from_def)
    next
      case mid: False
      then have "(unat nx + 1) div n = unat nx div n" by (simp add: div_Suc mod_Suc split: if_splits)
      then show ?thesis using assms(2) clean' by (auto simp: a u fresh_from_def)
    qed
  qed
qed

definition log_fresh :: "shmem \<Rightarrow> bool" where
  "log_fresh s \<longleftrightarrow> (let nx = XidFromFullTransactionId (nextXid (TransamVariables s)) in
     fresh_from CLOG_XACTS_PER_PAGE (\<lambda>x. xid_status (XactCtl s) x = TRANSACTION_STATUS_IN_PROGRESS) nx
     \<and> fresh_from SUBTRANS_XACTS_PER_PAGE (\<lambda>x. SubTransGetParent (SubTransCtl s) x = InvalidTransactionId) nx)"

lemma ExtendCLOG_clean:
  "xid_status (ExtendCLOG nx ctl) x = TRANSACTION_STATUS_IN_PROGRESS
     \<longleftrightarrow> unat x div CLOG_XACTS_PER_PAGE = unat nx div CLOG_XACTS_PER_PAGE
         \<and> (unat nx mod CLOG_XACTS_PER_PAGE = 0 \<or> nx = FirstNormalTransactionId)
       \<or> xid_status ctl x = TRANSACTION_STATUS_IN_PROGRESS"
  by (simp add: ExtendCLOG_def ZeroCLOGPage_status TransactionIdToPgIndex_def TransactionIdToPage_def)

lemma ExtendSUBTRANS_clean:
  "SubTransGetParent (ExtendSUBTRANS nx ctl) x = InvalidTransactionId
     \<longleftrightarrow> unat x div SUBTRANS_XACTS_PER_PAGE = unat nx div SUBTRANS_XACTS_PER_PAGE
         \<and> (unat nx mod SUBTRANS_XACTS_PER_PAGE = 0 \<or> nx = FirstNormalTransactionId)
       \<or> SubTransGetParent ctl x = InvalidTransactionId"
  by (simp add: ExtendSUBTRANS_def GetParent_ZeroPage SubTransToEntry_def SubTransToPage_def)

section \<open>Assigning an id\<close>

lemma assign_effect:
  assumes "procarray_ok s" "p \<in> set (pgprocnos s)" "counter_ok (TransamVariables s)"
    and "sub \<longrightarrow> TransactionIdIsValid (proc_xid (allProcs s p))"
    and r: "assign_new_xid p sub s = (full, s')"
  defines "x \<equiv> XidFromFullTransactionId (nextXid (TransamVariables s))"
  shows "full = nextXid (TransamVariables s)" "TransamVariables s' = assign_next (TransamVariables s)"
    "procarray_ok s'" "proc_view s' = (proc_view s)(p \<mapsto> running_of (stored_proc sub x (allProcs s p)))"
    "allProcs s' = (allProcs s)(p := stored_proc sub x (allProcs s p))" "pgprocnos s' = pgprocnos s"
    "XactCtl s' = ExtendCLOG x (XactCtl s)" "SubTransCtl s' = ExtendSUBTRANS x (SubTransCtl s)"
    "XidFromFullTransactionId (nextXid (TransamVariables s')) = TransactionIdAdvance x"
proof -
  define t where "t = upd_tv assign_next
     (s\<lparr>XactCtl := ExtendCLOG x (XactCtl s), SubTransCtl := ExtendSUBTRANS x (SubTransCtl s)\<rparr>)"
  have s': "s' = store_new_xid p sub x t" "full = nextXid (TransamVariables s)"
    using r by (auto simp: assign_new_xid_def t_def x_def Let_def)
  then show "full = nextXid (TransamVariables s)" by simp
  have tsel: "allProcs t = allProcs s" "pgprocnos t = pgprocnos s" by (simp_all add: t_def)
  have t: "procarray_ok t = procarray_ok s" "proc_view t = proc_view s"
    by (rule procarray_cong; simp add: t_def)+
  have v: "if sub then TransactionIdIsValid (proc_xid (allProcs t p)) else TransactionIdIsValid x"
    using assms(3,4) by (simp add: tsel x_def counter_ok_def valid_of_normal)
  have p: "procarray_ok t" "p \<in> set (pgprocnos t)" using assms(1,2) by (simp_all add: t tsel)
  show "procarray_ok s'" "proc_view s' = (proc_view s)(p \<mapsto> running_of (stored_proc sub x (allProcs s p)))"
    using store_effect[OF p v] by (simp_all add: s'(1) t tsel)
  show sel: "TransamVariables s' = assign_next (TransamVariables s)" "XactCtl s' = ExtendCLOG x (XactCtl s)"
    "SubTransCtl s' = ExtendSUBTRANS x (SubTransCtl s)"
    by (simp_all add: s'(1) store_sel t_def)
  show "allProcs s' = (allProcs s)(p := stored_proc sub x (allProcs s p))" "pgprocnos s' = pgprocnos s"
    by (simp_all add: s'(1) store_sel tsel)
  show "XidFromFullTransactionId (nextXid (TransamVariables s')) = TransactionIdAdvance x"
    using assign_next_xid[OF assms(3)] by (simp add: sel x_def)
qed

lemma assign_fresh:
  assumes "log_fresh s"
    and s': "XactCtl s' = ExtendCLOG x (XactCtl s)" "SubTransCtl s' = ExtendSUBTRANS x (SubTransCtl s)"
      "XidFromFullTransactionId (nextXid (TransamVariables s')) = TransactionIdAdvance x"
    and x: "x = XidFromFullTransactionId (nextXid (TransamVariables s))"
  shows "xid_status (XactCtl s') x = TRANSACTION_STATUS_IN_PROGRESS"
    "SubTransGetParent (SubTransCtl s') x = InvalidTransactionId" "log_fresh s'"
proof -
  have n: "0 < CLOG_XACTS_PER_PAGE" "0 < SUBTRANS_XACTS_PER_PAGE" by (simp_all add: page_simps SUBTRANS_XACTS_PER_PAGE_def)
  have fresh: "fresh_from CLOG_XACTS_PER_PAGE (\<lambda>y. xid_status (XactCtl s) y = TRANSACTION_STATUS_IN_PROGRESS) x"
    "fresh_from SUBTRANS_XACTS_PER_PAGE (\<lambda>y. SubTransGetParent (SubTransCtl s) y = InvalidTransactionId) x"
    using assms(1) by (simp_all add: log_fresh_def x Let_def)
  note c = fresh_step[OF n(1) fresh(1), where clean' = "\<lambda>y. xid_status (XactCtl s') y = TRANSACTION_STATUS_IN_PROGRESS",
      unfolded s'(1), OF ExtendCLOG_clean]
  note u = fresh_step[OF n(2) fresh(2), where clean' = "\<lambda>y. SubTransGetParent (SubTransCtl s') y = InvalidTransactionId",
      unfolded s'(2), OF ExtendSUBTRANS_clean]
  show "xid_status (XactCtl s') x = TRANSACTION_STATUS_IN_PROGRESS"
    "SubTransGetParent (SubTransCtl s') x = InvalidTransactionId" "log_fresh s'"
    using c u by (simp_all add: log_fresh_def s' Let_def)
qed

section \<open>The latest completed id\<close>

lemma Maintain_full:
  assumes "\<bar>uint (fxid_value f) - uint (fxid_value (latestCompletedXid tv))\<bar> < 2147483648"
    and "TransactionIdIsNormal (XidFromFullTransactionId f)"
    and "TransactionIdIsNormal (XidFromFullTransactionId (latestCompletedXid tv))"
  shows "MaintainLatestCompletedXid (XidFromFullTransactionId f) tv
     = tv\<lparr>latestCompletedXid := (if FullTransactionIdPrecedes (latestCompletedXid tv) f then f else latestCompletedXid tv)\<rparr>"
  using Precedes_full[of "latestCompletedXid tv" f] RelativeTo_full[of f "latestCompletedXid tv"] assms
  by (auto simp: MaintainLatestCompletedXid_def Let_def abs_minus_commute)

lemma MaintainRecovery_full:
  assumes "\<bar>uint (fxid_value f) - uint (fxid_value (nextXid tv))\<bar> < 2147483648"
    and "\<bar>uint (fxid_value f) - uint (fxid_value (latestCompletedXid tv))\<bar> < 2147483648"
    and "TransactionIdIsNormal (XidFromFullTransactionId f)"
    and "TransactionIdIsNormal (XidFromFullTransactionId (latestCompletedXid tv))"
  shows "MaintainLatestCompletedXidRecovery (XidFromFullTransactionId f) tv
     = tv\<lparr>latestCompletedXid := (if FullTransactionIdPrecedes (latestCompletedXid tv) f then f else latestCompletedXid tv)\<rparr>"
  using Precedes_full[of "latestCompletedXid tv" f] RelativeTo_full[of f "nextXid tv"] assms
  by (auto simp: MaintainLatestCompletedXidRecovery_def Let_def abs_minus_commute
      FullTransactionIdIsValid_def valid_of_normal)

section \<open>A small system\<close>

definition idle_proc :: PGPROC where
  "idle_proc = \<lparr>proc_xid = 0, proc_xmin = 0, pid = 1, pgxactoff = 0, procNumber = 0, lxid = 0, databaseId = 1,
     roleId = 1, isBackgroundWorker = False, recoveryConflictPending = False, waitLock = None, delayChkptFlags = 0,
     statusFlags = 0, subxidStatus = \<lparr>cs_count = 0, cs_overflowed = False\<rparr>, subxids = replicate 64 0,
     procArrayGroupMember = False, procArrayGroupNext = None, procArrayGroupMemberXid = 0\<rparr>"

text \<open>
  Two processes: number 1 runs transaction 10 with the subtransactions 11 and 12, number 4 is idle;
  the next id is 13 and the latest completed one 9.
\<close>

definition sample_proc :: PGPROC where
  "sample_proc = idle_proc\<lparr>proc_xid := 10, subxidStatus := \<lparr>cs_count = 2, cs_overflowed = False\<rparr>,
     subxids := 11 # 12 # replicate 62 0\<rparr>"

definition sample_shmem :: shmem where
  "sample_shmem = \<lparr>
     allProcs = (\<lambda>n. if n = 1 then sample_proc else if n = 4 then idle_proc\<lparr>pgxactoff := 1\<rparr> else idle_proc),
     pg_xids = [10, 0],
     pg_subxidStates = [\<lparr>cs_count = 2, cs_overflowed = False\<rparr>, \<lparr>cs_count = 0, cs_overflowed = False\<rparr>],
     pg_statusFlags = [0, 0], procArrayGroupFirst = None, pgprocnos = [1, 4], maxProcs = 3, kax = sample_kax,
     lastOverflowedXid = 0, replication_slot_xmin = 0, replication_slot_catalog_xmin = 0,
     TransamVariables = sample_tv\<lparr>nextXid := \<lparr>fxid_value = 13\<rparr>, latestCompletedXid := \<lparr>fxid_value = 9\<rparr>\<rparr>,
     XactCtl = empty_clog, SubTransCtl = SubTransSetParent 12 11 (SubTransSetParent 11 10 empty_subtrans)\<rparr>"

lemmas sample_shmem_simps = sample_shmem_def sample_proc_def idle_proc_def

lemma sample_shmem_ok: "procarray_ok sample_shmem"
  by (simp add: procarray_ok_def sample_shmem_simps proc_ok_def PGPROC_MAX_CACHED_SUBXIDS_def
      TransactionIdIsValid_def InvalidTransactionId_def upt_conv_Cons)

lemma sample_shmem_procs: "pgprocnos sample_shmem = [1, 4]" "maxProcs sample_shmem = 3"
  "procArrayGroupFirst sample_shmem = None" "allProcs sample_shmem (Suc 0) = sample_proc"
  by (simp_all add: sample_shmem_def)

lemma sample_cached: "cached sample_proc = [11, 12]"
  by (simp add: sample_proc_def)

section \<open>Properties\<close>

text \<open>
  C37. Adding a process.  \<^verbatim>\<open>ProcArrayAdd\<close> fails exactly when the array is full.  Otherwise the
  array stays sorted and consistent with the processes, whose positions are renumbered, and it
  gains exactly the new process with what it runs; removing the process again gives back the array
  of before.
\<close>

theorem ProcArrayAdd_Remove_correct:
  assumes "procarray_ok s" "p \<notin> set (pgprocnos s)" "proc_ok (allProcs s p)"
  shows "if numProcs s < maxProcs s
     then \<exists>s'. ProcArrayAdd p s = Inr s' \<and> procarray_ok s' \<and> set (pgprocnos s') = insert p (set (pgprocnos s))
          \<and> proc_view s' = (proc_view s)(p \<mapsto> running_of (allProcs s p))
          \<and> procarray_ok (ProcArrayRemove p InvalidTransactionId s')
          \<and> pgprocnos (ProcArrayRemove p InvalidTransactionId s') = pgprocnos s
          \<and> proc_view (ProcArrayRemove p InvalidTransactionId s') = proc_view s
     else ProcArrayAdd p s = Inl ErrTooManyClients"
proof (cases "numProcs s < maxProcs s")
  case True
  from Add_effect[OF assms True] obtain s' where s': "ProcArrayAdd p s = Inr s'" "procarray_ok s'"
    "set (pgprocnos s') = insert p (set (pgprocnos s))"
    "proc_view s' = (proc_view s)(p \<mapsto> running_of (allProcs s p))" by blast
  have "p \<in> set (pgprocnos s')" using s'(3) by simp
  note r = Remove_effect[OF s'(2) this, of InvalidTransactionId]
  have "sorted_wrt (<) (pgprocnos (ProcArrayRemove p InvalidTransactionId s'))" "sorted_wrt (<) (pgprocnos s)"
    using r(1) assms(1) by (simp_all add: procarray_ok_def)
  moreover have "set (pgprocnos (ProcArrayRemove p InvalidTransactionId s')) = set (pgprocnos s)"
    using r(3) s'(3) assms(2) by auto
  ultimately have "pgprocnos (ProcArrayRemove p InvalidTransactionId s') = pgprocnos s"
    by (simp add: strict_sorted_equal)
  moreover have "proc_view s p = None" using assms(2) by (simp add: proc_view_def)
  ultimately show ?thesis using True s' r(1,2) by (simp add: fun_upd_idem)
qed (simp add: ProcArrayAdd_def)

theorem ProcArrayAdd_Remove_correct_witness:
  "\<exists>s'. ProcArrayAdd 2 sample_shmem = Inr s' \<and> procarray_ok s'
     \<and> pgprocnos (ProcArrayRemove 2 InvalidTransactionId s') = pgprocnos sample_shmem"
proof -
  have "proc_ok (allProcs sample_shmem 2)"
    by (simp add: sample_shmem_simps proc_ok_def PGPROC_MAX_CACHED_SUBXIDS_def)
  then show ?thesis
    using ProcArrayAdd_Remove_correct[OF sample_shmem_ok, of 2] by (auto simp: sample_shmem_procs)
qed

text \<open>
  C38. Ending a transaction.  When the lock is free, \<^verbatim>\<open>ProcArrayEndTransaction\<close> makes the process idle
  with its subtransactions, both in the process and in the dense arrays, keeps every other process,
  clears its xmin and its vacuum flags, counts one completion, and raises the latest completed id to
  the one given if that is later on the 64-bit counter.
\<close>

theorem ProcArrayEndTransaction_correct:
  assumes "procarray_ok s" "p \<in> set (pgprocnos s)"
    and "TransactionIdIsNormal (XidFromFullTransactionId f)"
    and "TransactionIdIsNormal (XidFromFullTransactionId (latestCompletedXid (TransamVariables s)))"
    and "\<bar>uint (fxid_value f) - uint (fxid_value (latestCompletedXid (TransamVariables s)))\<bar> < 2147483648"
  shows "\<exists>s'. ProcArrayEndTransaction True others p (XidFromFullTransactionId f) s = Some s'
     \<and> procarray_ok s' \<and> proc_view s' = (proc_view s)(p \<mapsto> idle_view)
     \<and> proc_xmin (allProcs s' p) = InvalidTransactionId
     \<and> statusFlags (allProcs s' p) AND PROC_VACUUM_STATE_MASK = 0
     \<and> xactCompletionCount (TransamVariables s') = xactCompletionCount (TransamVariables s) + 1
     \<and> latestCompletedXid (TransamVariables s')
         = (if FullTransactionIdPrecedes (latestCompletedXid (TransamVariables s)) f then f
            else latestCompletedXid (TransamVariables s))"
  using EndInternal_effect[OF assms(1,2)] Maintain_full[OF assms(5,3,4)] valid_of_normal[OF assms(3)]
  by (simp add: ProcArrayEndTransaction_def EndInternal_sel ended_proc_def bump_xactCompletionCount_def
      and.assoc)

theorem ProcArrayEndTransaction_correct_witness:
  "\<exists>s'. ProcArrayEndTransaction True id 1 (XidFromFullTransactionId \<lparr>fxid_value = 12\<rparr>) sample_shmem = Some s'
     \<and> proc_view s' 1 = Some idle_view \<and> latestCompletedXid (TransamVariables s') = \<lparr>fxid_value = 12\<rparr>"
proof -
  have "TransactionIdIsNormal (XidFromFullTransactionId \<lparr>fxid_value = 12\<rparr>)"
    "TransactionIdIsNormal (XidFromFullTransactionId (latestCompletedXid (TransamVariables sample_shmem)))"
    "FullTransactionIdPrecedes (latestCompletedXid (TransamVariables sample_shmem)) \<lparr>fxid_value = 12\<rparr>"
    "latestCompletedXid (TransamVariables sample_shmem) = \<lparr>fxid_value = 9\<rparr>"
    by (simp_all add: sample_shmem_def TransactionIdIsNormal_def XidFromFullTransactionId_def
        FirstNormalTransactionId_def FullTransactionIdPrecedes_def)
  then show ?thesis
    using ProcArrayEndTransaction_correct[OF sample_shmem_ok, of 1 "\<lparr>fxid_value = 12\<rparr>" id]
    by (auto simp: sample_shmem_procs)
qed

text \<open>
  C18. Group clearing is the same as clearing one by one.  When any number of processes have put
  themselves on the list of \<^verbatim>\<open>ProcArrayGroupClearXid\<close>, the leader's two loops end, every member is
  taken off the list and released, and the processes, the dense arrays and the shared variables are
  those of ending the members' transactions one after the other, the last to arrive first.
\<close>

theorem ProcArrayGroupClearXid_equiv:
  assumes "procarray_ok s" "procArrayGroupFirst s = None" "distinct (map fst reqs)"
    and "fst ` set reqs \<subseteq> set (pgprocnos s)"
  shows "\<exists>s'. group_lead (push_all reqs s) = Some s'
     \<and> same_procs s' (fold (\<lambda>(p, x). ProcArrayEndTransactionInternal p x) (rev reqs) s)
     \<and> procarray_ok s' \<and> proc_view s' = (\<lambda>p. if p \<in> fst ` set reqs then Some idle_view else proc_view s p)
     \<and> procArrayGroupFirst s' = None
     \<and> (\<forall>p \<in> fst ` set reqs. \<not> procArrayGroupMember (allProcs s' p) \<and> procArrayGroupNext (allProcs s' p) = None)"
proof -
  obtain s' where s': "group_lead (push_all reqs s) = Some s'"
    "same_procs s' (fold (\<lambda>(p, x). ProcArrayEndTransactionInternal p x) (rev reqs) s)"
    "procArrayGroupFirst s' = None"
    "\<forall>p \<in> fst ` set reqs. \<not> procArrayGroupMember (allProcs s' p) \<and> procArrayGroupNext (allProcs s' p) = None"
    using group_clear[OF assms] by blast
  have "fst ` set (rev reqs) \<subseteq> set (pgprocnos s)" using assms(4) by simp
  from proctab.ending_all[OF assms(1) this] same_procs_ok[OF s'(2)] s' show ?thesis by simp
qed

theorem ProcArrayGroupClearXid_equiv_witness:
  "\<exists>s'. group_lead (push_all [(1, 12), (4, 20)] sample_shmem) = Some s' \<and> procarray_ok s' \<and> procArrayGroupFirst s' = None"
  using ProcArrayGroupClearXid_equiv[OF sample_shmem_ok, of "[(1, 12), (4, 20)]"] by (auto simp: sample_shmem_procs)

text \<open>
  C39. Aborting a subtransaction.  \<^verbatim>\<open>XidCacheRemoveRunningXids\<close> removes exactly the given ids from the
  cache of the process, although it searches from the end and fills each gap with the last entry; it
  keeps the array consistent and every other process, and warns of nothing when all ids were cached.
\<close>

theorem XidCacheRemoveRunningXids_correct:
  assumes "procarray_ok s" "p \<in> set (pgprocnos s)" "distinct (cached (allProcs s p))"
    and "distinct (xid # xids)" "set (xid # xids) \<subseteq> set (cached (allProcs s p))"
    and "XidCacheRemoveRunningXids p xid xids latestXid s = (s', warnings)"
  shows "procarray_ok s' \<and> warnings = [] \<and> distinct (cached (allProcs s' p))
     \<and> proc_view s' = (proc_view s)(p \<mapsto> (proc_xid (allProcs s p),
         set (cached (allProcs s p)) - set (xid # xids), cs_overflowed (subxidStatus (allProcs s p))))"
  using RemoveRunning_effect[OF assms(1-3,6)] assms(4,5) by simp

theorem XidCacheRemoveRunningXids_correct_witness:
  "proc_view (fst (XidCacheRemoveRunningXids 1 11 [12] 12 sample_shmem)) 1 = Some (10, {}, False)"
proof -
  obtain s' w where r: "XidCacheRemoveRunningXids 1 11 [12] 12 sample_shmem = (s', w)" by force
  have "proc_xid sample_proc = 10" "\<not> cs_overflowed (subxidStatus sample_proc)"
    by (simp_all add: sample_proc_def)
  then show ?thesis
    using XidCacheRemoveRunningXids_correct[OF sample_shmem_ok _ _ _ _ r] r
    by (simp add: sample_shmem_procs sample_cached)
qed

text \<open>
  C21. Assigning a transaction id.  When the limit check passes, \<^verbatim>\<open>GetNewTransactionId\<close> returns the
  next id of the counter (the one found after the lock was taken again, if it was released), advances
  the counter, stores the id for the process (as its own id, in the cache of subtransactions, or as
  the overflow flag when that is full), and leaves the new id in progress in the commit log and
  without a parent; the logs stay clean ahead of the counter.
\<close>

theorem GetNewTransactionId_correct:
  assumes "xid_limit_check up (XidFromFullTransactionId (nextXid (TransamVariables s))) (TransamVariables s)
       = (released, msgs, None)"
    and t: "t = (if released then others s else s)"
    and "procarray_ok t" "p \<in> set (pgprocnos t)" "counter_ok (TransamVariables t)" "log_fresh t"
    and "sub \<longrightarrow> TransactionIdIsValid (proc_xid (allProcs t p))"
  shows "\<exists>s'. GetNewTransactionId False False False up others p sub s = (msgs, Inr (nextXid (TransamVariables t), s'))
     \<and> nextXid (TransamVariables s') = FullTransactionIdAdvance (nextXid (TransamVariables t))
     \<and> procarray_ok s' \<and> log_fresh s'
     \<and> (let x = XidFromFullTransactionId (nextXid (TransamVariables t)) in
          xid_status (XactCtl s') x = TRANSACTION_STATUS_IN_PROGRESS
        \<and> SubTransGetParent (SubTransCtl s') x = InvalidTransactionId
        \<and> proc_view s' = (proc_view t)(p \<mapsto> (case running_of (allProcs t p) of (topx, subs, ovf) \<Rightarrow>
            if \<not> sub then (x, subs, ovf)
            else if cs_count (subxidStatus (allProcs t p)) < PGPROC_MAX_CACHED_SUBXIDS then (topx, insert x subs, ovf)
            else (topx, subs, True))))"
proof -
  obtain full s' where a: "assign_new_xid p sub t = (full, s')" by force
  note e = assign_effect[OF assms(3-5) assms(7) a]
  note f = assign_fresh[OF assms(6) e(7-9) refl]
  have "GetNewTransactionId False False False up others p sub s = (msgs, Inr (full, s'))"
    using assms(1) a by (simp add: GetNewTransactionId_def t)
  then show ?thesis
    using e f stored_running[OF procarray_proc_ok[OF assms(3,4)], of sub]
    by (auto simp: Let_def assign_next_def)
qed

lemma sample_log_fresh: "log_fresh sample_shmem"
proof -
  have "SubTransGetParent (SubTransCtl sample_shmem) x = InvalidTransactionId" if "13 \<le> unat x" for x
  proof -
    have "x \<noteq> 11" "x \<noteq> 12" using that by auto
    moreover have "TransactionIdIsNormal 11" "TransactionIdIsNormal 12"
      by (simp_all add: TransactionIdIsNormal_def FirstNormalTransactionId_def)
    ultimately show ?thesis by (simp add: sample_shmem_def GetParent_SetParent)
  qed
  then show ?thesis
    by (auto simp: log_fresh_def fresh_from_def sample_shmem_def XidFromFullTransactionId_def)
qed

theorem GetNewTransactionId_correct_witness:
  "\<exists>s'. GetNewTransactionId False False False True id 1 True sample_shmem = ([], Inr (\<lparr>fxid_value = 13\<rparr>, s'))
     \<and> proc_view s' 1 = Some (10, {11, 12, 13}, False)"
proof -
  have tv: "TransamVariables sample_shmem
      = sample_tv\<lparr>nextXid := \<lparr>fxid_value = 13\<rparr>, latestCompletedXid := \<lparr>fxid_value = 9\<rparr>\<rparr>"
    by (simp add: sample_shmem_def)
  have c: "xid_limit_check True (XidFromFullTransactionId (nextXid (TransamVariables sample_shmem)))
      (TransamVariables sample_shmem) = (False, [], None)" "counter_ok (TransamVariables sample_shmem)"
    unfolding tv by code_simp+
  have r: "running_of sample_proc = (10, {11, 12}, False)" "proc_xid sample_proc = 10"
    "cs_count (subxidStatus sample_proc) = 2"
    by (simp_all add: running_of_def sample_proc_def)
  have n: "nextXid (TransamVariables sample_shmem) = \<lparr>fxid_value = 13\<rparr>" by (simp add: sample_shmem_def)
  show ?thesis
    using GetNewTransactionId_correct[OF c(1) refl, of id 1 True] c(2) sample_shmem_ok sample_log_fresh
    by (auto simp: sample_shmem_procs r n Let_def PGPROC_MAX_CACHED_SUBXIDS_def TransactionIdIsValid_def
        InvalidTransactionId_def XidFromFullTransactionId_def insert_commute)
qed

end
