(* ===== verification/Snapshot.thy ===== *)
theory Snapshot
  imports ProcArray
begin

text \<open>
  Reading the process array: snapshots (\<^verbatim>\<open>GetSnapshotData\<close>, and \<^verbatim>\<open>XidInMVCCSnapshot\<close> of
  \<^verbatim>\<open>src/backend/utils/time/snapmgr.c\<close>) and the test for a running transaction, of
  \<^verbatim>\<open>src/backend/storage/ipc/procarray.c\<close>.  The lemmas turn the loops over the dense arrays into
  loops over processes and describe what they collect; what a snapshot means is shown in the theory
  of the running system.
\<close>

unbundle bit_operations_syntax

section \<open>State of a backend\<close>

record GlobalVisState =
  definitely_needed :: FullTransactionId
  maybe_needed :: FullTransactionId

record backend =
  MyProc :: nat
  MyDatabaseId :: Oid
  TransactionXmin :: TransactionId
  RecentXmin :: TransactionId
  cachedXidIsNotInProgress :: TransactionId
  fetchCache :: fetch_cache
  GlobalVisSharedRels :: GlobalVisState
  GlobalVisCatalogRels :: GlobalVisState
  GlobalVisDataRels :: GlobalVisState
  GlobalVisTempRels :: GlobalVisState
  ComputeXidHorizonsResultLastXmin :: TransactionId

text \<open>The arrays hold \<^verbatim>\<open>xcnt\<close> and \<^verbatim>\<open>subxcnt\<close> ids.\<close>

datatype SnapshotType = SNAPSHOT_MVCC | SNAPSHOT_SELF | SNAPSHOT_ANY | SNAPSHOT_TOAST | SNAPSHOT_DIRTY
  | SNAPSHOT_HISTORIC_MVCC | SNAPSHOT_NON_VACUUMABLE

record SnapshotData =
  snapshot_type :: SnapshotType
  snap_xmin :: TransactionId
  snap_xmax :: TransactionId
  xip :: "TransactionId list"
  subxip :: "TransactionId list"
  suboverflowed :: bool
  takenDuringRecovery :: bool
  copied :: bool
  curcid :: CommandId
  speculativeToken :: uint32
  active_count :: nat
  regd_count :: nat
  snap_lsn :: XLogRecPtr
  snapXactCompletionCount :: uint64

abbreviation my_proc :: "backend \<Rightarrow> shmem \<Rightarrow> PGPROC" where
  "my_proc b s \<equiv> allProcs s (MyProc b)"

section \<open>Is a transaction in progress?\<close>

text \<open>The loop over the array: \<open>None\<close> when the id is found, else the overflowed main ids collected.\<close>

fun inprogress_scan ::
    "shmem \<Rightarrow> nat \<Rightarrow> TransactionId \<Rightarrow> nat list \<Rightarrow> TransactionId list \<Rightarrow> TransactionId list option" where
  "inprogress_scan s mypgxactoff xid [] xids = Some xids"
| "inprogress_scan s mypgxactoff xid (off # offs) xids =
     (if off = mypgxactoff then inprogress_scan s mypgxactoff xid offs xids
      else let pxid = pg_xids s ! off
           in if \<not> TransactionIdIsValid pxid then inprogress_scan s mypgxactoff xid offs xids
              else if pxid = xid then None
              else if TransactionIdPrecedes xid pxid then inprogress_scan s mypgxactoff xid offs xids
              else let pxids = cs_count (pg_subxidStates s ! off);
                       proc = allProcs s (pgprocnos s ! off)
                   in if subxid_index (subxids proc) xid pxids \<noteq> None then None
                      else if cs_overflowed (pg_subxidStates s ! off)
                      then inprogress_scan s mypgxactoff xid offs (xids @ [pxid])
                      else inprogress_scan s mypgxactoff xid offs xids)"

text \<open>The last part, when the caches had overflowed: the status log and the topmost parent decide.\<close>

definition inprogress_subtrans ::
    "TransactionId \<Rightarrow> TransactionId list \<Rightarrow> backend \<Rightarrow> shmem \<Rightarrow> (pg_error + bool \<times> backend) option" where
  "inprogress_subtrans xid xids b s =
     (case TransactionIdDidAbort (TransactionXmin b) (XactCtl s) (SubTransCtl s) xid (fetchCache b) of
        None \<Rightarrow> None
      | Some (aborted, cache) \<Rightarrow>
          let b = b\<lparr>fetchCache := cache\<rparr>
          in if aborted then Some (Inr (False, b\<lparr>cachedXidIsNotInProgress := xid\<rparr>))
             else case SubTransGetTopmostTransaction (TransactionXmin b) (SubTransCtl s) xid of
                    None \<Rightarrow> None
                  | Some (Inl err) \<Rightarrow> Some (Inl err)
                  | Some (Inr topxid) \<Rightarrow>
                      if topxid \<noteq> xid \<and> pg_lfind32 topxid xids then Some (Inr (True, b))
                      else Some (Inr (False, b\<lparr>cachedXidIsNotInProgress := xid\<rparr>)))"

text \<open>\<open>is_current\<close> is \<^verbatim>\<open>TransactionIdIsCurrentTransactionId\<close> of the calling backend.\<close>

definition TransactionIdIsInProgress ::
    "(TransactionId \<Rightarrow> bool) \<Rightarrow> bool \<Rightarrow> TransactionId \<Rightarrow> backend \<Rightarrow> shmem \<Rightarrow> (pg_error + bool \<times> backend) option" where
  "TransactionIdIsInProgress is_current RecoveryInProgress xid b s =
     (if TransactionIdPrecedes xid (RecentXmin b) then Some (Inr (False, b))
      else if cachedXidIsNotInProgress b = xid then Some (Inr (False, b))
      else if is_current xid then Some (Inr (True, b))
      else if TransactionIdPrecedes (XidFromFullTransactionId (latestCompletedXid (TransamVariables s))) xid
      then Some (Inr (True, b))
      else case inprogress_scan s (pgxactoff (my_proc b s)) xid [0..<numProcs s] [] of
             None \<Rightarrow> Some (Inr (True, b))
           | Some xids \<Rightarrow>
               if RecoveryInProgress \<and> KnownAssignedXidExists xid (kax s) then Some (Inr (True, b))
               else let xids = (if RecoveryInProgress
                                then if TransactionIdPrecedesOrEquals xid (lastOverflowedXid s)
                                     then KnownAssignedXidsGet (kax s) xid else xids
                                else xids)
                    in if xids = [] then Some (Inr (False, b\<lparr>cachedXidIsNotInProgress := xid\<rparr>))
                       else inprogress_subtrans xid xids b s)"

definition TransactionIdIsActive :: "TransactionId \<Rightarrow> backend \<Rightarrow> shmem \<Rightarrow> bool" where
  "TransactionIdIsActive xid b s =
     (if TransactionIdPrecedes xid (RecentXmin b) then False
      else \<exists>i \<in> set [0..<numProcs s]. TransactionIdIsValid (pg_xids s ! i)
             \<and> pid (allProcs s (pgprocnos s ! i)) \<noteq> 0 \<and> pg_xids s ! i = xid)"

section \<open>Taking a snapshot\<close>

definition GetMaxSnapshotXidCount :: "shmem \<Rightarrow> nat" where
  "GetMaxSnapshotXidCount s = maxProcs s"

definition GetSnapshotDataReuse ::
    "CommandId \<Rightarrow> SnapshotData \<Rightarrow> backend \<Rightarrow> shmem \<Rightarrow> (SnapshotData \<times> backend \<times> shmem) option" where
  "GetSnapshotDataReuse currentCommandId snapshot b s =
     (if snapXactCompletionCount snapshot = 0 then None
      else if xactCompletionCount (TransamVariables s) \<noteq> snapXactCompletionCount snapshot then None
      else let (b, s) = (if \<not> TransactionIdIsValid (proc_xmin (my_proc b s))
                         then (b\<lparr>TransactionXmin := snap_xmin snapshot\<rparr>,
                               upd_proc (MyProc b) (\<lambda>p. p\<lparr>proc_xmin := snap_xmin snapshot\<rparr>) s)
                         else (b, s));
               b = b\<lparr>RecentXmin := snap_xmin snapshot\<rparr>
           in Some (snapshot\<lparr>curcid := currentCommandId, active_count := 0, regd_count := 0, copied := False,
                             snap_lsn := InvalidXLogRecPtr\<rparr>, b, s))"

record snapshot_scan_state =
  sc_xmin :: TransactionId
  sc_xip :: "TransactionId list"
  sc_subxip :: "TransactionId list"
  sc_suboverflowed :: bool

definition snapshot_scan_step ::
    "shmem \<Rightarrow> nat \<Rightarrow> TransactionId \<Rightarrow> nat \<Rightarrow> snapshot_scan_state \<Rightarrow> snapshot_scan_state" where
  "snapshot_scan_step s mypgxactoff xmax off sc =
     (let xid = pg_xids s ! off
      in if xid = InvalidTransactionId then sc
         else if off = mypgxactoff then sc
         else if \<not> NormalTransactionIdPrecedes xid xmax then sc
         else if pg_statusFlags s ! off AND (PROC_IN_LOGICAL_DECODING OR PROC_IN_VACUUM) \<noteq> 0 then sc
         else let sc = (if NormalTransactionIdPrecedes xid (sc_xmin sc) then sc\<lparr>sc_xmin := xid\<rparr> else sc);
                  sc = sc\<lparr>sc_xip := sc_xip sc @ [xid]\<rparr>
              in if sc_suboverflowed sc then sc
                 else if cs_overflowed (pg_subxidStates s ! off) then sc\<lparr>sc_suboverflowed := True\<rparr>
                 else let nsubxids = cs_count (pg_subxidStates s ! off);
                          proc = allProcs s (pgprocnos s ! off)
                      in sc\<lparr>sc_subxip := sc_subxip sc @ take nsubxids (subxids proc)\<rparr>)"

text \<open>The update of the approximate horizons at the end of \<^verbatim>\<open>GetSnapshotData\<close>.\<close>

definition snapshot_vis_update ::
    "FullTransactionId \<Rightarrow> TransactionId \<Rightarrow> TransactionId \<Rightarrow> TransactionId \<Rightarrow> TransactionId \<Rightarrow> TransactionId
     \<Rightarrow> backend \<Rightarrow> backend" where
  "snapshot_vis_update latest_completed oldestxid xmin slot_xmin slot_catalog_xmin myxid b =
     (let oldestfxid = FullXidRelativeTo latest_completed oldestxid;
          def_vis_xid_data = TransactionIdOlder xmin slot_xmin;
          def_vis_xid = TransactionIdOlder slot_catalog_xmin def_vis_xid_data;
          def_vis_fxid = FullXidRelativeTo latest_completed def_vis_xid;
          def_vis_fxid_data = FullXidRelativeTo latest_completed def_vis_xid_data;
          temp = (if TransactionIdIsNormal myxid then FullXidRelativeTo latest_completed myxid
                  else FullTransactionIdAdvance latest_completed);
          upd = (\<lambda>fxid v. v\<lparr>definitely_needed := FullTransactionIdNewer fxid (definitely_needed v),
                            maybe_needed := FullTransactionIdNewer (maybe_needed v) oldestfxid\<rparr>)
      in b\<lparr>GlobalVisSharedRels := upd def_vis_fxid (GlobalVisSharedRels b),
           GlobalVisCatalogRels := upd def_vis_fxid (GlobalVisCatalogRels b),
           GlobalVisDataRels := upd def_vis_fxid_data (GlobalVisDataRels b),
           GlobalVisTempRels := \<lparr>definitely_needed = temp, maybe_needed = temp\<rparr>\<rparr>)"

definition snapshot_contents ::
    "bool \<Rightarrow> nat \<Rightarrow> TransactionId \<Rightarrow> TransactionId \<Rightarrow> shmem \<Rightarrow> snapshot_scan_state" where
  "snapshot_contents RecoveryInProgress mypgxactoff xmin xmax s =
     (if \<not> RecoveryInProgress
      then fold (snapshot_scan_step s mypgxactoff xmax) [0..<numProcs s]
             \<lparr>sc_xmin = xmin, sc_xip = [], sc_subxip = [], sc_suboverflowed = False\<rparr>
      else let (known, xmin) = KnownAssignedXidsGetAndSetXmin (kax s) xmin xmax
           in \<lparr>sc_xmin = xmin, sc_xip = [], sc_subxip = known,
               sc_suboverflowed = TransactionIdPrecedesOrEquals xmin (lastOverflowedXid s)\<rparr>)"

definition GetSnapshotData ::
    "bool \<Rightarrow> CommandId \<Rightarrow> SnapshotData \<Rightarrow> backend \<Rightarrow> shmem \<Rightarrow> SnapshotData \<times> backend \<times> shmem" where
  "GetSnapshotData RecoveryInProgress currentCommandId snapshot b s =
     (case GetSnapshotDataReuse currentCommandId snapshot b s of
        Some r \<Rightarrow> r
      | None \<Rightarrow>
          let latest_completed = latestCompletedXid (TransamVariables s);
              mypgxactoff = pgxactoff (my_proc b s);
              myxid = pg_xids s ! mypgxactoff;
              oldestxid = oldestXid (TransamVariables s);
              curXactCompletionCount = xactCompletionCount (TransamVariables s);
              xmax = TransactionIdAdvance (XidFromFullTransactionId latest_completed);
              xmin = (if TransactionIdIsNormal myxid \<and> NormalTransactionIdPrecedes myxid xmax then myxid else xmax);
              sc = snapshot_contents RecoveryInProgress mypgxactoff xmin xmax s;
              xmin = sc_xmin sc;
              (b, s) = (if \<not> TransactionIdIsValid (proc_xmin (my_proc b s))
                        then (b\<lparr>TransactionXmin := xmin\<rparr>, upd_proc (MyProc b) (\<lambda>p. p\<lparr>proc_xmin := xmin\<rparr>) s)
                        else (b, s));
              b = snapshot_vis_update latest_completed oldestxid xmin (replication_slot_xmin s)
                    (replication_slot_catalog_xmin s) myxid b;
              b = b\<lparr>RecentXmin := xmin\<rparr>
          in (snapshot\<lparr>snap_xmin := xmin, snap_xmax := xmax, xip := sc_xip sc, subxip := sc_subxip sc,
                       suboverflowed := sc_suboverflowed sc, takenDuringRecovery := RecoveryInProgress,
                       snapXactCompletionCount := curXactCompletionCount, curcid := currentCommandId,
                       active_count := 0, regd_count := 0, copied := False, snap_lsn := InvalidXLogRecPtr\<rparr>,
              b, s))"

section \<open>Testing an id against a snapshot\<close>

definition XidInMVCCSnapshot ::
    "TransactionId \<Rightarrow> subtrans_ctl \<Rightarrow> TransactionId \<Rightarrow> SnapshotData \<Rightarrow> (pg_error + bool) option" where
  "XidInMVCCSnapshot xactXmin ctl xid snapshot =
     (if TransactionIdPrecedes xid (snap_xmin snapshot) then Some (Inr False)
      else if TransactionIdFollowsOrEquals xid (snap_xmax snapshot) then Some (Inr True)
      else if \<not> takenDuringRecovery snapshot
      then if \<not> suboverflowed snapshot
           then if pg_lfind32 xid (subxip snapshot) then Some (Inr True)
                else Some (Inr (pg_lfind32 xid (xip snapshot)))
           else case SubTransGetTopmostTransaction xactXmin ctl xid of
                  None \<Rightarrow> None
                | Some (Inl err) \<Rightarrow> Some (Inl err)
                | Some (Inr xid) \<Rightarrow>
                    if TransactionIdPrecedes xid (snap_xmin snapshot) then Some (Inr False)
                    else Some (Inr (pg_lfind32 xid (xip snapshot)))
      else if suboverflowed snapshot
      then case SubTransGetTopmostTransaction xactXmin ctl xid of
             None \<Rightarrow> None
           | Some (Inl err) \<Rightarrow> Some (Inl err)
           | Some (Inr xid) \<Rightarrow>
               if TransactionIdPrecedes xid (snap_xmin snapshot) then Some (Inr False)
               else Some (Inr (pg_lfind32 xid (subxip snapshot)))
      else Some (Inr (pg_lfind32 xid (subxip snapshot))))"

section \<open>What a snapshot holds\<close>

text \<open>The processes whose transactions are copied into a snapshot of the process \<open>me\<close>.\<close>

definition in_scan :: "shmem \<Rightarrow> nat \<Rightarrow> TransactionId \<Rightarrow> nat \<Rightarrow> bool" where
  "in_scan s me xmax p \<longleftrightarrow> p \<noteq> me \<and> proc_xid (allProcs s p) \<noteq> InvalidTransactionId
     \<and> NormalTransactionIdPrecedes (proc_xid (allProcs s p)) xmax
     \<and> statusFlags (allProcs s p) AND (PROC_IN_LOGICAL_DECODING OR PROC_IN_VACUUM) = 0"

definition scan_proc :: "shmem \<Rightarrow> nat \<Rightarrow> TransactionId \<Rightarrow> nat \<Rightarrow> snapshot_scan_state \<Rightarrow> snapshot_scan_state" where
  "scan_proc s me xmax p sc =
     (if \<not> in_scan s me xmax p then sc
      else let proc = allProcs s p;
               sc = (if NormalTransactionIdPrecedes (proc_xid proc) (sc_xmin sc) then sc\<lparr>sc_xmin := proc_xid proc\<rparr> else sc);
               sc = sc\<lparr>sc_xip := sc_xip sc @ [proc_xid proc]\<rparr>
           in if sc_suboverflowed sc then sc
              else if cs_overflowed (subxidStatus proc) then sc\<lparr>sc_suboverflowed := True\<rparr>
              else sc\<lparr>sc_subxip := sc_subxip sc @ cached proc\<rparr>)"

lemma scan_by_proc:
  assumes "procarray_ok s" "me \<in> set (pgprocnos s)"
  shows "fold (snapshot_scan_step s (pgxactoff (allProcs s me)) xmax) [0..<numProcs s] sc
       = fold (scan_proc s me xmax) (pgprocnos s) sc"
proof -
  have offs: "[0..<numProcs s] = map (\<lambda>p. pgxactoff (allProcs s p)) (pgprocnos s)"
    using assms(1) by (simp add: procarray_ok_def)
  have "snapshot_scan_step s (pgxactoff (allProcs s me)) xmax (pgxactoff (allProcs s p)) = scan_proc s me xmax p"
    if p: "p \<in> set (pgprocnos s)" for p
  proof -
    have "pgxactoff (allProcs s p) = pgxactoff (allProcs s me) \<longleftrightarrow> p = me"
      using pgprocnos_pgxactoff[OF assms(1) p] pgprocnos_pgxactoff[OF assms] by metis
    then show ?thesis
      using dense_nth[OF assms(1) p] pgprocnos_pgxactoff[OF assms(1) p]
      by (auto simp: fun_eq_iff snapshot_scan_step_def scan_proc_def in_scan_def Let_def)
  qed
  then show ?thesis unfolding offs fold_map by (intro fold_cong) simp_all
qed

lemma scan_proc_sets:
  fixes ps :: "nat list"
  defines "r \<equiv> \<lambda>s me xmax sc. fold (scan_proc s me xmax) ps sc"
  shows "set (sc_xip (r s me xmax sc)) = set (sc_xip sc) \<union> {proc_xid (allProcs s p) | p. p \<in> set ps \<and> in_scan s me xmax p}"
    "sc_suboverflowed (r s me xmax sc) \<longleftrightarrow> sc_suboverflowed sc
       \<or> (\<exists>p \<in> set ps. in_scan s me xmax p \<and> cs_overflowed (subxidStatus (allProcs s p)))"
    "\<not> sc_suboverflowed (r s me xmax sc) \<Longrightarrow> set (sc_subxip (r s me xmax sc))
       = set (sc_subxip sc) \<union> (\<Union>p \<in> {p \<in> set ps. in_scan s me xmax p}. set (cached (allProcs s p)))"
proof -
  have "set (sc_xip (r s me xmax sc)) = set (sc_xip sc) \<union> {proc_xid (allProcs s p) | p. p \<in> set ps \<and> in_scan s me xmax p}
    \<and> (sc_suboverflowed (r s me xmax sc) \<longleftrightarrow> sc_suboverflowed sc
       \<or> (\<exists>p \<in> set ps. in_scan s me xmax p \<and> cs_overflowed (subxidStatus (allProcs s p))))
    \<and> (\<not> sc_suboverflowed (r s me xmax sc) \<longrightarrow> set (sc_subxip (r s me xmax sc))
       = set (sc_subxip sc) \<union> (\<Union>p \<in> {p \<in> set ps. in_scan s me xmax p}. set (cached (allProcs s p))))"
    unfolding r_def
  proof (induction ps rule: rev_induct)
    case (snoc p ps)
    let ?sc = "fold (scan_proc s me xmax) ps sc"
    have step: "fold (scan_proc s me xmax) (ps @ [p]) sc = scan_proc s me xmax p ?sc" by simp
    have a: "set (sc_xip (scan_proc s me xmax p ?sc))
        = set (sc_xip ?sc) \<union> (if in_scan s me xmax p then {proc_xid (allProcs s p)} else {})"
      by (auto simp: scan_proc_def Let_def)
    have b: "sc_suboverflowed (scan_proc s me xmax p ?sc)
        \<longleftrightarrow> sc_suboverflowed ?sc \<or> in_scan s me xmax p \<and> cs_overflowed (subxidStatus (allProcs s p))"
      by (auto simp: scan_proc_def Let_def)
    have c: "\<not> sc_suboverflowed (scan_proc s me xmax p ?sc) \<Longrightarrow> set (sc_subxip (scan_proc s me xmax p ?sc))
        = set (sc_subxip ?sc) \<union> (if in_scan s me xmax p then set (cached (allProcs s p)) else {})"
      using b by (auto simp: scan_proc_def Let_def)
    show ?case unfolding step using snoc a b c by (auto split: if_splits)
  qed simp
  then show "set (sc_xip (r s me xmax sc)) = set (sc_xip sc) \<union> {proc_xid (allProcs s p) | p. p \<in> set ps \<and> in_scan s me xmax p}"
    "sc_suboverflowed (r s me xmax sc) \<longleftrightarrow> sc_suboverflowed sc
       \<or> (\<exists>p \<in> set ps. in_scan s me xmax p \<and> cs_overflowed (subxidStatus (allProcs s p)))"
    "\<not> sc_suboverflowed (r s me xmax sc) \<Longrightarrow> set (sc_subxip (r s me xmax sc))
       = set (sc_subxip sc) \<union> (\<Union>p \<in> {p \<in> set ps. in_scan s me xmax p}. set (cached (allProcs s p)))"
    by blast+
qed

lemma scan_proc_xmin:
  assumes "in_window b (sc_xmin sc)"
    and "\<And>p. p \<in> set ps \<Longrightarrow> in_scan s me xmax p \<Longrightarrow> in_window b (proc_xid (allProcs s p))"
  defines "m \<equiv> sc_xmin (fold (scan_proc s me xmax) ps sc)"
  shows "in_window b m \<and> xid_pos b m \<le> xid_pos b (sc_xmin sc)
     \<and> (\<forall>p \<in> set ps. in_scan s me xmax p \<longrightarrow> xid_pos b m \<le> xid_pos b (proc_xid (allProcs s p)))
     \<and> (m = sc_xmin sc \<or> (\<exists>p \<in> set ps. in_scan s me xmax p \<and> m = proc_xid (allProcs s p)))"
  using assms(2) unfolding m_def
proof (induction ps rule: rev_induct)
  case Nil
  then show ?case using assms(1) by simp
next
  case (snoc p ps)
  let ?sc = "fold (scan_proc s me xmax) ps sc"
  have IH: "in_window b (sc_xmin ?sc)" "xid_pos b (sc_xmin ?sc) \<le> xid_pos b (sc_xmin sc)"
    "\<forall>p \<in> set ps. in_scan s me xmax p \<longrightarrow> xid_pos b (sc_xmin ?sc) \<le> xid_pos b (proc_xid (allProcs s p))"
    "sc_xmin ?sc = sc_xmin sc \<or> (\<exists>p \<in> set ps. in_scan s me xmax p \<and> sc_xmin ?sc = proc_xid (allProcs s p))"
    using snoc by simp_all
  have step: "sc_xmin (fold (scan_proc s me xmax) (ps @ [p]) sc)
      = (if in_scan s me xmax p \<and> NormalTransactionIdPrecedes (proc_xid (allProcs s p)) (sc_xmin ?sc)
         then proc_xid (allProcs s p) else sc_xmin ?sc)"
    by (simp add: scan_proc_def Let_def)
  show ?case
  proof (cases "in_scan s me xmax p")
    case True
    then have w: "in_window b (proc_xid (allProcs s p))" using snoc.prems by simp
    show ?thesis unfolding step using IH True w NormalPrecedes_window[OF w IH(1)] by auto
  next
    case False
    then show ?thesis unfolding step using IH by auto
  qed
qed

end
