(* ===== verification/XactSystem.thy ===== *)
theory XactSystem
  imports Snapshot
begin

text \<open>
  The running system: transactions and subtransactions start, are linked to their parents, end and
  abort, through the operations of the process array, the id counter and the subtransaction log, in
  any order.  An abstract state records which ids were assigned, to which tree each belongs and which
  have ended; the invariant ties it to the shared memory.  From it follow the two facts the rest of
  the system relies on: a snapshot classifies every id by whether it had ended when the snapshot was
  taken, and the test for a running transaction tells the truth.
\<close>

section \<open>Transaction trees\<close>

record forest =
  f_top :: "TransactionId \<Rightarrow> TransactionId"
  f_parent :: "TransactionId \<Rightarrow> TransactionId"
  f_ended :: "TransactionId set"
  f_unlinked :: "TransactionId set"  \<comment> \<open>subtransactions not yet entered in the subtransaction log\<close>

definition before :: "TransactionId \<Rightarrow> TransactionId \<Rightarrow> TransactionId \<Rightarrow> bool" where
  "before b nx x \<longleftrightarrow> in_window b x \<and> xid_pos b x < xid_pos b nx"

definition node_ok :: "TransactionId \<Rightarrow> forest \<Rightarrow> TransactionId \<Rightarrow> TransactionId \<Rightarrow> TransactionId \<Rightarrow> bool" where
  "node_ok b g nx la x \<longleftrightarrow>
     before b nx (f_top g x) \<and> f_top g (f_top g x) = f_top g x \<and> xid_pos b (f_top g x) \<le> xid_pos b x
     \<and> (if x = f_top g x then f_parent g x = InvalidTransactionId
        else before b nx (f_parent g x) \<and> xid_pos b (f_parent g x) < xid_pos b x
             \<and> f_top g (f_parent g x) = f_top g x)
     \<and> (x \<in> f_ended g \<longrightarrow> xid_pos b x \<le> xid_pos b la)
     \<and> (f_top g x \<in> f_ended g \<longrightarrow> x \<in> f_ended g)"

definition forest_ok :: "TransactionId \<Rightarrow> forest \<Rightarrow> TransactionId \<Rightarrow> TransactionId \<Rightarrow> bool" where
  "forest_ok b g nx la \<longleftrightarrow> (\<forall>x. before b nx x \<longrightarrow> node_ok b g nx la x)"

type_synonym view = "nat \<rightharpoonup> TransactionId \<times> TransactionId set \<times> bool"

definition live :: "TransactionId \<Rightarrow> forest \<Rightarrow> TransactionId \<Rightarrow> TransactionId \<Rightarrow> bool" where
  "live b g nx x \<longleftrightarrow> before b nx x \<and> x \<notin> f_ended g"

text \<open>The ids of a tree that are still running.\<close>

definition tree :: "TransactionId \<Rightarrow> forest \<Rightarrow> TransactionId \<Rightarrow> TransactionId \<Rightarrow> TransactionId set" where
  "tree b g nx t = {x. live b g nx x \<and> f_top g x = t}"

definition entry_ok :: "(TransactionId \<Rightarrow> TransactionId set) \<Rightarrow> TransactionId \<Rightarrow> TransactionId set \<Rightarrow> bool \<Rightarrow> bool" where
  "entry_ok T t subs ovf \<longleftrightarrow>
     (if TransactionIdIsValid t
      then t \<in> T t \<and> subs \<subseteq> T t - {t} \<and> (\<not> ovf \<longrightarrow> T t - {t} \<subseteq> subs)
      else subs = {} \<and> \<not> ovf)"

definition view_ok :: "(TransactionId \<Rightarrow> TransactionId set) \<Rightarrow> view \<Rightarrow> bool" where
  "view_ok T V \<longleftrightarrow>
     (\<forall>p t subs ovf. V p = Some (t, subs, ovf) \<longrightarrow> entry_ok T t subs ovf)
     \<and> (\<forall>t. t \<in> T t \<longrightarrow> TransactionIdIsValid t \<and> (\<exists>p subs ovf. V p = Some (t, subs, ovf)))
     \<and> (\<forall>p q t subs ovf subs' ovf'. V p = Some (t, subs, ovf) \<longrightarrow> V q = Some (t, subs', ovf')
          \<longrightarrow> TransactionIdIsValid t \<longrightarrow> p = q)"

definition links_ok :: "TransactionId \<Rightarrow> forest \<Rightarrow> TransactionId \<Rightarrow> (TransactionId \<Rightarrow> TransactionId) \<Rightarrow> bool" where
  "links_ok b g nx parent \<longleftrightarrow> (\<forall>x. before b nx x \<longrightarrow>
     (x \<notin> f_unlinked g \<longrightarrow> parent x = f_parent g x) \<and> (x \<noteq> f_top g x \<longrightarrow> f_parent g x \<notin> f_unlinked g))"

section \<open>Abstract steps\<close>

definition forest_start :: "TransactionId \<Rightarrow> forest \<Rightarrow> forest" where
  "forest_start x g = g\<lparr>f_top := (f_top g)(x := x), f_parent := (f_parent g)(x := InvalidTransactionId),
     f_ended := f_ended g - {x}, f_unlinked := f_unlinked g - {x}\<rparr>"

definition forest_sub :: "TransactionId \<Rightarrow> TransactionId \<Rightarrow> forest \<Rightarrow> forest" where
  "forest_sub x par g = g\<lparr>f_top := (f_top g)(x := f_top g par), f_parent := (f_parent g)(x := par),
     f_ended := f_ended g - {x}, f_unlinked := insert x (f_unlinked g)\<rparr>"

definition forest_end :: "TransactionId set \<Rightarrow> forest \<Rightarrow> forest" where
  "forest_end xs g = g\<lparr>f_ended := f_ended g \<union> xs\<rparr>"

text \<open>The ids assigned after one more assignment.\<close>

lemma Advance_pos_gt:
  assumes "xid_pos b a + 4 < 4294967296"
  shows "xid_pos b a < xid_pos b (TransactionIdAdvance a)"
proof (cases "a + 1 < FirstNormalTransactionId")
  case False
  have "unat ((a - b) + 1) = unat (a - b) + 1"
    using assms by (simp add: unat_add_mod32 xid_pos_def)
  moreover have "a + 1 - b = (a - b) + 1" by simp
  ultimately have "xid_pos b (a + 1) = xid_pos b a + 1" by (simp only: xid_pos_def)
  then show ?thesis using False by (simp add: TransactionIdAdvance_def Let_def)
next
  case True
  then have c: "a + 1 \<le> 3" by (simp add: FirstNormalTransactionId_def)
  define d where "d = 3 - (a + 1)"
  have d: "unat d \<le> 3" using unat_sub[OF c] by (simp only: d_def) simp
  have "3 - b = (a - b) + 1 + d" by (simp add: d_def)
  moreover have "unat ((a - b) + 1 + d) = unat (a - b) + 1 + unat d"
    using assms d by (simp add: unat_add_mod32 xid_pos_def)
  ultimately have "xid_pos b 3 = xid_pos b a + 1 + unat d" by (simp only: xid_pos_def)
  then show ?thesis using True
    by (simp add: TransactionIdAdvance_def Let_def FirstNormalTransactionId_def)
qed

lemma before_Advance:
  assumes "in_window b nx"
  shows "before b (TransactionIdAdvance nx) x \<longleftrightarrow> before b nx x \<or> x = nx"
proof -
  have gt: "xid_pos b nx < xid_pos b (TransactionIdAdvance nx)"
    using assms by (intro Advance_pos_gt) (simp add: in_window_def)
  have "xid_pos b x \<le> xid_pos b nx" if "in_window b x" "xid_pos b x < xid_pos b (TransactionIdAdvance nx)"
    using Advance_pos(2)[OF that(1), of nx] that(2) by (meson not_less order_less_le_trans)
  moreover have "xid_pos b x = xid_pos b nx \<longleftrightarrow> x = nx" by simp
  ultimately show ?thesis using gt assms by (auto simp: before_def order_le_less simp del: xid_pos_inject)
qed

lemma before_irrefl [simp]: "\<not> before b x x" by (simp add: before_def)

lemma forest_ok_start:
  assumes "forest_ok b g nx la" "\<And>x. before b nx' x \<longleftrightarrow> before b nx x \<or> x = nx"
  shows "forest_ok b (forest_start nx g) nx' la"
  unfolding forest_ok_def
proof (intro allI impI)
  fix x assume "before b nx' x"
  then consider "x = nx" | "before b nx x" "x \<noteq> nx" using assms(2) by auto
  then show "node_ok b (forest_start nx g) nx' la x"
  proof cases
    case 1
    then show ?thesis by (simp add: forest_start_def assms(2) node_ok_def)
  next
    case 2
    then have x: "node_ok b g nx la x" using assms(1) by (auto simp: forest_ok_def)
    then have "f_top g x \<noteq> nx" "x \<noteq> f_top g x \<Longrightarrow> f_parent g x \<noteq> nx" by (auto simp: node_ok_def)
    with x 2 show ?thesis by (auto simp: forest_start_def assms(2) node_ok_def)
  qed
qed

lemma forest_ok_sub:
  assumes "forest_ok b g nx la" "\<And>x. before b nx' x \<longleftrightarrow> before b nx x \<or> x = nx"
    and par: "before b nx par" "f_top g par \<notin> f_ended g"
  shows "forest_ok b (forest_sub nx par g) nx' la"
  unfolding forest_ok_def
proof (intro allI impI)
  fix x assume "before b nx' x"
  then consider "x = nx" | "before b nx x" "x \<noteq> nx" using assms(2) by auto
  then show "node_ok b (forest_sub nx par g) nx' la x"
  proof cases
    case 1
    have p: "node_ok b g nx la par" using assms(1) par by (auto simp: forest_ok_def)
    then have t: "before b nx (f_top g par)" "f_top g par \<noteq> nx" "par \<noteq> nx"
      using par(1) by (auto simp: node_ok_def)
    moreover have "xid_pos b (f_top g par) \<le> xid_pos b par" "f_top g (f_top g par) = f_top g par"
      using p by (simp_all add: node_ok_def)
    moreover have "xid_pos b par < xid_pos b nx" using par(1) by (simp add: before_def)
    ultimately show ?thesis using 1 par by (auto simp: forest_sub_def assms(2) node_ok_def)
  next
    case 2
    then have x: "node_ok b g nx la x" using assms(1) by (auto simp: forest_ok_def)
    then have "f_top g x \<noteq> nx" "x \<noteq> f_top g x \<Longrightarrow> f_parent g x \<noteq> nx" by (auto simp: node_ok_def)
    with x 2 show ?thesis by (auto simp: forest_sub_def assms(2) node_ok_def)
  qed
qed

text \<open>Ending ids up to the new latest completed one; with the top of a tree, all of the tree ends.\<close>

lemma forest_ok_end:
  assumes "forest_ok b g nx la" "xid_pos b la \<le> xid_pos b la'"
    and "\<And>x. x \<in> xs \<Longrightarrow> xid_pos b x \<le> xid_pos b la'"
    and "\<And>x. before b nx x \<Longrightarrow> f_top g x \<in> xs \<Longrightarrow> x \<in> f_ended g \<union> xs"
  shows "forest_ok b (forest_end xs g) nx la'"
  unfolding forest_ok_def
proof (intro allI impI)
  fix x assume x: "before b nx x"
  then have "node_ok b g nx la x" using assms(1) by (auto simp: forest_ok_def)
  then show "node_ok b (forest_end xs g) nx la' x"
    using assms(2) assms(3)[of x] assms(4)[OF x] by (auto simp: forest_end_def node_ok_def)
qed

section \<open>The view of the processes\<close>

lemma view_entry: "view_ok T V \<Longrightarrow> V p = Some (t, subs, ovf) \<Longrightarrow> entry_ok T t subs ovf"
  unfolding view_ok_def by blast

lemma entry_inj:
  "view_ok T V \<Longrightarrow> V p = Some (t, subs, ovf) \<Longrightarrow> V q = Some (t, subs', ovf') \<Longrightarrow> TransactionIdIsValid t \<Longrightarrow> p = q"
  unfolding view_ok_def by blast

lemma view_covers:
  assumes "view_ok T V" "t \<in> T t"
  obtains p subs ovf where "V p = Some (t, subs, ovf)" "TransactionIdIsValid t"
  using assms unfolding view_ok_def by blast

lemma entry_top: "entry_ok T t subs ovf \<Longrightarrow> TransactionIdIsValid t \<Longrightarrow> t \<in> T t"
  by (simp add: entry_ok_def)

text \<open>
  Replacing the entry of one process whose tree is the only one that changes.
\<close>

lemma view_ok_upd:
  assumes "view_ok T V" "V p = Some (t0, subs0, ovf0)"
    and new: "entry_ok T' t subs ovf" "t \<noteq> t0 \<Longrightarrow> TransactionIdIsValid t \<Longrightarrow> T t = {}"
    and same: "\<And>y. TransactionIdIsValid y \<Longrightarrow> y \<noteq> t0 \<Longrightarrow> y \<noteq> t \<Longrightarrow> T' y = T y"
    and t0: "t \<noteq> t0 \<Longrightarrow> t0 \<notin> T' t0" and inv: "\<And>y. y \<in> T' y \<Longrightarrow> TransactionIdIsValid y"
  shows "view_ok T' (V(p \<mapsto> (t, subs, ovf)))"
  unfolding view_ok_def
proof (intro conjI allI impI)
  fix q y subs1 ovf1 assume q: "(V(p \<mapsto> (t, subs, ovf))) q = Some (y, subs1, ovf1)"
  show "entry_ok T' y subs1 ovf1"
  proof (cases "q = p")
    case True
    then show ?thesis using q new(1) by simp
  next
    case False
    then have V: "V q = Some (y, subs1, ovf1)" using q by simp
    show ?thesis
    proof (cases "TransactionIdIsValid y")
      case True
      have "y \<noteq> t0" using entry_inj[OF assms(1) V] assms(2) True False by auto
      moreover have "y \<noteq> t"
        using entry_top[OF view_entry[OF assms(1) V] True] new(2) calculation True by auto
      ultimately show ?thesis using view_entry[OF assms(1) V] same True by (simp add: entry_ok_def)
    next
      case False
      then show ?thesis using view_entry[OF assms(1) V] by (simp add: entry_ok_def)
    qed
  qed
next
  fix y assume y: "y \<in> T' y"
  show "TransactionIdIsValid y" by (rule inv[OF y])
  show "\<exists>q subs' ovf'. (V(p \<mapsto> (t, subs, ovf))) q = Some (y, subs', ovf')"
  proof (cases "y = t")
    case False
    then have "y \<noteq> t0" using y t0 by auto
    then have "y \<in> T y" using y same inv[OF y] False by simp
    then obtain q subs' ovf' where q: "V q = Some (y, subs', ovf')" using view_covers[OF assms(1)] by blast
    then have "q \<noteq> p" using assms(2) \<open>y \<noteq> t0\<close> by auto
    then show ?thesis using q by (intro exI[of _ q]) simp
  qed auto
next
  fix q r y subs1 ovf1 subs2 ovf2
  assume a: "(V(p \<mapsto> (t, subs, ovf))) q = Some (y, subs1, ovf1)" "(V(p \<mapsto> (t, subs, ovf))) r = Some (y, subs2, ovf2)"
    "TransactionIdIsValid y"
  have "u = p" if "V u = Some (t, s, v)" "TransactionIdIsValid t" for u s v
  proof (cases "t = t0")
    case False
    then show ?thesis using entry_top[OF view_entry[OF assms(1) that(1)] that(2)] new(2) that(2) by auto
  qed (use entry_inj[OF assms(1) that(1)] assms(2) that(2) in auto)
  then show "q = r"
    using a entry_inj[OF assms(1)] by (auto split: if_splits)
qed

lemma before_valid: "before b nx x \<Longrightarrow> TransactionIdIsValid x"
  by (auto simp: before_def in_window_def intro: valid_of_normal)

lemma tree_valid: "y \<in> tree b g nx t \<Longrightarrow> TransactionIdIsValid y"
  by (auto simp: tree_def live_def dest: before_valid)

lemma tree_not_next:
  assumes "forest_ok b g nx la"
  shows "tree b g nx nx = {}" "nx \<notin> tree b g nx t"
  using assms by (auto simp: tree_def live_def forest_ok_def node_ok_def)

lemma tree_start:
  assumes "forest_ok b g nx la" and nx': "\<And>x. before b nx' x \<longleftrightarrow> before b nx x \<or> x = nx"
  shows "tree b (forest_start nx g) nx' t = (if t = nx then {nx} else tree b g nx t)"
  using tree_not_next(1)[OF assms(1)] by (auto simp: tree_def live_def forest_start_def nx')

lemma view_ok_start:
  assumes "view_ok (tree b g nx) V" "forest_ok b g nx la" "in_window b nx"
    and nx': "\<And>x. before b nx' x \<longleftrightarrow> before b nx x \<or> x = nx"
    and p: "V p = Some (InvalidTransactionId, {}, False)"
  shows "view_ok (tree b (forest_start nx g) nx') (V(p \<mapsto> (nx, {}, False)))"
  by (rule view_ok_upd[OF assms(1) p])
    (use tree_not_next[OF assms(2)] valid_of_normal[OF window_normal[OF assms(3)]] in \<open>auto simp: tree_start[OF assms(2) nx'] entry_ok_def
       TransactionIdIsValid_def dest: tree_valid split: if_splits\<close>)

lemma tree_sub:
  assumes "forest_ok b g nx la" and nx': "\<And>x. before b nx' x \<longleftrightarrow> before b nx x \<or> x = nx"
  shows "tree b (forest_sub nx par g) nx' t
     = (if t = f_top g par then insert nx (tree b g nx t) else tree b g nx t)"
  by (auto simp: tree_def live_def forest_sub_def nx')

lemma view_ok_sub:
  assumes "view_ok (tree b g nx) V" "forest_ok b g nx la"
    and nx': "\<And>x. before b nx' x \<longleftrightarrow> before b nx x \<or> x = nx"
    and p: "V p = Some (f_top g par, subs, ovf)" "TransactionIdIsValid (f_top g par)"
  shows "view_ok (tree b (forest_sub nx par g) nx') (V(p \<mapsto> (f_top g par, insert nx subs, ovf)))"
    "view_ok (tree b (forest_sub nx par g) nx') (V(p \<mapsto> (f_top g par, subs, True)))"
proof -
  have e: "entry_ok (tree b g nx) (f_top g par) subs ovf" by (rule view_entry[OF assms(1) p(1)])
  have n: "nx \<notin> tree b g nx t" for t by (rule tree_not_next(2)[OF assms(2)])
  then have t: "f_top g par \<noteq> nx" using entry_top[OF e p(2)] by auto
  have inv: "y \<in> tree b (forest_sub nx par g) nx' y \<Longrightarrow> TransactionIdIsValid y" for y by (rule tree_valid)
  show "view_ok (tree b (forest_sub nx par g) nx') (V(p \<mapsto> (f_top g par, insert nx subs, ovf)))"
    by (rule view_ok_upd[OF assms(1) p(1) _ _ _ _ inv])
      (use e p(2) t n in \<open>auto simp: tree_sub[OF assms(2) nx'] entry_ok_def\<close>)
  show "view_ok (tree b (forest_sub nx par g) nx') (V(p \<mapsto> (f_top g par, subs, True)))"
    by (rule view_ok_upd[OF assms(1) p(1) _ _ _ _ inv])
      (use e p(2) t n in \<open>auto simp: tree_sub[OF assms(2) nx'] entry_ok_def\<close>)
qed

lemma tree_end: "tree b (forest_end xs g) nx t = tree b g nx t - xs"
  by (auto simp: tree_def live_def forest_end_def)

lemma view_ok_finish:
  assumes "view_ok (tree b g nx) V" "V p = Some (t, subs, ovf)" "TransactionIdIsValid t"
  shows "view_ok (tree b (forest_end (tree b g nx t) g) nx) (V(p \<mapsto> (InvalidTransactionId, {}, False)))"
proof (rule view_ok_upd[OF assms(1,2)])
  show "tree b (forest_end (tree b g nx t) g) nx y = tree b g nx y" if "y \<noteq> t" for y
    using that by (auto simp: tree_end) (auto simp: tree_def)
qed (use assms(3) in \<open>auto simp: entry_ok_def TransactionIdIsValid_def tree_end dest: tree_valid\<close>)

lemma view_ok_abort:
  assumes "view_ok (tree b g nx) V" "V p = Some (t, subs, ovf)" "TransactionIdIsValid t"
    and "xs \<subseteq> tree b g nx t - {t}"
  shows "view_ok (tree b (forest_end xs g) nx) (V(p \<mapsto> (t, subs - xs, ovf)))"
proof (rule view_ok_upd[OF assms(1,2)])
  show "tree b (forest_end xs g) nx y = tree b g nx y" if "y \<noteq> t" for y
    using that assms(4) by (auto simp: tree_end) (auto simp: tree_def)
  show "entry_ok (tree b (forest_end xs g) nx) t (subs - xs) ovf"
    using view_entry[OF assms(1,2)] assms(3,4) by (auto simp: entry_ok_def tree_end)
qed (auto dest: tree_valid)

section \<open>The system\<close>

abbreviation next_xid :: "shmem \<Rightarrow> TransactionId" where
  "next_xid s \<equiv> XidFromFullTransactionId (nextXid (TransamVariables s))"

abbreviation latest_xid :: "shmem \<Rightarrow> TransactionId" where
  "latest_xid s \<equiv> XidFromFullTransactionId (latestCompletedXid (TransamVariables s))"

text \<open>
  The invariant, for a base \<open>b\<close> of the window in which the ids of interest lie.
\<close>

definition xact_inv :: "TransactionId \<Rightarrow> forest \<Rightarrow> shmem \<Rightarrow> bool" where
  "xact_inv b g s \<longleftrightarrow> procarray_ok s \<and> counter_ok (TransamVariables s) \<and> in_window b (next_xid s)
     \<and> in_window b (latest_xid s) \<and> xid_pos b (latest_xid s) < xid_pos b (next_xid s)
     \<and> forest_ok b g (next_xid s) (latest_xid s)
     \<and> view_ok (tree b g (next_xid s)) (proc_view s)
     \<and> links_ok b g (next_xid s) (SubTransGetParent (SubTransCtl s))
     \<and> fresh_from SUBTRANS_XACTS_PER_PAGE (\<lambda>x. SubTransGetParent (SubTransCtl s) x = InvalidTransactionId) (next_xid s)
     \<and> (\<forall>p \<in> set (pgprocnos s). distinct (cached (allProcs s p)))"

text \<open>The 64-bit count of completed transactions does not wrap.\<close>

definition count_ok :: "TransamVariablesData \<Rightarrow> bool" where
  "count_ok tv \<longleftrightarrow> uint (xactCompletionCount tv) + 1 < 18446744073709551616"

text \<open>
  The steps.  A transaction starts with \<open>assign_new_xid\<close>, the part of \<^verbatim>\<open>GetNewTransactionId\<close> under
  the lock; a subtransaction gets its parent link in a step of its own, as \<^verbatim>\<open>AssignTransactionId\<close> calls
  \<^verbatim>\<open>SubTransSetParent\<close> after it has released the lock; it assigns the parent's id and link before the
  child's.  A transaction ends with its running
  subtransactions (the committed children), an aborted subtransaction with some of them.  Writes of
  the commit log, and what a process does to its xmin, its flags and its local id, can happen at any
  time, as can the arrival and departure of idle processes.
\<close>

inductive xact_step :: "TransactionId \<Rightarrow> forest \<times> shmem \<Rightarrow> forest \<times> shmem \<Rightarrow> bool" for b :: TransactionId where
  start: "p \<in> set (pgprocnos s) \<Longrightarrow> \<not> TransactionIdIsValid (proc_xid (allProcs s p)) \<Longrightarrow>
    assign_new_xid p False s = (full, s') \<Longrightarrow> counter_ok (TransamVariables s') \<Longrightarrow> in_window b (next_xid s') \<Longrightarrow>
    xact_step b (g, s) (forest_start (next_xid s) g, s')"
| start_sub: "p \<in> set (pgprocnos s) \<Longrightarrow> TransactionIdIsValid (proc_xid (allProcs s p)) \<Longrightarrow>
    par \<in> tree b g (next_xid s) (proc_xid (allProcs s p)) \<Longrightarrow> par \<notin> f_unlinked g \<Longrightarrow>
    assign_new_xid p True s = (full, s') \<Longrightarrow> counter_ok (TransamVariables s') \<Longrightarrow> in_window b (next_xid s') \<Longrightarrow>
    xact_step b (g, s) (forest_sub (next_xid s) par g, s')"
| link: "before b (next_xid s) x \<Longrightarrow> x \<in> f_unlinked g \<Longrightarrow>
    xact_step b (g, s) (g\<lparr>f_unlinked := f_unlinked g - {x}\<rparr>,
      s\<lparr>SubTransCtl := SubTransSetParent x (f_parent g x) (SubTransCtl s)\<rparr>)"
| finish: "p \<in> set (pgprocnos s) \<Longrightarrow> count_ok (TransamVariables s) \<Longrightarrow> TransactionIdIsValid t \<Longrightarrow> t = proc_xid (allProcs s p) \<Longrightarrow>
    set children = tree b g (next_xid s) t - {t} \<Longrightarrow>
    xact_step b (g, s) (forest_end (tree b g (next_xid s) t) g,
      ProcArrayEndTransactionInternal p (TransactionIdLatest t children) s)"
| abort_sub: "p \<in> set (pgprocnos s) \<Longrightarrow> count_ok (TransamVariables s) \<Longrightarrow> TransactionIdIsValid t \<Longrightarrow> t = proc_xid (allProcs s p) \<Longrightarrow>
    set (xid # children) \<subseteq> tree b g (next_xid s) t - {t} \<Longrightarrow>
    xact_step b (g, s) (forest_end (set (xid # children)) g,
      fst (XidCacheRemoveRunningXids p xid children (TransactionIdLatest xid children) s))"
| arrive: "p \<notin> set (pgprocnos s) \<Longrightarrow> proc_ok (allProcs s p) \<Longrightarrow> \<not> TransactionIdIsValid (proc_xid (allProcs s p)) \<Longrightarrow>
    ProcArrayAdd p s = Inr s' \<Longrightarrow> xact_step b (g, s) (g, s')"
| leave: "p \<in> set (pgprocnos s) \<Longrightarrow> \<not> TransactionIdIsValid (proc_xid (allProcs s p)) \<Longrightarrow>
    xact_step b (g, s) (g, ProcArrayRemove p InvalidTransactionId s)"
| status: "xact_step b (g, s) (g, s\<lparr>XactCtl := TransactionIdSetTreeStatus r x xs st lsn (XactCtl s)\<rparr>)"
| local: "procarray_ok s' \<Longrightarrow> pgprocnos s' = pgprocnos s \<Longrightarrow> TransamVariables s' = TransamVariables s \<Longrightarrow>
    SubTransCtl s' = SubTransCtl s \<Longrightarrow>
    (\<forall>q. proc_xid (allProcs s' q) = proc_xid (allProcs s q) \<and> subxids (allProcs s' q) = subxids (allProcs s q)
       \<and> subxidStatus (allProcs s' q) = subxidStatus (allProcs s q)) \<Longrightarrow>
    xact_step b (g, s) (g, s')"

inductive_cases xact_stepE: "xact_step b gs gs'"

section \<open>Lemmas for the single steps\<close>

lemma XidFrom_RelativeTo [simp]: "XidFromFullTransactionId (FullXidRelativeTo rel x) = x"
proof -
  have "(ucast (scast w :: uint64) :: uint32) = w" for w :: uint32
    by (rule bit_word_eqI) (auto simp: bit_simps)
  then show ?thesis
    by (simp add: FullXidRelativeTo_def XidFromFullTransactionId_def FullTransactionIdFromU64_def ucast32_add)
qed

lemma Maintain_xid:
  "XidFromFullTransactionId (latestCompletedXid (MaintainLatestCompletedXid x tv))
     = (let la = XidFromFullTransactionId (latestCompletedXid tv) in if TransactionIdPrecedes la x then x else la)"
  "nextXid (MaintainLatestCompletedXid x tv) = nextXid tv"
  "counter_ok (MaintainLatestCompletedXid x tv) = counter_ok tv"
  by (simp_all add: MaintainLatestCompletedXid_def counter_ok_def Let_def)

lemma bump_sel [simp]:
  "latestCompletedXid (bump_xactCompletionCount tv) = latestCompletedXid tv"
  "nextXid (bump_xactCompletionCount tv) = nextXid tv"
  "counter_ok (bump_xactCompletionCount tv) = counter_ok tv"
  by (simp_all add: bump_xactCompletionCount_def counter_ok_def)

text \<open>Ids on the page of the next id, at or after it, are at or after it in the window.\<close>

lemma same_page_pos:
  assumes "in_window b nx" "unat y div 2048 = unat nx div 2048" "unat nx \<le> unat y"
  shows "xid_pos b nx \<le> xid_pos b y"
proof -
  have lt: "unat y - unat nx < 2048"
    using div_mult_mod_eq[of "unat y" 2048] div_mult_mod_eq[of "unat nx" 2048] assms(2)
      mod_less_divisor[of 2048 "unat y"] by linarith
  have d: "unat (y - nx) = unat y - unat nx" using assms(3) by (intro unat_sub) (simp add: word_le_nat_alt)
  have "unat ((nx - b) + (y - nx)) = unat (nx - b) + unat (y - nx)"
    using assms(1) lt d unat_add_mod32[of "nx - b" "y - nx"] by (auto simp: in_window_def xid_pos_def)
  moreover have "(nx - b) + (y - nx) = y - b" by simp
  ultimately show ?thesis by (simp only: xid_pos_def)
qed

lemma before_same_page:
  assumes "in_window b nx" "before b nx y" "unat y div 2048 = unat nx div 2048"
  shows "unat y < unat nx"
  using same_page_pos[OF assms(1,3)] assms(2) by (force simp: before_def)

lemma Extend_parent:
  assumes "in_window b nx" "before b nx y"
  shows "SubTransGetParent (ExtendSUBTRANS nx ctl) y = SubTransGetParent ctl y"
proof (cases "SubTransToEntry nx = 0 \<or> nx = FirstNormalTransactionId")
  case False
  then show ?thesis by (simp add: ExtendSUBTRANS_def)
next
  case True
  have "SubTransToPage y \<noteq> SubTransToPage nx"
  proof
    assume "SubTransToPage y = SubTransToPage nx"
    then have page: "unat y div 2048 = unat nx div 2048" by (simp add: subtrans_address)
    then have lt: "unat y < unat nx" by (rule before_same_page[OF assms])
    have "3 \<le> unat y"
      using assms(2) by (simp add: before_def in_window_def TransactionIdIsNormal_def FirstNormalTransactionId_def word_le_nat_alt)
    with lt have "nx \<noteq> FirstNormalTransactionId" by (auto simp: FirstNormalTransactionId_def)
    then have "unat nx mod 2048 = 0" using True by (simp add: subtrans_address)
    then show False
      using lt page div_mult_mod_eq[of "unat y" 2048] div_mult_mod_eq[of "unat nx" 2048] by linarith
  qed
  then show ?thesis by (simp add: ExtendSUBTRANS_def GetParent_ZeroPage)
qed

lemma Latest_bounds:
  assumes "in_window b x" "\<forall>y \<in> set ys. in_window b y"
  shows "TransactionIdLatest x ys \<in> insert x (set ys)"
    "y \<in> insert x (set ys) \<Longrightarrow> xid_pos b y \<le> xid_pos b (TransactionIdLatest x ys)"
  using Latest_foldl[of b x "rev ys"] assms by (auto simp: TransactionIdLatest_def)


lemma End_SubTransCtl: "SubTransCtl (ProcArrayEndTransactionInternal p x s) = SubTransCtl s"
  by (simp add: ProcArrayEndTransactionInternal_def clear_vacuum_flags_def clear_subxids_def Let_def)

lemma RemoveRunning_SubTransCtl:
  "SubTransCtl (fst (XidCacheRemoveRunningXids p x xs l s)) = SubTransCtl s"
proof -
  have c: "SubTransCtl (fst (cache_remove p y sw)) = SubTransCtl (fst sw)" for y sw
    by (cases sw) (simp add: cache_remove_sel)
  have "SubTransCtl (fst (fold (cache_remove p) ys sw)) = SubTransCtl (fst sw)" for ys sw
    by (induction ys arbitrary: sw) (simp_all add: c)
  then show ?thesis by (simp add: XidCacheRemoveRunningXids_def case_prod_beta c)
qed

lemma proc_view_Some: "p \<in> set (pgprocnos s) \<Longrightarrow> proc_view s p = Some (proc_xid (allProcs s p), set (cached (allProcs s p)),
    cs_overflowed (subxidStatus (allProcs s p)))"
  by (simp add: proc_view_def running_of_def)

lemma proc_view_idle:
  assumes "procarray_ok s" "p \<in> set (pgprocnos s)" "\<not> TransactionIdIsValid (proc_xid (allProcs s p))"
  shows "proc_view s p = Some (InvalidTransactionId, {}, False)"
  using procarray_proc_ok[OF assms(1,2)] assms(3) proc_view_Some[OF assms(2)]
  by (simp add: proc_ok_def TransactionIdIsValid_def)

lemma view_ok_add:
  assumes "view_ok T V" "V p = None"
  shows "view_ok T (V(p \<mapsto> (InvalidTransactionId, {}, False)))"
  unfolding view_ok_def
proof (intro conjI allI impI)
  fix t assume "t \<in> T t"
  then obtain q subs ovf where q: "V q = Some (t, subs, ovf)" and t: "TransactionIdIsValid t"
    using view_covers[OF assms(1)] by blast
  then have "q \<noteq> p" using assms(2) by auto
  with q show "\<exists>q subs ovf. (V(p \<mapsto> (InvalidTransactionId, {}, False))) q = Some (t, subs, ovf)"
    by (intro exI[of _ q]) simp
  show "TransactionIdIsValid t" by (rule t)
next
  fix q r t subs ovf subs' ovf'
  assume "(V(p \<mapsto> (InvalidTransactionId, {}, False))) q = Some (t, subs, ovf)"
    "(V(p \<mapsto> (InvalidTransactionId, {}, False))) r = Some (t, subs', ovf')" "TransactionIdIsValid t"
  then show "q = r" using entry_inj[OF assms(1)] by (auto simp: TransactionIdIsValid_def split: if_splits)
next
  fix q t subs ovf assume q: "(V(p \<mapsto> (InvalidTransactionId, {}, False))) q = Some (t, subs, ovf)"
  show "entry_ok T t subs ovf"
  proof (cases "q = p")
    case True
    then show ?thesis using q by (auto simp: entry_ok_def TransactionIdIsValid_def)
  qed (use q view_entry[OF assms(1)] in auto)
qed

lemma view_ok_remove:
  assumes "view_ok T V" "V p = Some (InvalidTransactionId, {}, False)"
  shows "view_ok T (V(p := None))"
  unfolding view_ok_def
proof (intro conjI allI impI)
  fix t assume "t \<in> T t"
  then obtain q subs ovf where q: "V q = Some (t, subs, ovf)" and t: "TransactionIdIsValid t"
    using view_covers[OF assms(1)] by blast
  then have "q \<noteq> p" using assms(2) by (auto simp: TransactionIdIsValid_def)
  with q show "\<exists>q subs ovf. (V(p := None)) q = Some (t, subs, ovf)" by (intro exI[of _ q]) simp
  show "TransactionIdIsValid t" by (rule t)
next
  fix q r t subs ovf subs' ovf'
  assume "(V(p := None)) q = Some (t, subs, ovf)" "(V(p := None)) r = Some (t, subs', ovf')" "TransactionIdIsValid t"
  then show "q = r" using entry_inj[OF assms(1)] by (auto split: if_splits)
qed (use view_entry[OF assms(1)] in \<open>auto split: if_splits\<close>)

section \<open>Every step keeps the invariant\<close>

lemma inv_start:
  assumes inv: "xact_inv b g s" and p: "p \<in> set (pgprocnos s)" "\<not> TransactionIdIsValid (proc_xid (allProcs s p))"
    and r: "assign_new_xid p False s = (full, s')" "counter_ok (TransamVariables s')" "in_window b (next_xid s')"
  shows "xact_inv b (forest_start (next_xid s) g) s'"
proof -
  let ?nx = "next_xid s"
  have i: "procarray_ok s" "counter_ok (TransamVariables s)" "in_window b ?nx" "in_window b (latest_xid s)"
    "xid_pos b (latest_xid s) < xid_pos b ?nx" "forest_ok b g ?nx (latest_xid s)" "view_ok (tree b g ?nx) (proc_view s)"
    "links_ok b g ?nx (SubTransGetParent (SubTransCtl s))"
    "fresh_from SUBTRANS_XACTS_PER_PAGE (\<lambda>x. SubTransGetParent (SubTransCtl s) x = InvalidTransactionId) ?nx"
    "\<forall>p \<in> set (pgprocnos s). distinct (cached (allProcs s p))"
    using inv by (simp_all add: xact_inv_def)
  have "False \<longrightarrow> TransactionIdIsValid (proc_xid (allProcs s p))" by simp
  note e = assign_effect[OF i(1) p(1) i(2) this r(1)]
  have la: "latest_xid s' = latest_xid s" by (simp add: e(2) assign_next_def)
  have nx': "before b (next_xid s') x \<longleftrightarrow> before b ?nx x \<or> x = ?nx" for x
    unfolding e(9) by (rule before_Advance[OF i(3)])
  have "xid_pos b ?nx < xid_pos b (next_xid s')"
    unfolding e(9) using i(3) by (intro Advance_pos_gt) (simp add: in_window_def)
  then have pos: "xid_pos b (latest_xid s') < xid_pos b (next_xid s')" using i(5) la by simp
  have idle: "proc_view s p = Some (InvalidTransactionId, {}, False)" by (rule proc_view_idle[OF i(1) p])
  then have "running_of (stored_proc False ?nx (allProcs s p)) = (?nx, {}, False)"
    using stored_running[OF procarray_proc_ok[OF i(1) p(1)], of False ?nx] p(1) by (simp add: proc_view_def)
  then have view: "view_ok (tree b (forest_start ?nx g) (next_xid s')) (proc_view s')"
    unfolding e(4) using view_ok_start[OF i(7,6,3) nx' idle] by simp
  have f: "SubTransGetParent (SubTransCtl s') ?nx = InvalidTransactionId"
    "fresh_from SUBTRANS_XACTS_PER_PAGE (\<lambda>x. SubTransGetParent (SubTransCtl s') x = InvalidTransactionId) (next_xid s')"
    unfolding e(8,9) by (rule fresh_step[OF _ i(9) ExtendSUBTRANS_clean], simp add: SUBTRANS_XACTS_PER_PAGE_def BLCKSZ_def)+
  have links: "links_ok b (forest_start ?nx g) (next_xid s') (SubTransGetParent (SubTransCtl s'))"
    unfolding links_ok_def
  proof (intro allI impI)
    fix x assume "before b (next_xid s') x"
    then consider "x = ?nx" | "before b ?nx x" "x \<noteq> ?nx" by (auto simp: nx')
    then show "(x \<notin> f_unlinked (forest_start ?nx g) \<longrightarrow> SubTransGetParent (SubTransCtl s') x = f_parent (forest_start ?nx g) x)
      \<and> (x \<noteq> f_top (forest_start ?nx g) x \<longrightarrow> f_parent (forest_start ?nx g) x \<notin> f_unlinked (forest_start ?nx g))"
    proof cases
      case 2
      then show ?thesis using i(8) Extend_parent[OF i(3) 2(1)] by (simp add: links_ok_def e(8) forest_start_def)
    qed (simp add: f forest_start_def)
  qed
  have "\<forall>q \<in> set (pgprocnos s'). distinct (cached (allProcs s' q))"
    using i(10) by (simp add: e(5,6) stored_proc_def)
  then show ?thesis
    using e(3) r(2,3) i(4) la pos forest_ok_start[OF i(6) nx'] view links f(2)
    by (simp add: xact_inv_def)
qed

lemma inv_start_sub:
  assumes inv: "xact_inv b g s" and p: "p \<in> set (pgprocnos s)" "TransactionIdIsValid (proc_xid (allProcs s p))"
    and par: "par \<in> tree b g (next_xid s) (proc_xid (allProcs s p))" and unl: "par \<notin> f_unlinked g"
    and r: "assign_new_xid p True s = (full, s')" "counter_ok (TransamVariables s')" "in_window b (next_xid s')"
  shows "xact_inv b (forest_sub (next_xid s) par g) s'"
proof -
  let ?nx = "next_xid s" and ?t = "proc_xid (allProcs s p)"
  have i: "procarray_ok s" "counter_ok (TransamVariables s)" "in_window b ?nx" "in_window b (latest_xid s)"
    "xid_pos b (latest_xid s) < xid_pos b ?nx" "forest_ok b g ?nx (latest_xid s)" "view_ok (tree b g ?nx) (proc_view s)"
    "links_ok b g ?nx (SubTransGetParent (SubTransCtl s))"
    "fresh_from SUBTRANS_XACTS_PER_PAGE (\<lambda>x. SubTransGetParent (SubTransCtl s) x = InvalidTransactionId) ?nx"
    "\<forall>p \<in> set (pgprocnos s). distinct (cached (allProcs s p))"
    using inv by (simp_all add: xact_inv_def)
  have "True \<longrightarrow> TransactionIdIsValid ?t" using p(2) by simp
  note e = assign_effect[OF i(1) p(1) i(2) this r(1)]
  have la: "latest_xid s' = latest_xid s" by (simp add: e(2) assign_next_def)
  have nx': "before b (next_xid s') x \<longleftrightarrow> before b ?nx x \<or> x = ?nx" for x
    unfolding e(9) by (rule before_Advance[OF i(3)])
  have "xid_pos b ?nx < xid_pos b (next_xid s')"
    unfolding e(9) using i(3) by (intro Advance_pos_gt) (simp add: in_window_def)
  then have pos: "xid_pos b (latest_xid s') < xid_pos b (next_xid s')" using i(5) la by simp
  have par': "before b ?nx par" "f_top g par = ?t" using par by (simp_all add: tree_def live_def)
  note V = proc_view_Some[OF p(1)]
  have sub: "set (cached (allProcs s p)) \<subseteq> tree b g ?nx ?t - {?t}" and "?t \<in> tree b g ?nx ?t"
    using view_entry[OF i(7) V] p(2) by (simp_all add: entry_ok_def)
  then have top: "f_top g par \<notin> f_ended g" by (simp add: par'(2) tree_def live_def)
  have new: "?nx \<notin> set (cached (allProcs s p))" using sub tree_not_next(2)[OF i(6)] by blast
  have view: "view_ok (tree b (forest_sub ?nx par g) (next_xid s')) (proc_view s')"
    using view_ok_sub[OF i(7,6) nx', of p par] V par'(2) p(2)
      stored_running[OF procarray_proc_ok[OF i(1) p(1)], of True ?nx]
    unfolding e(4) by (simp add: running_of_def)
  have f: "fresh_from SUBTRANS_XACTS_PER_PAGE (\<lambda>x. SubTransGetParent (SubTransCtl s') x = InvalidTransactionId) (next_xid s')"
    unfolding e(8,9) by (rule fresh_step[OF _ i(9) ExtendSUBTRANS_clean]) (simp add: SUBTRANS_XACTS_PER_PAGE_def BLCKSZ_def)
  have links: "links_ok b (forest_sub ?nx par g) (next_xid s') (SubTransGetParent (SubTransCtl s'))"
    unfolding links_ok_def
  proof (intro allI impI)
    fix x assume "before b (next_xid s') x"
    then consider "x = ?nx" | "before b ?nx x" "x \<noteq> ?nx" by (auto simp: nx')
    then show "(x \<notin> f_unlinked (forest_sub ?nx par g) \<longrightarrow> SubTransGetParent (SubTransCtl s') x = f_parent (forest_sub ?nx par g) x)
      \<and> (x \<noteq> f_top (forest_sub ?nx par g) x \<longrightarrow> f_parent (forest_sub ?nx par g) x \<notin> f_unlinked (forest_sub ?nx par g))"
    proof cases
      case 1
      then show ?thesis using unl par'(1) by (auto simp: forest_sub_def)
    next
      case 2
      have "x \<noteq> f_top g x \<Longrightarrow> f_parent g x \<noteq> ?nx" using i(6) 2(1) by (auto simp: forest_ok_def node_ok_def)
      then show ?thesis
        using 2 i(8) Extend_parent[OF i(3) 2(1)] by (simp add: links_ok_def e(8) forest_sub_def)
    qed
  qed
  have n: "cs_count (subxidStatus (allProcs s p)) \<le> length (subxids (allProcs s p))"
    "length (subxids (allProcs s p)) = PGPROC_MAX_CACHED_SUBXIDS"
    using procarray_proc_ok[OF i(1) p(1)] by (simp_all add: proc_ok_def)
  have "distinct (cached (stored_proc True ?nx (allProcs s p)))"
    using i(10) p(1) new n by (auto simp: stored_proc_def take_Suc_conv_app_nth)
  then have "\<forall>q \<in> set (pgprocnos s'). distinct (cached (allProcs s' q))"
    using i(10) by (simp add: e(5,6))
  then show ?thesis
    using e(3) r(2,3) i(4) la pos forest_ok_sub[OF i(6) nx' par'(1) top] view links f
    by (simp add: xact_inv_def)
qed

lemma inv_link:
  assumes inv: "xact_inv b g s" and x: "before b (next_xid s) x" "x \<in> f_unlinked g"
  shows "xact_inv b (g\<lparr>f_unlinked := f_unlinked g - {x}\<rparr>)
     (s\<lparr>SubTransCtl := SubTransSetParent x (f_parent g x) (SubTransCtl s)\<rparr>)"
proof -
  let ?nx = "next_xid s" and ?g = "g\<lparr>f_unlinked := f_unlinked g - {x}\<rparr>"
  let ?s = "s\<lparr>SubTransCtl := SubTransSetParent x (f_parent g x) (SubTransCtl s)\<rparr>"
  have norm: "TransactionIdIsNormal x" using x(1) by (simp add: before_def in_window_def)
  have s: "procarray_ok ?s = procarray_ok s" "proc_view ?s = proc_view s"
    by (rule procarray_cong; simp)+
  have same: "forest_ok b ?g nx la = forest_ok b g nx la" "tree b ?g nx = tree b g nx" for nx la
    by (simp_all add: forest_ok_def node_ok_def tree_def live_def fun_eq_iff)
  have win: "in_window b ?nx" using inv by (simp add: xact_inv_def)
  have "fresh_from SUBTRANS_XACTS_PER_PAGE (\<lambda>y. SubTransGetParent (SubTransCtl s) y = InvalidTransactionId) ?nx"
    using inv by (simp add: xact_inv_def)
  moreover have "y \<noteq> x" if "unat y div 2048 = unat ?nx div 2048" "unat ?nx \<le> unat y" for y
    using before_same_page[OF win x(1)] that by auto
  ultimately have f: "fresh_from SUBTRANS_XACTS_PER_PAGE
      (\<lambda>y. SubTransGetParent (SubTransSetParent x (f_parent g x) (SubTransCtl s)) y = InvalidTransactionId) ?nx"
    by (auto simp: fresh_from_def GetParent_SetParent[OF norm] SUBTRANS_XACTS_PER_PAGE_def BLCKSZ_def)
  show ?thesis
    using inv f by (auto simp: xact_inv_def s same links_ok_def GetParent_SetParent[OF norm])
qed

lemma tree_window: "x \<in> tree b g nx t \<Longrightarrow> in_window b x \<and> xid_pos b x < xid_pos b nx"
  by (simp add: tree_def live_def before_def)

text \<open>The latest completed id after a set of ids ended, the latest of them \<open>l\<close>.\<close>

lemma Maintain_latest:
  assumes "in_window b la" "in_window b l"
  shows "in_window b (if TransactionIdPrecedes la l then l else la)"
    "xid_pos b la \<le> xid_pos b (if TransactionIdPrecedes la l then l else la)"
    "xid_pos b l \<le> xid_pos b (if TransactionIdPrecedes la l then l else la)"
    "xid_pos b la < m \<Longrightarrow> xid_pos b l < m \<Longrightarrow> xid_pos b (if TransactionIdPrecedes la l then l else la) < m"
  using assms by (auto simp: Precedes_window)

lemma inv_finish:
  assumes inv: "xact_inv b g s" and p: "p \<in> set (pgprocnos s)" "TransactionIdIsValid t" "t = proc_xid (allProcs s p)"
    and children: "set children = tree b g (next_xid s) t - {t}"
  shows "xact_inv b (forest_end (tree b g (next_xid s) t) g)
     (ProcArrayEndTransactionInternal p (TransactionIdLatest t children) s)"
proof -
  let ?nx = "next_xid s" and ?l = "TransactionIdLatest t children"
  let ?s = "ProcArrayEndTransactionInternal p ?l s"
  have i: "procarray_ok s" "counter_ok (TransamVariables s)" "in_window b ?nx" "in_window b (latest_xid s)"
    "xid_pos b (latest_xid s) < xid_pos b ?nx" "forest_ok b g ?nx (latest_xid s)" "view_ok (tree b g ?nx) (proc_view s)"
    "links_ok b g ?nx (SubTransGetParent (SubTransCtl s))"
    "fresh_from SUBTRANS_XACTS_PER_PAGE (\<lambda>x. SubTransGetParent (SubTransCtl s) x = InvalidTransactionId) ?nx"
    "\<forall>p \<in> set (pgprocnos s). distinct (cached (allProcs s p))"
    using inv by (simp_all add: xact_inv_def)
  note V = proc_view_Some[OF p(1), folded p(3)]
  have t: "t \<in> tree b g ?nx t" by (rule entry_top[OF view_entry[OF i(7) V] p(2)])
  then have tr: "insert t (set children) = tree b g ?nx t" using children by auto
  have w: "in_window b t" "\<forall>y \<in> set children. in_window b y" using t children tree_window by blast+
  note l = Latest_bounds[OF w, unfolded tr]
  have lw: "in_window b ?l" "xid_pos b ?l < xid_pos b ?nx" using tree_window[OF l(1)] by simp_all
  note m = Maintain_latest[OF i(4) lw(1)]
  have sel: "next_xid ?s = ?nx" "latest_xid ?s = (if TransactionIdPrecedes (latest_xid s) ?l then ?l else latest_xid s)"
    "counter_ok (TransamVariables ?s) = counter_ok (TransamVariables s)" "SubTransCtl ?s = SubTransCtl s"
    by (simp_all add: EndInternal_sel Maintain_xid End_SubTransCtl Let_def)
  have forest: "forest_ok b (forest_end (tree b g ?nx t) g) ?nx (latest_xid ?s)"
    unfolding sel
  proof (rule forest_ok_end[OF i(6) m(2)])
    show "xid_pos b x \<le> xid_pos b (if TransactionIdPrecedes (latest_xid s) ?l then ?l else latest_xid s)"
      if "x \<in> tree b g ?nx t" for x using l(2)[OF that] m(3) by linarith
    show "x \<in> f_ended g \<union> tree b g ?nx t" if "before b ?nx x" "f_top g x \<in> tree b g ?nx t" for x
    proof -
      have "f_top g x = t" using that i(6) by (auto simp: tree_def forest_ok_def node_ok_def)
      then show ?thesis using that(1) by (auto simp: tree_def live_def)
    qed
  qed
  have view: "view_ok (tree b (forest_end (tree b g ?nx t) g) ?nx) (proc_view ?s)"
    using view_ok_finish[OF i(7) V p(2)] EndInternal_effect(2)[OF i(1) p(1)] by simp
  have links: "links_ok b (forest_end (tree b g ?nx t) g) ?nx (SubTransGetParent (SubTransCtl s))"
    using i(8) by (simp add: links_ok_def forest_end_def)
  have "\<forall>q \<in> set (pgprocnos ?s). distinct (cached (allProcs ?s q))"
    using i(10) by (simp add: EndInternal_sel ended_proc_def)
  then show ?thesis
    using EndInternal_effect(1)[OF i(1) p(1)] i forest view links m(1) m(4)[OF i(5) lw(2)]
    by (simp add: xact_inv_def sel)
qed

lemma inv_abort:
  assumes inv: "xact_inv b g s" and p: "p \<in> set (pgprocnos s)" "TransactionIdIsValid t" "t = proc_xid (allProcs s p)"
    and xs: "set (xid # children) \<subseteq> tree b g (next_xid s) t - {t}"
  shows "xact_inv b (forest_end (set (xid # children)) g)
     (fst (XidCacheRemoveRunningXids p xid children (TransactionIdLatest xid children) s))"
proof -
  let ?nx = "next_xid s" and ?l = "TransactionIdLatest xid children" and ?xs = "set (xid # children)"
  obtain s' w where r: "XidCacheRemoveRunningXids p xid children ?l s = (s', w)" by force
  have i: "procarray_ok s" "counter_ok (TransamVariables s)" "in_window b ?nx" "in_window b (latest_xid s)"
    "xid_pos b (latest_xid s) < xid_pos b ?nx" "forest_ok b g ?nx (latest_xid s)" "view_ok (tree b g ?nx) (proc_view s)"
    "links_ok b g ?nx (SubTransGetParent (SubTransCtl s))"
    "fresh_from SUBTRANS_XACTS_PER_PAGE (\<lambda>x. SubTransGetParent (SubTransCtl s) x = InvalidTransactionId) ?nx"
    "\<forall>p \<in> set (pgprocnos s). distinct (cached (allProcs s p))"
    using inv by (simp_all add: xact_inv_def)
  note V = proc_view_Some[OF p(1), folded p(3)]
  have "distinct (cached (allProcs s p))" using i(10) p(1) by blast
  note e = RemoveRunning_effect[OF i(1) p(1) this r]
  have w: "in_window b xid" "\<forall>y \<in> set children. in_window b y" using xs tree_window[of _ b g ?nx t] by auto
  note l = Latest_bounds[OF w]
  have lt: "?l \<in> tree b g ?nx t" using l(1) xs by auto
  have lw: "in_window b ?l" "xid_pos b ?l < xid_pos b ?nx" using tree_window[OF lt] by simp_all
  note m = Maintain_latest[OF i(4) lw(1)]
  have sel: "next_xid s' = ?nx" "latest_xid s' = (if TransactionIdPrecedes (latest_xid s) ?l then ?l else latest_xid s)"
    "counter_ok (TransamVariables s') = counter_ok (TransamVariables s)" "SubTransCtl s' = SubTransCtl s"
    using RemoveRunning_SubTransCtl[of p xid children ?l s] r by (simp_all add: e(4) Maintain_xid Let_def)
  have forest: "forest_ok b (forest_end ?xs g) ?nx (latest_xid s')"
    unfolding sel
  proof (rule forest_ok_end[OF i(6) m(2)])
    show "xid_pos b x \<le> xid_pos b (if TransactionIdPrecedes (latest_xid s) ?l then ?l else latest_xid s)"
      if "x \<in> ?xs" for x using l(2)[of x] that m(3) by (simp del: if_split)
    show "x \<in> f_ended g \<union> ?xs" if "before b ?nx x" "f_top g x \<in> ?xs" for x
    proof -
      have "f_top g (f_top g x) = t" "f_top g x \<noteq> t" using that(2) xs by (auto simp: tree_def)
      then show ?thesis using that(1) i(6) by (auto simp: forest_ok_def node_ok_def)
    qed
  qed
  have view: "view_ok (tree b (forest_end ?xs g) ?nx) (proc_view s')"
    using view_ok_abort[OF i(7) V p(2) xs] by (simp only: e(6) p(3))
  have links: "links_ok b (forest_end ?xs g) ?nx (SubTransGetParent (SubTransCtl s))"
    using i(8) by (simp add: links_ok_def forest_end_def)
  have "\<forall>q \<in> set (pgprocnos s'). distinct (cached (allProcs s' q))"
    using i(10) e(2,3,5) by metis
  then show ?thesis
    using e(1) i forest view links m(1) m(4)[OF i(5) lw(2)] by (simp add: xact_inv_def sel r)
qed

lemma inv_arrive:
  assumes inv: "xact_inv b g s" and p: "p \<notin> set (pgprocnos s)" "proc_ok (allProcs s p)"
    "\<not> TransactionIdIsValid (proc_xid (allProcs s p))" and r: "ProcArrayAdd p s = Inr s'"
  shows "xact_inv b g s'"
proof -
  have ok: "procarray_ok s" using inv by (simp add: xact_inv_def)
  have room: "numProcs s < maxProcs s" using r by (auto simp: ProcArrayAdd_def split: if_splits)
  have e: "procarray_ok s'" "TransamVariables s' = TransamVariables s" "SubTransCtl s' = SubTransCtl s"
    "set (pgprocnos s') = insert p (set (pgprocnos s))" "\<forall>q. cached (allProcs s' q) = cached (allProcs s q)"
    "proc_view s' = (proc_view s)(p \<mapsto> running_of (allProcs s p))"
    using Add_effect[OF ok p(1,2) room] r by auto
  have idle: "running_of (allProcs s p) = (InvalidTransactionId, {}, False)" "distinct (cached (allProcs s p))"
    using p(2,3) by (auto simp: running_of_def proc_ok_def TransactionIdIsValid_def)
  have "proc_view s p = None" using p(1) by (simp add: proc_view_def)
  then have "view_ok (tree b g (next_xid s)) (proc_view s')"
    using view_ok_add[of "tree b g (next_xid s)" "proc_view s" p] inv unfolding e(6) idle by (simp add: xact_inv_def)
  then show ?thesis using inv e idle(2) by (simp add: xact_inv_def)
qed

lemma inv_leave:
  assumes inv: "xact_inv b g s" and p: "p \<in> set (pgprocnos s)" "\<not> TransactionIdIsValid (proc_xid (allProcs s p))"
  shows "xact_inv b g (ProcArrayRemove p InvalidTransactionId s)"
proof -
  have ok: "procarray_ok s" using inv by (simp add: xact_inv_def)
  note e = Remove_effect[OF ok p(1), of InvalidTransactionId]
  have "view_ok (tree b g (next_xid s)) (proc_view s)" using inv by (simp add: xact_inv_def)
  from view_ok_remove[OF this proc_view_idle[OF ok p]]
  show ?thesis using inv e by (auto simp: xact_inv_def TransactionIdIsValid_def)
qed

lemma inv_local:
  assumes "xact_inv b g s" "procarray_ok s'" "pgprocnos s' = pgprocnos s" "TransamVariables s' = TransamVariables s"
    "SubTransCtl s' = SubTransCtl s"
    "\<forall>q. proc_xid (allProcs s' q) = proc_xid (allProcs s q) \<and> subxids (allProcs s' q) = subxids (allProcs s q)
       \<and> subxidStatus (allProcs s' q) = subxidStatus (allProcs s q)"
  shows "xact_inv b g s'"
proof -
  have "proc_view s' = proc_view s"
    using assms(3,6) by (auto simp: proc_view_def running_of_def fun_eq_iff)
  then show ?thesis using assms by (simp add: xact_inv_def)
qed

lemma inv_step:
  assumes "xact_step b (g, s) (g', s')" "xact_inv b g s"
  shows "xact_inv b g' s'"
  using assms(1)
proof cases
  case (start p full)
  then show ?thesis using inv_start[OF assms(2)] by simp
next
  case (start_sub p par full)
  then show ?thesis using inv_start_sub[OF assms(2)] by simp
next
  case (link x)
  then show ?thesis using inv_link[OF assms(2)] by simp
next
  case (finish p t children)
  then show ?thesis using inv_finish[OF assms(2)] by simp
next
  case (abort_sub p t xid children)
  then show ?thesis using inv_abort[OF assms(2)] by simp
next
  case (arrive p)
  then show ?thesis using inv_arrive[OF assms(2)] by simp
next
  case (leave p)
  then show ?thesis using inv_leave[OF assms(2)] by simp
next
  case (status r x xs st lsn)
  have "procarray_ok s' = procarray_ok s" unfolding status by (rule procarray_cong) simp_all
  then show ?thesis using inv_local[OF assms(2), of s'] assms(2) status by (simp add: xact_inv_def)
next
  case local
  then show ?thesis using inv_local[OF assms(2)] by simp
qed

section \<open>Runs\<close>

text \<open>What later steps keep of the ids assigned before, and what a completion count says.\<close>

definition forest_le :: "TransactionId \<Rightarrow> TransactionId \<Rightarrow> forest \<Rightarrow> TransactionId \<Rightarrow> forest \<Rightarrow> bool" where
  "forest_le b nx g nx' g' \<longleftrightarrow> xid_pos b nx \<le> xid_pos b nx'
     \<and> (\<forall>x. before b nx x \<longrightarrow> f_top g' x = f_top g x \<and> f_parent g' x = f_parent g x
          \<and> (x \<in> f_ended g \<longrightarrow> x \<in> f_ended g') \<and> (x \<notin> f_unlinked g \<longrightarrow> x \<notin> f_unlinked g'))"

lemma forest_le_trans:
  assumes "forest_le b nx g nx' g'" "forest_le b nx' g' nx'' g''"
  shows "forest_le b nx g nx'' g''"
proof -
  have "before b nx' x" if "before b nx x" for x using that assms(1) by (auto simp: before_def forest_le_def)
  then show ?thesis using assms unfolding forest_le_def by auto
qed

abbreviation completions :: "shmem \<Rightarrow> int" where
  "completions s \<equiv> uint (xactCompletionCount (TransamVariables s))"

lemma completions_bump:
  assumes "count_ok (TransamVariables s)"
    and "TransamVariables s' = bump_xactCompletionCount (MaintainLatestCompletedXid x (TransamVariables s))"
  shows "completions s' = completions s + 1"
  using assms by (simp add: count_ok_def bump_xactCompletionCount_def MaintainLatestCompletedXid_def Let_def
      uint_word_ariths)

lemma run_step:
  assumes "xact_step b (g, s) (g', s')" "xact_inv b g s"
  shows "forest_le b (next_xid s) g (next_xid s') g'
     \<and> completions s \<le> completions s'
     \<and> (completions s' = completions s \<longrightarrow>
          (\<forall>x. before b (next_xid s') x \<longrightarrow> (x \<in> f_ended g' \<longleftrightarrow> before b (next_xid s) x \<and> x \<in> f_ended g)))"
proof -
  have i: "procarray_ok s" "counter_ok (TransamVariables s)" "in_window b (next_xid s)"
    "\<forall>p \<in> set (pgprocnos s). distinct (cached (allProcs s p))"
    using assms(2) by (simp_all add: xact_inv_def)
  have gt: "xid_pos b (next_xid s) < xid_pos b (TransactionIdAdvance (next_xid s))"
    using i(3) by (intro Advance_pos_gt) (simp add: in_window_def)
  from assms(1) show ?thesis
  proof cases
    case (start p full)
    have "False \<longrightarrow> TransactionIdIsValid (proc_xid (allProcs s p))" by simp
    note e = assign_effect[OF i(1) start(2) i(2) this start(4)]
    have "completions s' = completions s" by (simp add: e(2) assign_next_def)
    moreover have "xid_pos b (next_xid s) < xid_pos b (next_xid s')" using gt by (simp only: e(9))
    moreover have "before b (next_xid s') x \<longleftrightarrow> before b (next_xid s) x \<or> x = next_xid s" for x
      unfolding e(9) by (rule before_Advance[OF i(3)])
    ultimately show ?thesis using start(1) by (auto simp: forest_le_def forest_start_def)
  next
    case (start_sub p par full)
    have "True \<longrightarrow> TransactionIdIsValid (proc_xid (allProcs s p))" using start_sub by simp
    note e = assign_effect[OF i(1) start_sub(2) i(2) this start_sub(6)]
    have "completions s' = completions s" by (simp add: e(2) assign_next_def)
    moreover have "xid_pos b (next_xid s) < xid_pos b (next_xid s')" using gt by (simp only: e(9))
    moreover have "before b (next_xid s') x \<longleftrightarrow> before b (next_xid s) x \<or> x = next_xid s" for x
      unfolding e(9) by (rule before_Advance[OF i(3)])
    ultimately show ?thesis using start_sub(1) by (auto simp: forest_le_def forest_sub_def)
  next
    case (link x)
    then show ?thesis by (auto simp: forest_le_def)
  next
    case (finish p t children)
    have "completions s' = completions s + 1"
      using completions_bump[OF finish(4), of s'] finish(2) by (simp add: EndInternal_sel)
    moreover have "next_xid s' = next_xid s" by (simp add: finish(2) EndInternal_sel Maintain_xid)
    ultimately show ?thesis using finish(1) by (auto simp: forest_le_def forest_end_def)
  next
    case (abort_sub p t xid children)
    have r: "XidCacheRemoveRunningXids p xid children (TransactionIdLatest xid children) s
        = (s', snd (XidCacheRemoveRunningXids p xid children (TransactionIdLatest xid children) s))"
      by (simp add: abort_sub(2))
    have "distinct (cached (allProcs s p))" using i(4) abort_sub(3) by blast
    note e = RemoveRunning_effect(4)[OF i(1) abort_sub(3) this r]
    have "completions s' = completions s + 1" using completions_bump[OF abort_sub(4) e] .
    moreover have "next_xid s' = next_xid s" by (simp add: e Maintain_xid)
    ultimately show ?thesis using abort_sub(1) by (auto simp: forest_le_def forest_end_def)
  next
    case (arrive p)
    then have "TransamVariables s' = TransamVariables s"
      using Add_effect[OF i(1) arrive(2,3)] by (auto simp: ProcArrayAdd_def split: if_splits)
    then show ?thesis using arrive(1) by (simp add: forest_le_def)
  next
    case (leave p)
    then have "TransamVariables s' = TransamVariables s"
      using Remove_effect(4)[OF i(1) leave(3), of InvalidTransactionId] by (simp add: TransactionIdIsValid_def)
    then show ?thesis using leave(1) by (simp add: forest_le_def)
  next
    case (status r x xs st lsn)
    then show ?thesis by (simp add: forest_le_def)
  next
    case local
    then show ?thesis by (simp add: forest_le_def)
  qed
qed


lemma run_inv:
  assumes "(xact_step b)\<^sup>*\<^sup>* (g, s) (g', s')" "xact_inv b g s"
  shows "xact_inv b g' s' \<and> forest_le b (next_xid s) g (next_xid s') g' \<and> completions s \<le> completions s'
     \<and> (completions s' = completions s \<longrightarrow>
          (\<forall>x. before b (next_xid s') x \<longrightarrow> (x \<in> f_ended g' \<longleftrightarrow> before b (next_xid s) x \<and> x \<in> f_ended g)))"
  using assms(1)
proof (induction "(g', s')" arbitrary: g' s' rule: rtranclp_induct)
  case base
  then show ?case using assms(2) by (simp add: forest_le_def)
next
  case (step gs)
  obtain g1 s1 where gs: "gs = (g1, s1)" by force
  have IH: "xact_inv b g1 s1" "forest_le b (next_xid s) g (next_xid s1) g1" "completions s \<le> completions s1"
    "completions s1 = completions s \<Longrightarrow> before b (next_xid s1) x \<Longrightarrow>
       x \<in> f_ended g1 \<longleftrightarrow> before b (next_xid s) x \<and> x \<in> f_ended g" for x
    using step.hyps(3)[OF gs] by auto
  note r = run_step[OF step.hyps(2)[unfolded gs] IH(1)]
  have "x \<in> f_ended g' \<longleftrightarrow> before b (next_xid s) x \<and> x \<in> f_ended g"
    if "completions s' = completions s" "before b (next_xid s') x" for x
  proof -
    have "completions s1 = completions s" "completions s' = completions s1" using r IH(3) that(1) by linarith+
    moreover have "before b (next_xid s) x \<Longrightarrow> before b (next_xid s1) x"
      using IH(2) by (auto simp: before_def forest_le_def)
    ultimately show ?thesis using r IH(4) that(2) by blast
  qed
  then show ?case
    using inv_step[OF step.hyps(2)[unfolded gs] IH(1)] forest_le_trans[OF IH(2)] r IH(3) by auto
qed

section \<open>The walk to the topmost parent\<close>

lemma topmost_walk:
  assumes "forest_ok b g nx la" "links_ok b g nx (SubTransGetParent ctl)" "in_window b w"
    and "before b nx x" "x \<notin> f_unlinked g"
  shows "\<exists>r. topmost_loop w ctl x prev = Some (Inr r) \<and> before b nx r \<and> f_top g r = f_top g x
     \<and> (r = f_top g x \<or> xid_pos b r < xid_pos b w)"
  using assms(4,5)
proof (induction "xid_pos b x" arbitrary: x prev rule: less_induct)
  case less
  have n: "node_ok b g nx la x" using assms(1) less.prems(1) by (simp add: forest_ok_def)
  have v: "TransactionIdIsValid x" "in_window b x" using before_valid[OF less.prems(1)] less.prems(1) by (simp_all add: before_def)
  have pre: "TransactionIdPrecedes x w \<longleftrightarrow> xid_pos b x < xid_pos b w" by (rule Precedes_window[OF v(2) assms(3)])
  have par: "SubTransGetParent ctl x = f_parent g x" using assms(2) less.prems by (simp add: links_ok_def)
  show ?case
  proof (cases "xid_pos b x < xid_pos b w")
    case True
    then show ?thesis using less.prems(1) by (subst topmost_loop.simps) (simp add: v pre)
  next
    case above: False
    show ?thesis
    proof (cases "x = f_top g x")
      case True
      then have "f_parent g x = InvalidTransactionId" using n by (simp add: node_ok_def)
      moreover have "topmost_loop w ctl InvalidTransactionId x = Some (Inr x)"
        by (subst topmost_loop.simps) (simp add: TransactionIdIsValid_def)
      moreover have "TransactionIdPrecedes InvalidTransactionId x"
        using v(2) by (auto simp: TransactionIdPrecedes_def in_window_def TransactionIdIsNormal_def
            FirstNormalTransactionId_def InvalidTransactionId_def word_gt_0)
      ultimately show ?thesis
        using less.prems(1) True above by (subst topmost_loop.simps) (simp add: v pre par)
    next
      case False
      let ?p = "f_parent g x"
      have p: "before b nx ?p" "xid_pos b ?p < xid_pos b x" "f_top g ?p = f_top g x" "?p \<notin> f_unlinked g"
        using n False assms(2) less.prems(1) by (simp_all add: node_ok_def links_ok_def)
      have "TransactionIdPrecedes ?p x"
        using Precedes_window[of b ?p x] p(1,2) v(2) by (simp add: before_def)
      moreover obtain r where "topmost_loop w ctl ?p x = Some (Inr r)" "before b nx r" "f_top g r = f_top g ?p"
        "r = f_top g ?p \<or> xid_pos b r < xid_pos b w"
        using less.hyps[OF p(2,1,4)] by blast
      ultimately show ?thesis
        using above p(3) by (subst topmost_loop.simps) (simp add: v pre par)
    qed
  qed
qed

section \<open>What a snapshot means\<close>

text \<open>
  A snapshot of the state with forest \<open>g\<close> and next id \<open>nx\<close>, except for the trees \<open>excl\<close> that a
  snapshot leaves out (the backend's own and those of processes in vacuum or logical decoding).
\<close>

definition snapshot_of :: "TransactionId \<Rightarrow> forest \<Rightarrow> TransactionId \<Rightarrow> TransactionId set \<Rightarrow> SnapshotData \<Rightarrow> bool" where
  "snapshot_of b g nx excl snap \<longleftrightarrow> \<not> takenDuringRecovery snap
     \<and> in_window b (snap_xmin snap) \<and> in_window b (snap_xmax snap)
     \<and> xid_pos b (snap_xmin snap) \<le> xid_pos b (snap_xmax snap) \<and> xid_pos b (snap_xmax snap) \<le> xid_pos b nx
     \<and> (\<forall>x. before b nx x \<longrightarrow> x \<in> f_ended g \<longrightarrow> xid_pos b x < xid_pos b (snap_xmax snap))
     \<and> (\<forall>t. t \<in> set (xip snap) \<longleftrightarrow> live b g nx t \<and> f_top g t = t \<and> t \<notin> excl \<and> xid_pos b t < xid_pos b (snap_xmax snap))
     \<and> (\<forall>t \<in> set (xip snap). xid_pos b (snap_xmin snap) \<le> xid_pos b t)
     \<and> (suboverflowed snap \<or> (\<forall>x. in_window b x \<longrightarrow> xid_pos b x < xid_pos b (snap_xmax snap) \<longrightarrow>
          (x \<in> set (subxip snap) \<longleftrightarrow> live b g nx x \<and> f_top g x \<noteq> x \<and> f_top g x \<notin> excl)))"

lemma in_snapshot_iff:
  assumes snap: "snapshot_of b g nx excl snap" and g: "forest_ok b g nx la"
    and g': "forest_ok b g' nx' la'" "links_ok b g' nx' (SubTransGetParent ctl)" "forest_le b nx g nx' g'"
    and x: "in_window b x" "before b nx x \<Longrightarrow> x \<notin> f_unlinked g' \<and> f_top g x \<notin> excl"
    and w: "in_window b w" "xid_pos b w \<le> xid_pos b (snap_xmin snap)"
  shows "\<exists>r. XidInMVCCSnapshot w ctl x snap = Some (Inr r)
     \<and> (live b g nx x \<or> \<not> before b nx x \<longrightarrow> r) \<and> (r \<longrightarrow> \<not> before b nx x \<or> f_top g x \<notin> f_ended g)"
proof -
  let ?min = "snap_xmin snap" and ?max = "snap_xmax snap"
  have s: "\<not> takenDuringRecovery snap" "in_window b ?min" "in_window b ?max" "xid_pos b ?min \<le> xid_pos b ?max"
    "xid_pos b ?max \<le> xid_pos b nx"
    "\<And>x. before b nx x \<Longrightarrow> x \<in> f_ended g \<Longrightarrow> xid_pos b x < xid_pos b ?max"
    "\<And>t. t \<in> set (xip snap) \<longleftrightarrow> live b g nx t \<and> f_top g t = t \<and> t \<notin> excl \<and> xid_pos b t < xid_pos b ?max"
    "\<And>t. t \<in> set (xip snap) \<Longrightarrow> xid_pos b ?min \<le> xid_pos b t"
    "\<And>x. \<not> suboverflowed snap \<Longrightarrow> in_window b x \<Longrightarrow> xid_pos b x < xid_pos b ?max \<Longrightarrow>
          x \<in> set (subxip snap) \<longleftrightarrow> live b g nx x \<and> f_top g x \<noteq> x \<and> f_top g x \<notin> excl"
    using snap unfolding snapshot_of_def by blast+
  have new: "xid_pos b ?max \<le> xid_pos b x" if "\<not> before b nx x" using that x(1) s(5) by (simp add: before_def)
  have top: "f_top g x \<in> set (xip snap) \<and> xid_pos b (f_top g x) \<le> xid_pos b x \<and> xid_pos b ?min \<le> xid_pos b (f_top g x)"
    if "live b g nx x" "xid_pos b x < xid_pos b ?max"
  proof -
    have n: "node_ok b g nx la x" and bx: "before b nx x" using that(1) g by (auto simp: live_def forest_ok_def)
    then have "live b g nx (f_top g x)" using that(1) by (auto simp: live_def node_ok_def)
    then have "f_top g x \<in> set (xip snap)" using n x(2)[OF bx] that(2) by (auto simp: s(7) node_ok_def)
    then show ?thesis using n s(8) by (auto simp: node_ok_def)
  qed
  consider "xid_pos b x < xid_pos b ?min" | "xid_pos b ?max \<le> xid_pos b x"
    | "xid_pos b ?min \<le> xid_pos b x" "xid_pos b x < xid_pos b ?max" by linarith
  then show ?thesis
  proof cases
    case 1
    then have "XidInMVCCSnapshot w ctl x snap = Some (Inr False)"
      by (simp add: XidInMVCCSnapshot_def Precedes_window[OF x(1) s(2)])
    moreover have "\<not> live b g nx x" using top 1 s(4) by fastforce
    moreover have "before b nx x" using new 1 s(4) by fastforce
    ultimately show ?thesis by auto
  next
    case 2
    then have "XidInMVCCSnapshot w ctl x snap = Some (Inr True)"
      using s(4) by (simp add: XidInMVCCSnapshot_def Precedes_window[OF x(1) s(2)] FollowsOrEquals_window[OF x(1) s(3)])
    moreover have "f_top g x \<notin> f_ended g" if "before b nx x"
    proof
      assume "f_top g x \<in> f_ended g"
      then have "x \<in> f_ended g" using g that by (auto simp: forest_ok_def node_ok_def)
      then show False using s(6)[OF that] 2 by simp
    qed
    ultimately show ?thesis by auto
  next
    case 3
    then have bx: "before b nx x" using new by fastforce
    then have bx': "before b nx' x" and top': "f_top g' x = f_top g x"
      using g'(3) by (auto simp: before_def forest_le_def)
    have ux: "x \<notin> f_unlinked g'" "f_top g x \<notin> excl" using x(2)[OF bx] by simp_all
    note simps = XidInMVCCSnapshot_def Precedes_window[OF x(1) s(2)] FollowsOrEquals_window[OF x(1) s(3)] s(1)
    show ?thesis
    proof (cases "suboverflowed snap")
      case False
      let ?r = "x \<in> set (subxip snap) \<or> x \<in> set (xip snap)"
      have "XidInMVCCSnapshot w ctl x snap = Some (Inr ?r)" using 3 False by (simp add: simps)
      moreover have "live b g nx x \<Longrightarrow> ?r" using top s(9)[OF False x(1)] 3 ux(2) by fastforce
      moreover have "?r \<Longrightarrow> f_top g x \<notin> f_ended g"
        using s(7)[of x] s(9)[OF False x(1)] 3 g bx by (auto simp: live_def forest_ok_def node_ok_def)
      ultimately show ?thesis using bx by auto
    next
      case True
      obtain r where r: "SubTransGetTopmostTransaction w ctl x = Some (Inr r)" "before b nx' r"
        "f_top g' r = f_top g' x" "r = f_top g' x \<or> xid_pos b r < xid_pos b w"
        using topmost_walk[OF g'(1,2) w(1) bx' ux(1), of x] by (auto simp: SubTransGetTopmostTransaction_def)
      have rw: "in_window b r" using r(2) by (simp add: before_def)
      have le: "xid_pos b (f_top g x) \<le> xid_pos b r"
        using g'(1) r(2,3) top' by (metis forest_ok_def node_ok_def)
      let ?r = "\<not> xid_pos b r < xid_pos b ?min \<and> r \<in> set (xip snap)"
      have "XidInMVCCSnapshot w ctl x snap = Some (Inr ?r)"
        using 3 True r(1) by (simp add: simps Precedes_window[OF rw s(2)])
      moreover have ?r if "live b g nx x"
      proof -
        have "f_top g x \<in> set (xip snap)" "xid_pos b ?min \<le> xid_pos b (f_top g x)" using top[OF that 3(2)] by simp_all
        moreover from this have "r = f_top g x" using r(4) w(2) le top' by auto
        ultimately show ?thesis by simp
      qed
      moreover have "f_top g x \<notin> f_ended g" if ?r
      proof -
        have l: "live b g nx r" "f_top g r = r" using that s(7) by auto
        then have "f_top g' r = r" using g'(3) by (auto simp: forest_le_def live_def)
        then show ?thesis using l r(3) top' by (simp add: live_def)
      qed
      ultimately show ?thesis using bx by auto
    qed
  qed
qed


section \<open>Taking a snapshot\<close>

definition excluded :: "nat \<Rightarrow> shmem \<Rightarrow> TransactionId set" where
  "excluded me s = {proc_xid (allProcs s p) | p. p \<in> set (pgprocnos s)
     \<and> (p = me \<or> statusFlags (allProcs s p) AND (PROC_IN_LOGICAL_DECODING OR PROC_IN_VACUUM) \<noteq> 0)}"

lemma inv_proc_xid:
  assumes "xact_inv b g s" "p \<in> set (pgprocnos s)" "TransactionIdIsValid (proc_xid (allProcs s p))"
  shows "proc_xid (allProcs s p) \<in> tree b g (next_xid s) (proc_xid (allProcs s p))"
    "set (cached (allProcs s p)) \<subseteq> tree b g (next_xid s) (proc_xid (allProcs s p)) - {proc_xid (allProcs s p)}"
    "\<not> cs_overflowed (subxidStatus (allProcs s p)) \<Longrightarrow>
       tree b g (next_xid s) (proc_xid (allProcs s p)) - {proc_xid (allProcs s p)} \<subseteq> set (cached (allProcs s p))"
    "q \<in> set (pgprocnos s) \<Longrightarrow> proc_xid (allProcs s q) = proc_xid (allProcs s p) \<Longrightarrow> q = p"
proof -
  have v: "view_ok (tree b g (next_xid s)) (proc_view s)" using assms(1) by (simp add: xact_inv_def)
  note V = proc_view_Some[OF assms(2)]
  have "entry_ok (tree b g (next_xid s)) (proc_xid (allProcs s p)) (set (cached (allProcs s p)))
      (cs_overflowed (subxidStatus (allProcs s p)))" by (rule view_entry[OF v V])
  then show "proc_xid (allProcs s p) \<in> tree b g (next_xid s) (proc_xid (allProcs s p))"
    "set (cached (allProcs s p)) \<subseteq> tree b g (next_xid s) (proc_xid (allProcs s p)) - {proc_xid (allProcs s p)}"
    "\<not> cs_overflowed (subxidStatus (allProcs s p)) \<Longrightarrow>
       tree b g (next_xid s) (proc_xid (allProcs s p)) - {proc_xid (allProcs s p)} \<subseteq> set (cached (allProcs s p))"
    using assms(3) by (simp_all add: entry_ok_def)
  show "q \<in> set (pgprocnos s) \<Longrightarrow> proc_xid (allProcs s q) = proc_xid (allProcs s p) \<Longrightarrow> q = p"
    using entry_inj[OF v _ V] proc_view_Some[of q s] assms(3) by simp
qed

lemma inv_top_running:
  assumes "xact_inv b g s" "live b g (next_xid s) t" "f_top g t = t"
  obtains p where "p \<in> set (pgprocnos s)" "proc_xid (allProcs s p) = t" "TransactionIdIsValid t"
proof -
  have v: "view_ok (tree b g (next_xid s)) (proc_view s)" using assms(1) by (simp add: xact_inv_def)
  have "t \<in> tree b g (next_xid s) t" using assms(2,3) by (simp add: tree_def)
  then obtain p subs ovf where p: "proc_view s p = Some (t, subs, ovf)" "TransactionIdIsValid t" by (rule view_covers[OF v])
  then have "p \<in> set (pgprocnos s)" by (auto simp: proc_view_def split: if_splits)
  then show ?thesis using that[of p] p proc_view_Some[of p s] by simp
qed

lemma in_scan_iff:
  assumes "xact_inv b g s" "p \<in> set (pgprocnos s)" "in_window b xmax"
  shows "in_scan s me xmax p \<longleftrightarrow> TransactionIdIsValid (proc_xid (allProcs s p))
     \<and> xid_pos b (proc_xid (allProcs s p)) < xid_pos b xmax \<and> proc_xid (allProcs s p) \<notin> excluded me s"
proof (cases "TransactionIdIsValid (proc_xid (allProcs s p))")
  case True
  note x = inv_proc_xid[OF assms(1,2) True]
  have w: "in_window b (proc_xid (allProcs s p))" using tree_window[OF x(1)] by simp
  have "proc_xid (allProcs s p) \<in> excluded me s \<longleftrightarrow>
      p = me \<or> statusFlags (allProcs s p) AND (PROC_IN_LOGICAL_DECODING OR PROC_IN_VACUUM) \<noteq> 0"
    using x(4) assms(2) by (auto simp: excluded_def)
  then show ?thesis
    using True NormalPrecedes_window[OF w assms(3)] by (auto simp: in_scan_def TransactionIdIsValid_def)
qed (simp add: in_scan_def TransactionIdIsValid_def)

text \<open>The loop of \<^verbatim>\<open>GetSnapshotData\<close>, started with an empty snapshot.\<close>

definition scan_all :: "shmem \<Rightarrow> nat \<Rightarrow> TransactionId \<Rightarrow> TransactionId \<Rightarrow> snapshot_scan_state" where
  "scan_all s me xmin xmax = fold (scan_proc s me xmax) (pgprocnos s)
     \<lparr>sc_xmin = xmin, sc_xip = [], sc_subxip = [], sc_suboverflowed = False\<rparr>"

lemma scan_all_tops:
  assumes inv: "xact_inv b g s" and w: "in_window b xmax"
  shows "t \<in> set (sc_xip (scan_all s me xmin xmax)) \<longleftrightarrow> live b g (next_xid s) t \<and> f_top g t = t
     \<and> t \<notin> excluded me s \<and> xid_pos b t < xid_pos b xmax"
proof -
  have xip: "t \<in> set (sc_xip (scan_all s me xmin xmax))
      \<longleftrightarrow> (\<exists>p \<in> set (pgprocnos s). in_scan s me xmax p \<and> t = proc_xid (allProcs s p))"
    unfolding scan_all_def scan_proc_sets(1) by auto
  show ?thesis
  proof
    assume "t \<in> set (sc_xip (scan_all s me xmin xmax))"
    then show "live b g (next_xid s) t \<and> f_top g t = t \<and> t \<notin> excluded me s \<and> xid_pos b t < xid_pos b xmax"
      using xip in_scan_iff[OF inv _ w] inv_proc_xid(1)[OF inv] by (auto simp: tree_def)
  next
    assume t: "live b g (next_xid s) t \<and> f_top g t = t \<and> t \<notin> excluded me s \<and> xid_pos b t < xid_pos b xmax"
    then obtain p where "p \<in> set (pgprocnos s)" "proc_xid (allProcs s p) = t" "TransactionIdIsValid t"
      using inv_top_running[OF inv, of t] by auto
    then show "t \<in> set (sc_xip (scan_all s me xmin xmax))" using t xip in_scan_iff[OF inv _ w] by auto
  qed
qed

lemma scan_all_subs:
  assumes inv: "xact_inv b g s" and w: "in_window b xmax"
    and ovf: "\<not> sc_suboverflowed (scan_all s me xmin xmax)" and x: "xid_pos b x < xid_pos b xmax"
  shows "x \<in> set (sc_subxip (scan_all s me xmin xmax))
     \<longleftrightarrow> live b g (next_xid s) x \<and> f_top g x \<noteq> x \<and> f_top g x \<notin> excluded me s"
proof -
  have sub: "x \<in> set (sc_subxip (scan_all s me xmin xmax))
      \<longleftrightarrow> (\<exists>p \<in> set (pgprocnos s). in_scan s me xmax p \<and> x \<in> set (cached (allProcs s p)))"
    using scan_proc_sets(3)[OF ovf[unfolded scan_all_def]] by (auto simp: scan_all_def)
  have no: "\<not> cs_overflowed (subxidStatus (allProcs s p))" if "p \<in> set (pgprocnos s)" "in_scan s me xmax p" for p
    using ovf that unfolding scan_all_def scan_proc_sets(2) by auto
  show ?thesis
  proof
    assume "x \<in> set (sc_subxip (scan_all s me xmin xmax))"
    then obtain p where p: "p \<in> set (pgprocnos s)" "in_scan s me xmax p" "x \<in> set (cached (allProcs s p))" using sub by blast
    then show "live b g (next_xid s) x \<and> f_top g x \<noteq> x \<and> f_top g x \<notin> excluded me s"
      using inv_proc_xid(2)[OF inv p(1)] in_scan_iff[OF inv p(1) w] by (auto simp: tree_def)
  next
    assume l: "live b g (next_xid s) x \<and> f_top g x \<noteq> x \<and> f_top g x \<notin> excluded me s"
    then have "node_ok b g (next_xid s) (latest_xid s) x" using inv by (auto simp: xact_inv_def forest_ok_def live_def)
    then have t: "live b g (next_xid s) (f_top g x)" "f_top g (f_top g x) = f_top g x" "xid_pos b (f_top g x) \<le> xid_pos b x"
      using l by (auto simp: live_def node_ok_def)
    then obtain p where p: "p \<in> set (pgprocnos s)" "proc_xid (allProcs s p) = f_top g x" "TransactionIdIsValid (f_top g x)"
      using inv_top_running[OF inv, of "f_top g x"] by auto
    then have "in_scan s me xmax p" using in_scan_iff[OF inv p(1) w] l t(3) x by simp
    then show "x \<in> set (sc_subxip (scan_all s me xmin xmax))"
      using inv_proc_xid(3)[OF inv p(1)] no[OF p(1)] p l sub by (auto simp: tree_def)
  qed
qed

lemma scan_all_min:
  assumes inv: "xact_inv b g s" and w: "in_window b xmax" "in_window b xmin"
  shows "in_window b (sc_xmin (scan_all s me xmin xmax))"
    "xid_pos b (sc_xmin (scan_all s me xmin xmax)) \<le> xid_pos b xmin"
    "t \<in> set (sc_xip (scan_all s me xmin xmax)) \<Longrightarrow> xid_pos b (sc_xmin (scan_all s me xmin xmax)) \<le> xid_pos b t"
    "sc_xmin (scan_all s me xmin xmax) = xmin
       \<or> sc_xmin (scan_all s me xmin xmax) \<in> set (sc_xip (scan_all s me xmin xmax))"
proof -
  let ?sc0 = "\<lparr>sc_xmin = xmin, sc_xip = [], sc_subxip = [], sc_suboverflowed = False\<rparr>"
  have pw: "in_window b (proc_xid (allProcs s p))" if "p \<in> set (pgprocnos s)" "in_scan s me xmax p" for p
    using inv_proc_xid(1)[OF inv that(1)] in_scan_iff[OF inv that(1) w(1)] that(2) tree_window by blast
  have "in_window b (sc_xmin ?sc0)" using w(2) by simp
  note m = scan_proc_xmin[where s = s and me = me and xmax = xmax and ps = "pgprocnos s", OF this pw, folded scan_all_def]
  have xip: "set (sc_xip (scan_all s me xmin xmax))
      = {proc_xid (allProcs s p) | p. p \<in> set (pgprocnos s) \<and> in_scan s me xmax p}"
    unfolding scan_all_def scan_proc_sets(1) by simp
  show "in_window b (sc_xmin (scan_all s me xmin xmax))"
    "xid_pos b (sc_xmin (scan_all s me xmin xmax)) \<le> xid_pos b xmin"
    "t \<in> set (sc_xip (scan_all s me xmin xmax)) \<Longrightarrow> xid_pos b (sc_xmin (scan_all s me xmin xmax)) \<le> xid_pos b t"
    "sc_xmin (scan_all s me xmin xmax) = xmin
       \<or> sc_xmin (scan_all s me xmin xmax) \<in> set (sc_xip (scan_all s me xmin xmax))"
    using m xip by auto
qed

text \<open>The fields of a snapshot that is not reused.\<close>

definition snap_start :: "nat \<Rightarrow> shmem \<Rightarrow> TransactionId" where
  "snap_start me s = (let myxid = proc_xid (allProcs s me); xmax = TransactionIdAdvance (latest_xid s)
     in if TransactionIdIsNormal myxid \<and> NormalTransactionIdPrecedes myxid xmax then myxid else xmax)"

lemma GetSnapshotData_fields:
  assumes "procarray_ok s" "MyProc bk \<in> set (pgprocnos s)"
    and r: "GetSnapshotDataReuse cid snap0 bk s = None" "GetSnapshotData False cid snap0 bk s = (snap, bk', s')"
  defines "sc \<equiv> scan_all s (MyProc bk) (snap_start (MyProc bk) s) (TransactionIdAdvance (latest_xid s))"
  shows "snap_xmin snap = sc_xmin sc" "snap_xmax snap = TransactionIdAdvance (latest_xid s)" "xip snap = sc_xip sc"
    "subxip snap = sc_subxip sc" "suboverflowed snap = sc_suboverflowed sc" "\<not> takenDuringRecovery snap"
    "snapXactCompletionCount snap = xactCompletionCount (TransamVariables s)" "RecentXmin bk' = sc_xmin sc"
    "TransactionXmin bk' = (if TransactionIdIsValid (proc_xmin (my_proc bk s)) then TransactionXmin bk else sc_xmin sc)"
  using r dense_nth(1)[OF assms(1,2)]
  by (auto simp: GetSnapshotData_def snapshot_contents_def Let_def sc_def scan_all_def snap_start_def
      scan_by_proc[OF assms(1,2)] snapshot_vis_update_def split: if_splits)

lemma xmax_window:
  assumes "xact_inv b g s"
  shows "in_window b (TransactionIdAdvance (latest_xid s))"
    "xid_pos b (TransactionIdAdvance (latest_xid s)) \<le> xid_pos b (next_xid s)"
    "xid_pos b (latest_xid s) < xid_pos b (TransactionIdAdvance (latest_xid s))"
proof -
  have i: "in_window b (next_xid s)" "in_window b (latest_xid s)" "xid_pos b (latest_xid s) < xid_pos b (next_xid s)"
    using assms by (simp_all add: xact_inv_def)
  show "in_window b (TransactionIdAdvance (latest_xid s))"
    "xid_pos b (TransactionIdAdvance (latest_xid s)) \<le> xid_pos b (next_xid s)"
    using Advance_window[OF i(1,3)] Advance_pos(2)[OF i(1,3)] by simp_all
  show "xid_pos b (latest_xid s) < xid_pos b (TransactionIdAdvance (latest_xid s))"
    using i(2) by (intro Advance_pos_gt) (simp add: in_window_def)
qed

lemma snap_start_window:
  assumes inv: "xact_inv b g s" and me: "me \<in> set (pgprocnos s)"
  shows "in_window b (snap_start me s)" "xid_pos b (snap_start me s) \<le> xid_pos b (TransactionIdAdvance (latest_xid s))"
proof -
  have my: "in_window b (proc_xid (allProcs s me))" if "TransactionIdIsNormal (proc_xid (allProcs s me))"
    using inv_proc_xid(1)[OF inv me valid_of_normal[OF that]] tree_window by blast
  show "in_window b (snap_start me s)" "xid_pos b (snap_start me s) \<le> xid_pos b (TransactionIdAdvance (latest_xid s))"
    using my xmax_window(1)[OF inv] NormalPrecedes_window[OF my xmax_window(1)[OF inv]]
    by (auto simp: snap_start_def Let_def)
qed

lemma snapshot_taken:
  assumes inv: "xact_inv b g s" and me: "MyProc bk \<in> set (pgprocnos s)"
    and r: "GetSnapshotDataReuse cid snap0 bk s = None" "GetSnapshotData False cid snap0 bk s = (snap, bk', s')"
  shows "snapshot_of b g (next_xid s) (excluded (MyProc bk) s) snap"
proof -
  have ok: "procarray_ok s" "forest_ok b g (next_xid s) (latest_xid s)" using inv by (simp_all add: xact_inv_def)
  note f = GetSnapshotData_fields[OF ok(1) me r]
  note w = xmax_window[OF inv] and w0 = snap_start_window[OF inv me]
  note m = scan_all_min[OF inv w(1) w0(1), where me = "MyProc bk"]
  have "xid_pos b x < xid_pos b (TransactionIdAdvance (latest_xid s))" if "before b (next_xid s) x" "x \<in> f_ended g" for x
    using ok(2) that w(3) by (auto simp: forest_ok_def node_ok_def)
  then show ?thesis
    using w(1,2) m(1-3) w0(2) f(6) scan_all_tops[OF inv w(1)] scan_all_subs[OF inv w(1)]
    unfolding snapshot_of_def f(1-5) by (auto intro: order_trans)
qed

section \<open>Reusing a snapshot\<close>

lemma snapshot_stable:
  assumes snap: "snapshot_of b g nx excl snap" and le: "forest_le b nx g nx' g'" and g: "forest_ok b g nx la"
    and g': "forest_ok b g' nx' la'"
    and ended: "\<And>x. before b nx' x \<Longrightarrow> x \<in> f_ended g' \<longleftrightarrow> before b nx x \<and> x \<in> f_ended g"
  shows "snapshot_of b g' nx' excl snap"
proof -
  let ?max = "snap_xmax snap"
  have mono: "before b nx x \<Longrightarrow> before b nx' x" for x using le by (auto simp: before_def forest_le_def)
  have below: "before b nx' x \<longleftrightarrow> before b nx x" if "xid_pos b x < xid_pos b ?max" for x
    using that snap le by (auto simp: before_def snapshot_of_def forest_le_def)
  have live: "live b g' nx' x \<longleftrightarrow> live b g nx x" if "xid_pos b x < xid_pos b ?max" for x
    using below[OF that] ended[of x] by (auto simp: live_def)
  have top: "f_top g' x = f_top g x" if "live b g nx x" for x using that le by (auto simp: live_def forest_le_def)
  have "x \<in> set (xip snap) \<longleftrightarrow> live b g' nx' x \<and> f_top g' x = x \<and> x \<notin> excl \<and> xid_pos b x < xid_pos b ?max" for x
    using snap live[of x] top[of x] by (auto simp: snapshot_of_def)
  moreover have "x \<in> set (subxip snap) \<longleftrightarrow> live b g' nx' x \<and> f_top g' x \<noteq> x \<and> f_top g' x \<notin> excl"
    if "\<not> suboverflowed snap" "in_window b x" "xid_pos b x < xid_pos b ?max" for x
    using snap live[OF that(3)] top[of x] that by (auto simp: snapshot_of_def)
  moreover have "xid_pos b x < xid_pos b ?max" if "before b nx' x" "x \<in> f_ended g'" for x
    using snap ended[OF that(1)] that(2) by (auto simp: snapshot_of_def)
  moreover have "xid_pos b ?max \<le> xid_pos b nx'" using snap le by (auto simp: snapshot_of_def forest_le_def)
  ultimately show ?thesis using snap unfolding snapshot_of_def by auto
qed

section \<open>The test for a running transaction\<close>

text \<open>The processes other than \<open>me\<close> in which the loop finds the id, or whose main id it collects.\<close>

definition scan_finds :: "shmem \<Rightarrow> nat \<Rightarrow> TransactionId \<Rightarrow> nat \<Rightarrow> bool" where
  "scan_finds s me x p \<longleftrightarrow> p \<noteq> me \<and> TransactionIdIsValid (proc_xid (allProcs s p))
     \<and> (proc_xid (allProcs s p) = x
        \<or> \<not> TransactionIdPrecedes x (proc_xid (allProcs s p)) \<and> x \<in> set (cached (allProcs s p)))"

definition scan_collects :: "shmem \<Rightarrow> nat \<Rightarrow> TransactionId \<Rightarrow> nat \<Rightarrow> bool" where
  "scan_collects s me x p \<longleftrightarrow> p \<noteq> me \<and> TransactionIdIsValid (proc_xid (allProcs s p))
     \<and> \<not> TransactionIdPrecedes x (proc_xid (allProcs s p)) \<and> cs_overflowed (subxidStatus (allProcs s p))"

lemma inprogress_scan_procs:
  assumes "procarray_ok s" "me \<in> set (pgprocnos s)" "set ps \<subseteq> set (pgprocnos s)"
  shows "inprogress_scan s (pgxactoff (allProcs s me)) x (map (\<lambda>p. pgxactoff (allProcs s p)) ps) acc
     = (if \<exists>p \<in> set ps. scan_finds s me x p then None
        else Some (acc @ map (\<lambda>p. proc_xid (allProcs s p)) (filter (scan_collects s me x) ps)))"
  using assms(3)
proof (induction ps arbitrary: acc)
  case (Cons p ps)
  let ?p = "allProcs s p"
  have p: "p \<in> set (pgprocnos s)" using Cons.prems by simp
  have me: "pgxactoff ?p = pgxactoff (allProcs s me) \<longleftrightarrow> p = me"
    using pgprocnos_pgxactoff[OF assms(1) p] pgprocnos_pgxactoff[OF assms(1,2)] by metis
  have n: "cs_count (subxidStatus ?p) \<le> length (subxids ?p)"
    using procarray_proc_ok[OF assms(1) p] by (simp add: proc_ok_def)
  note d = dense_nth[OF assms(1) p] pgprocnos_pgxactoff(2)[OF assms(1) p] subxid_index_None[OF n, of x]
  have "inprogress_scan s (pgxactoff (allProcs s me)) x (pgxactoff ?p # offs) acc
     = (if scan_finds s me x p then None else inprogress_scan s (pgxactoff (allProcs s me)) x offs
          (if scan_collects s me x p then acc @ [proc_xid ?p] else acc))" for offs
  proof (cases "p = me \<or> \<not> TransactionIdIsValid (proc_xid ?p)")
    case True
    then show ?thesis by (auto simp: d me Let_def scan_finds_def scan_collects_def)
  next
    case False
    then show ?thesis
      using d(5)
      by (cases "TransactionIdPrecedes x (proc_xid ?p)"; cases "proc_xid ?p = x";
          cases "subxid_index (subxids ?p) x (cs_count (subxidStatus ?p))")
        (simp_all add: d(1-4) me Let_def scan_finds_def scan_collects_def)
  qed
  then show ?case using Cons by simp
qed simp

lemma inprogress_scan_all:
  assumes "procarray_ok s" "me \<in> set (pgprocnos s)"
  shows "inprogress_scan s (pgxactoff (allProcs s me)) x [0..<numProcs s] []
     = (if \<exists>p \<in> set (pgprocnos s). scan_finds s me x p then None
        else Some (map (\<lambda>p. proc_xid (allProcs s p)) (filter (scan_collects s me x) (pgprocnos s))))"
proof -
  have "[0..<numProcs s] = map (\<lambda>p. pgxactoff (allProcs s p)) (pgprocnos s)"
    using assms(1) by (simp add: procarray_ok_def)
  then show ?thesis using inprogress_scan_procs[OF assms order_refl, of x "[]"] by simp
qed


text \<open>What the caller's backend knows when it asks for the id \<open>x\<close>.\<close>

definition asks_for :: "TransactionId \<Rightarrow> forest \<Rightarrow> (TransactionId \<Rightarrow> bool) \<Rightarrow> backend \<Rightarrow> shmem \<Rightarrow> TransactionId \<Rightarrow> bool" where
  "asks_for b g is_current bk s x \<longleftrightarrow> MyProc bk \<in> set (pgprocnos s) \<and> in_window b x \<and> x \<notin> f_unlinked g
     \<and> in_window b (TransactionXmin bk) \<and> subtrans_wf (TransactionXmin bk) (SubTransCtl s)
     \<and> cache_ok (XactCtl s) (fetchCache bk)
     \<and> (is_current x \<longrightarrow> live b g (next_xid s) x)
     \<and> (live b g (next_xid s) x \<longrightarrow>
          \<not> TransactionIdPrecedes x (RecentXmin bk) \<and> cachedXidIsNotInProgress bk \<noteq> x
        \<and> (f_top g x = proc_xid (my_proc bk s) \<longrightarrow> is_current x)
        \<and> xid_pos b (TransactionXmin bk) \<le> xid_pos b (f_top g x)
        \<and> \<not> rolled_back (log_status (XactCtl s)) (SubTransGetParent (SubTransCtl s)) (TransactionXmin bk) x)"

lemma scan_of_live:
  assumes inv: "xact_inv b g s" and l: "live b g (next_xid s) x" and me: "f_top g x \<noteq> proc_xid (allProcs s me)"
  shows "(\<exists>p \<in> set (pgprocnos s). scan_finds s me x p)
     \<or> f_top g x \<noteq> x \<and> (\<exists>p \<in> set (pgprocnos s). scan_collects s me x p \<and> proc_xid (allProcs s p) = f_top g x)"
proof -
  have n: "node_ok b g (next_xid s) (latest_xid s) x" using inv l by (auto simp: xact_inv_def forest_ok_def live_def)
  then have t: "live b g (next_xid s) (f_top g x)" "f_top g (f_top g x) = f_top g x" "xid_pos b (f_top g x) \<le> xid_pos b x"
    using l by (auto simp: live_def node_ok_def)
  then obtain p where p: "p \<in> set (pgprocnos s)" "proc_xid (allProcs s p) = f_top g x" "TransactionIdIsValid (f_top g x)"
    using inv_top_running[OF inv t(1,2)] by blast
  have "p \<noteq> me" using p(2) me by auto
  moreover have "\<not> TransactionIdPrecedes x (f_top g x)"
    using Precedes_window[of b x "f_top g x"] t(1,3) l by (simp add: live_def before_def)
  moreover have "x \<in> set (cached (allProcs s p))" if "f_top g x \<noteq> x" "\<not> cs_overflowed (subxidStatus (allProcs s p))"
    using inv_proc_xid(3)[OF inv p(1)] p that l by (auto simp: tree_def)
  ultimately show ?thesis
    using p by (cases "f_top g x = x"; cases "cs_overflowed (subxidStatus (allProcs s p))")
      (auto simp: scan_finds_def scan_collects_def)
qed

lemma scan_finds_live:
  assumes inv: "xact_inv b g s" and p: "p \<in> set (pgprocnos s)" "scan_finds s me x p"
  shows "live b g (next_xid s) x"
  using inv_proc_xid(1,2)[OF inv p(1)] p(2) by (auto simp: scan_finds_def tree_def)

lemma inprogress_subtrans_result:
  assumes inv: "xact_inv b g s" and a: "asks_for b g is_current bk s x" and x: "before b (next_xid s) x"
    and xs: "\<And>t. t \<in> set xids \<Longrightarrow> live b g (next_xid s) t \<and> f_top g t = t"
    and found: "live b g (next_xid s) x \<Longrightarrow> f_top g x \<noteq> x \<and> f_top g x \<in> set xids"
  shows "\<exists>r bk'. inprogress_subtrans x xids bk s = Some (Inr (r, bk')) \<and> (live b g (next_xid s) x \<longrightarrow> r)
     \<and> (r \<longrightarrow> f_top g x \<notin> f_ended g)"
proof -
  let ?w = "TransactionXmin bk"
  have w: "in_window b ?w" "TransactionIdIsNormal ?w" "x \<notin> f_unlinked g" using a by (auto simp: asks_for_def in_window_def)
  obtain cache where ab: "TransactionIdDidAbort ?w (XactCtl s) (SubTransCtl s) x (fetchCache bk)
      = Some (rolled_back (log_status (XactCtl s)) (SubTransGetParent (SubTransCtl s)) ?w x, cache)"
    using DidAbort_rolled_back[OF w(2) _ before_valid[OF x], of "SubTransCtl s" "XactCtl s" "fetchCache bk"] a
    unfolding asks_for_def by blast
  have fl: "forest_ok b g (next_xid s) (latest_xid s)" "links_ok b g (next_xid s) (SubTransGetParent (SubTransCtl s))"
    using inv by (simp_all add: xact_inv_def)
  obtain r where r: "SubTransGetTopmostTransaction ?w (SubTransCtl s) x = Some (Inr r)" "before b (next_xid s) r"
    "f_top g r = f_top g x" "r = f_top g x \<or> xid_pos b r < xid_pos b ?w"
    using topmost_walk[OF fl w(1) x w(3), of x] unfolding SubTransGetTopmostTransaction_def by blast
  have "node_ok b g (next_xid s) (latest_xid s) r" using fl(1) r(2) unfolding forest_ok_def by blast
  then have le: "xid_pos b (f_top g x) \<le> xid_pos b r" unfolding node_ok_def r(3) by blast
  have "\<not> rolled_back (log_status (XactCtl s)) (SubTransGetParent (SubTransCtl s)) ?w x \<and> r = f_top g x"
    if "live b g (next_xid s) x" using a that r(4) le unfolding asks_for_def by linarith
  moreover have "f_top g x \<notin> f_ended g" if "r \<in> set xids" using xs[OF that] r(3) by (simp add: live_def)
  moreover define R where "R = rolled_back (log_status (XactCtl s)) (SubTransGetParent (SubTransCtl s)) ?w x"
  have "\<exists>bk'. inprogress_subtrans x xids bk s = Some (Inr (\<not> R \<and> r \<noteq> x \<and> r \<in> set xids, bk'))"
    unfolding inprogress_subtrans_def ab R_def[symmetric] by (simp add: Let_def r(1))
  ultimately show ?thesis
    using found unfolding R_def[symmetric] by auto
qed

lemma in_progress_result:
  assumes inv: "xact_inv b g s" and a: "asks_for b g is_current bk s x"
  shows "\<exists>r bk'. TransactionIdIsInProgress is_current False x bk s = Some (Inr (r, bk'))
     \<and> (live b g (next_xid s) x \<longrightarrow> r) \<and> (r \<longrightarrow> \<not> before b (next_xid s) x \<or> f_top g x \<notin> f_ended g)"
proof -
  have me: "MyProc bk \<in> set (pgprocnos s)" and xw: "in_window b x" using a by (auto simp: asks_for_def)
  have i: "procarray_ok s" "in_window b (latest_xid s)" "xid_pos b (latest_xid s) < xid_pos b (next_xid s)"
    "forest_ok b g (next_xid s) (latest_xid s)" using inv by (simp_all add: xact_inv_def)
  have liveok: "live b g (next_xid s) x \<Longrightarrow> f_top g x \<notin> f_ended g"
    using i(4) by (auto simp: live_def forest_ok_def node_ok_def)
  let ?xids = "map (\<lambda>p. proc_xid (allProcs s p)) (filter (scan_collects s (MyProc bk) x) (pgprocnos s))"
  consider (early) "TransactionIdPrecedes x (RecentXmin bk) \<or> cachedXidIsNotInProgress bk = x"
    | (mine) "\<not> (TransactionIdPrecedes x (RecentXmin bk) \<or> cachedXidIsNotInProgress bk = x)" "is_current x"
    | (new) "\<not> (TransactionIdPrecedes x (RecentXmin bk) \<or> cachedXidIsNotInProgress bk = x)" "\<not> is_current x"
        "TransactionIdPrecedes (latest_xid s) x"
    | (scan) "\<not> (TransactionIdPrecedes x (RecentXmin bk) \<or> cachedXidIsNotInProgress bk = x)" "\<not> is_current x"
        "\<not> TransactionIdPrecedes (latest_xid s) x" by blast
  then show ?thesis
  proof cases
    case early
    then show ?thesis using a by (auto simp: TransactionIdIsInProgress_def asks_for_def)
  next
    case mine
    then show ?thesis using a liveok by (auto simp: TransactionIdIsInProgress_def asks_for_def)
  next
    case new
    have "f_top g x \<notin> f_ended g" if "before b (next_xid s) x"
      using i(4) that new(3) Precedes_window[OF i(2) xw] by (auto simp: forest_ok_def node_ok_def)
    then show ?thesis using new by (auto simp: TransactionIdIsInProgress_def)
  next
    case scan
    have bx: "before b (next_xid s) x" using scan(3) Precedes_window[OF i(2) xw] xw i(3) by (simp add: before_def)
    have top: "f_top g x \<noteq> proc_xid (allProcs s (MyProc bk))" if "live b g (next_xid s) x"
      using a scan(2) that by (auto simp: asks_for_def)
    note sc = inprogress_scan_all[OF i(1) me, of x]
    show ?thesis
    proof (cases "\<exists>p \<in> set (pgprocnos s). scan_finds s (MyProc bk) x p")
      case True
      then show ?thesis
        using scan sc scan_finds_live[OF inv] liveok by (auto simp: TransactionIdIsInProgress_def)
    next
      case False
      have found: "f_top g x \<noteq> x \<and> f_top g x \<in> set ?xids" if "live b g (next_xid s) x"
        using scan_of_live[OF inv that top[OF that]] False by (auto simp: image_iff intro!: bexI)
      have tops: "live b g (next_xid s) t \<and> f_top g t = t" if "t \<in> set ?xids" for t
        using that inv_proc_xid(1)[OF inv] by (auto simp: scan_collects_def tree_def)
      have "TransactionIdIsInProgress is_current False x bk s
          = (if ?xids = [] then Some (Inr (False, bk\<lparr>cachedXidIsNotInProgress := x\<rparr>)) else inprogress_subtrans x ?xids bk s)"
        using scan sc False by (simp add: TransactionIdIsInProgress_def)
      then show ?thesis
        using inprogress_subtrans_result[OF inv a bx tops found] found by (cases "?xids = []") auto
    qed
  qed
qed

section \<open>The small system\<close>

definition sample_forest :: forest where
  "sample_forest = \<lparr>f_top = (\<lambda>x. if x = 11 \<or> x = 12 then 10 else x),
     f_parent = (\<lambda>x. if x = 11 then 10 else if x = 12 then 11 else 0),
     f_ended = {3, 4, 5, 6, 7, 8, 9}, f_unlinked = {}\<rparr>"

lemma before_sample: "before 3 13 x \<longleftrightarrow> x \<in> {3, 4, 5, 6, 7, 8, 9, 10, 11, 12}"
proof
  assume "before 3 13 x"
  then have "unat (x - 3) < 10" by (simp add: before_def xid_pos_def)
  then have "unat (x - 3) \<in> {0, 1, 2, 3, 4, 5, 6, 7, 8, 9}" by auto
  then have "of_nat (unat (x - 3)) \<in> {0, 1, 2, 3, 4, 5, 6, 7, 8, 9 :: TransactionId}"
    by (elim insertE) (simp_all only: of_nat_0 of_nat_1 of_nat_numeral, simp_all)
  then have "x - 3 \<in> {0, 1, 2, 3, 4, 5, 6, 7, 8, 9}" by simp
  then have "x - 3 + 3 \<in> (\<lambda>y. y + 3) ` {0, 1, 2, 3, 4, 5, 6, 7, 8, 9}" by (rule imageI)
  then show "x \<in> {3, 4, 5, 6, 7, 8, 9, 10, 11, 12}" by simp
next
  assume "x \<in> {3, 4, 5, 6, 7, 8, 9, 10, 11, 12}"
  then show "before 3 13 x"
    by (auto simp: before_def in_window_def xid_pos_def TransactionIdIsNormal_def FirstNormalTransactionId_def)
qed

lemma sample_shmem_xids [simp]: "next_xid sample_shmem = 13" "latest_xid sample_shmem = 9"
  by (simp_all add: sample_shmem_def XidFromFullTransactionId_def)

lemma sample_tree: "tree 3 sample_forest 13 t = (if t = 10 then {10, 11, 12} else {})"
  by (auto simp: tree_def live_def before_sample sample_forest_def)

lemma sample_view: "proc_view sample_shmem = [1 \<mapsto> (10, {11, 12}, False), 4 \<mapsto> (0, {}, False)]"
  by (rule ext) (simp add: proc_view_def running_of_def sample_shmem_simps)

lemma sample_links: "SubTransGetParent (SubTransCtl sample_shmem) x = f_parent sample_forest x"
  by (simp add: sample_shmem_def sample_forest_def GetParent_SetParent TransactionIdIsNormal_def
      FirstNormalTransactionId_def InvalidTransactionId_def)

lemma sample_inv: "xact_inv 3 sample_forest sample_shmem"
proof -
  have "in_window 3 13" "in_window 3 9" "xid_pos 3 9 < xid_pos 3 13"
    by (simp_all add: in_window_def xid_pos_def TransactionIdIsNormal_def FirstNormalTransactionId_def)
  moreover have "counter_ok (TransamVariables sample_shmem)"
    by (simp add: sample_shmem_def counter_ok_def XidFromFullTransactionId_def TransactionIdIsNormal_def
        FirstNormalTransactionId_def)
  moreover have "forest_ok 3 sample_forest 13 9"
    unfolding forest_ok_def before_sample
    by (auto simp: node_ok_def before_sample sample_forest_def xid_pos_def InvalidTransactionId_def)
  moreover have "view_ok (tree 3 sample_forest 13) (proc_view sample_shmem)"
    unfolding sample_view
    by (auto simp: view_ok_def entry_ok_def sample_tree TransactionIdIsValid_def InvalidTransactionId_def split: if_splits)
  moreover have "links_ok 3 sample_forest 13 (SubTransGetParent (SubTransCtl sample_shmem))"
    unfolding links_ok_def by (simp add: sample_links) (simp add: sample_forest_def)
  moreover have "fresh_from SUBTRANS_XACTS_PER_PAGE (\<lambda>x. SubTransGetParent (SubTransCtl sample_shmem) x = InvalidTransactionId) 13"
    unfolding fresh_from_def sample_links by (auto simp: sample_forest_def InvalidTransactionId_def)
  moreover have "\<forall>p \<in> set (pgprocnos sample_shmem). distinct (cached (allProcs sample_shmem p))"
    by (simp add: sample_shmem_simps)
  ultimately show ?thesis using sample_shmem_ok by (simp add: xact_inv_def)
qed


section \<open>Properties\<close>

text \<open>
  C12. The shared memory describes the running transactions in every reachable state.  Whatever the
  order in which backends assign ids to transactions and subtransactions, enter subtransactions in
  the subtransaction log, commit, abort, roll back subtransactions, arrive and leave, the process
  array, the id counter, the subtransaction log and the latest completed id keep describing the same
  transaction trees; an id that has been assigned keeps its tree and its parent, and one that has
  ended never runs again.
\<close>

theorem xact_system_invariant:
  assumes "xact_inv b g s" "(xact_step b)\<^sup>*\<^sup>* (g, s) (g', s')"
  shows "xact_inv b g' s' \<and> forest_le b (next_xid s) g (next_xid s') g' \<and> completions s \<le> completions s'"
  using run_inv[OF assms(2,1)] by blast

lemma sample_finish:
  "xact_step 3 (sample_forest, sample_shmem) (forest_end {10, 11, 12} sample_forest,
     ProcArrayEndTransactionInternal 1 (TransactionIdLatest 10 [11, 12]) sample_shmem)"
proof -
  have tr: "tree 3 sample_forest (next_xid sample_shmem) 10 = {10, 11, 12}" by (simp add: sample_tree)
  have "1 \<in> set (pgprocnos sample_shmem)" by (simp add: sample_shmem_procs)
  moreover have "count_ok (TransamVariables sample_shmem)" by (simp add: count_ok_def sample_shmem_def sample_tv_def)
  moreover have "TransactionIdIsValid 10" by (simp add: TransactionIdIsValid_def InvalidTransactionId_def)
  moreover have "10 = proc_xid (allProcs sample_shmem 1)" by (simp add: sample_shmem_simps)
  moreover have "set [11, 12] = tree 3 sample_forest (next_xid sample_shmem) 10 - {10}" unfolding tr by auto
  ultimately have "xact_step 3 (sample_forest, sample_shmem)
      (forest_end (tree 3 sample_forest (next_xid sample_shmem) 10) sample_forest,
       ProcArrayEndTransactionInternal 1 (TransactionIdLatest 10 [11, 12]) sample_shmem)"
    by (rule xact_step.finish)
  then show ?thesis unfolding tr .
qed

theorem xact_system_invariant_witness:
  "xact_inv 3 (forest_end {10, 11, 12} sample_forest)
     (ProcArrayEndTransactionInternal 1 (TransactionIdLatest 10 [11, 12]) sample_shmem)"
  using xact_system_invariant[OF sample_inv r_into_rtranclp[of "xact_step 3", OF sample_finish]] by blast

lemma GetSnapshotData_step:
  assumes ok: "procarray_ok s" and me: "MyProc bk \<in> set (pgprocnos s)"
    and r: "GetSnapshotData rec cid snap0 bk s = (snap, bk', s')"
  shows "xact_step b (g, s) (g, s')"
proof -
  have s': "s' = s \<or> (\<exists>m. s' = upd_proc (MyProc bk) (\<lambda>p. p\<lparr>proc_xmin := m\<rparr>) s)"
    using r by (auto simp: GetSnapshotData_def GetSnapshotDataReuse_def Let_def split: if_splits option.splits)
  have "procarray_ok (upd_proc (MyProc bk) (\<lambda>p. p\<lparr>proc_xmin := m\<rparr>) s)" for m
    using procarray_proc_ok[OF ok me]
    by (intro procarray_ok_upd(1)[OF ok me, of _ "(allProcs s (MyProc bk))\<lparr>proc_xmin := m\<rparr>"])
      (simp_all add: dense_same[OF ok me] proc_ok_def)
  then show ?thesis using s' ok by (auto intro!: xact_step.local)
qed

text \<open>
  C5. Snapshots.  A snapshot taken in one state and consulted in any later one sees through its own
  moment: an id that had not been assigned, or was still running, when the snapshot was taken is in
  it; an id is in it only if it had not been assigned or its main transaction had not ended at that
  moment.  (The ids of the asking backend and of vacuum and logical decoding are left out.)  The
  test always returns, also when the snapshot lost the subtransaction ids and it has to follow the
  subtransaction log.
\<close>

theorem snapshot_correct:
  assumes "xact_inv b g0 s0" "MyProc bk \<in> set (pgprocnos s0)" "snapXactCompletionCount snap0 = 0"
    and "GetSnapshotData False cid snap0 bk s0 = (snap, bk1, s1)" "(xact_step b)\<^sup>*\<^sup>* (g0, s1) (g2, s2)"
    and "in_window b x" "x \<notin> f_unlinked g2" "f_top g0 x \<notin> excluded (MyProc bk) s0"
    and "in_window b w" "xid_pos b w \<le> xid_pos b (snap_xmin snap)"
  shows "\<exists>r. XidInMVCCSnapshot w (SubTransCtl s2) x snap = Some (Inr r)
     \<and> (live b g0 (next_xid s0) x \<or> \<not> before b (next_xid s0) x \<longrightarrow> r)
     \<and> (r \<longrightarrow> \<not> before b (next_xid s0) x \<or> f_top g0 x \<notin> f_ended g0)"
proof -
  have i0: "procarray_ok s0" "forest_ok b g0 (next_xid s0) (latest_xid s0)" using assms(1) by (simp_all add: xact_inv_def)
  have none: "GetSnapshotDataReuse cid snap0 bk s0 = None" by (simp add: GetSnapshotDataReuse_def assms(3))
  have run: "(xact_step b)\<^sup>*\<^sup>* (g0, s0) (g2, s2)"
    using GetSnapshotData_step[OF i0(1) assms(2,4)] assms(5) by (rule converse_rtranclp_into_rtranclp)
  have i2: "forest_ok b g2 (next_xid s2) (latest_xid s2)"
    "links_ok b g2 (next_xid s2) (SubTransGetParent (SubTransCtl s2))"
    "forest_le b (next_xid s0) g0 (next_xid s2) g2"
    using run_inv[OF run assms(1)] by (simp_all add: xact_inv_def)
  show ?thesis
    by (rule in_snapshot_iff[OF snapshot_taken[OF assms(1,2) none assms(4)] i0(2) i2 assms(6) _ assms(9,10)])
      (use assms(7,8) in blast)
qed

definition sample_backend :: backend where
  "sample_backend = (let v = \<lparr>definitely_needed = \<lparr>fxid_value = 3\<rparr>, maybe_needed = \<lparr>fxid_value = 3\<rparr>\<rparr> in
     \<lparr>MyProc = 4, MyDatabaseId = 1, TransactionXmin = 3, RecentXmin = 3, cachedXidIsNotInProgress = 0,
      fetchCache = empty_cache, GlobalVisSharedRels = v, GlobalVisCatalogRels = v, GlobalVisDataRels = v,
      GlobalVisTempRels = v, ComputeXidHorizonsResultLastXmin = 0\<rparr>)"

definition blank_snapshot :: SnapshotData where
  "blank_snapshot = \<lparr>snapshot_type = SNAPSHOT_MVCC, snap_xmin = 0, snap_xmax = 0, xip = [], subxip = [], suboverflowed = False,
     takenDuringRecovery = False, copied = False, curcid = 0, speculativeToken = 0, active_count = 0, regd_count = 0, snap_lsn = 0,
     snapXactCompletionCount = 0\<rparr>"

lemma sample_backend_sel [simp]: "MyProc sample_backend = 4" "TransactionXmin sample_backend = 3"
  "RecentXmin sample_backend = 3" "cachedXidIsNotInProgress sample_backend = 0" "fetchCache sample_backend = empty_cache"
  by (simp_all add: sample_backend_def Let_def)

lemma blank_count [simp]: "snapXactCompletionCount blank_snapshot = 0"
  by (simp add: blank_snapshot_def)

lemma sample_me: "MyProc sample_backend \<in> set (pgprocnos sample_shmem)"
  by (simp add: sample_shmem_procs)

lemma sample_excluded: "f_top sample_forest 12 \<notin> excluded (MyProc sample_backend) sample_shmem"
  by (auto simp: excluded_def sample_shmem_simps sample_forest_def)

lemma window_3: "in_window 3 3" "in_window 3 12" "xid_pos 3 3 = 0"
  by (simp_all add: in_window_def xid_pos_def TransactionIdIsNormal_def FirstNormalTransactionId_def)

lemma sample_running: "live 3 sample_forest 13 12"
  unfolding live_def before_sample by (simp add: sample_forest_def)

theorem snapshot_correct_witness:
  "\<exists>snap bk1 s1. GetSnapshotData False 0 blank_snapshot sample_backend sample_shmem = (snap, bk1, s1)
     \<and> XidInMVCCSnapshot 3 (SubTransCtl s1) 12 snap = Some (Inr True)"
proof -
  obtain snap bk1 s1 where r: "GetSnapshotData False 0 blank_snapshot sample_backend sample_shmem = (snap, bk1, s1)"
    using prod_cases3 by blast
  have "12 \<notin> f_unlinked sample_forest" by (simp add: sample_forest_def)
  from snapshot_correct[OF sample_inv sample_me blank_count r rtranclp.rtrancl_refl window_3(2) this
      sample_excluded window_3(1)]
  show ?thesis using r sample_running by (auto simp: window_3)
qed

text \<open>
  C13. Reusing a snapshot.  When \<^verbatim>\<open>GetSnapshotDataReuse\<close> finds that no transaction has completed
  since a snapshot was built, it hands the old one out again, and that snapshot is right for the
  state in which it is handed out: it answers as \<open>snapshot_correct\<close> says, with the moment of the
  reuse in place of the moment at which it was built.
\<close>

theorem snapshot_reuse_correct:
  assumes "xact_inv b g0 s0" "MyProc bk \<in> set (pgprocnos s0)" "snapXactCompletionCount snap0 = 0"
    and "GetSnapshotData False cid snap0 bk s0 = (snap, bk1, s1)" "(xact_step b)\<^sup>*\<^sup>* (g0, s1) (g2, s2)"
    and "GetSnapshotDataReuse cid2 snap bk2 s2 = Some (snap2, bk3, s3)" "(xact_step b)\<^sup>*\<^sup>* (g2, s2) (g4, s4)"
    and "in_window b x" "x \<notin> f_unlinked g4" "f_top g2 x \<notin> excluded (MyProc bk) s0"
    and "in_window b w" "xid_pos b w \<le> xid_pos b (snap_xmin snap)"
  shows "\<exists>r. XidInMVCCSnapshot w (SubTransCtl s4) x snap2 = Some (Inr r)
     \<and> (live b g2 (next_xid s2) x \<or> \<not> before b (next_xid s2) x \<longrightarrow> r)
     \<and> (r \<longrightarrow> \<not> before b (next_xid s2) x \<or> f_top g2 x \<notin> f_ended g2)"
proof -
  have i0: "procarray_ok s0" "forest_ok b g0 (next_xid s0) (latest_xid s0)" using assms(1) by (simp_all add: xact_inv_def)
  have none: "GetSnapshotDataReuse cid snap0 bk s0 = None" by (simp add: GetSnapshotDataReuse_def assms(3))
  have run: "(xact_step b)\<^sup>*\<^sup>* (g0, s0) (g2, s2)"
    using GetSnapshotData_step[OF i0(1) assms(2,4)] assms(5) by (rule converse_rtranclp_into_rtranclp)
  note r2 = run_inv[OF run assms(1)]
  have i2: "xact_inv b g2 s2" "forest_ok b g2 (next_xid s2) (latest_xid s2)"
    "forest_le b (next_xid s0) g0 (next_xid s2) g2" using r2 by (simp_all add: xact_inv_def)
  have same: "completions s2 = completions s0"
    using assms(6) GetSnapshotData_fields(7)[OF i0(1) assms(2) none assms(4)]
    by (simp add: GetSnapshotDataReuse_def split: if_splits)
  have "snapshot_of b g2 (next_xid s2) (excluded (MyProc bk) s0) snap"
    using snapshot_stable[OF snapshot_taken[OF assms(1,2) none assms(4)] i2(3) i0(2) i2(2)] r2 same by blast
  then have snap: "snapshot_of b g2 (next_xid s2) (excluded (MyProc bk) s0) snap2"
    and m: "snap_xmin snap2 = snap_xmin snap"
    using assms(6) by (auto simp: GetSnapshotDataReuse_def snapshot_of_def Let_def split: if_splits)
  have i4: "forest_ok b g4 (next_xid s4) (latest_xid s4)"
    "links_ok b g4 (next_xid s4) (SubTransGetParent (SubTransCtl s4))"
    "forest_le b (next_xid s2) g2 (next_xid s4) g4"
    using run_inv[OF assms(7) i2(1)] by (simp_all add: xact_inv_def)
  show ?thesis
    by (rule in_snapshot_iff[OF snap i2(2) i4 assms(8) _ assms(11)]) (use assms(9,10,12) m in simp_all)
qed

lemma sample_reuse:
  assumes "GetSnapshotData False 0 blank_snapshot sample_backend sample_shmem = (snap, bk1, s1)"
  shows "GetSnapshotDataReuse 7 snap bk1 s1 \<noteq> None"
proof -
  have "procarray_ok sample_shmem" by (rule sample_shmem_ok)
  moreover have none: "GetSnapshotDataReuse 0 blank_snapshot sample_backend sample_shmem = None"
    by (simp add: GetSnapshotDataReuse_def)
  ultimately have "snapXactCompletionCount snap = xactCompletionCount (TransamVariables sample_shmem)"
    using GetSnapshotData_fields(7)[OF _ sample_me none assms] by blast
  moreover have "TransamVariables s1 = TransamVariables sample_shmem"
    using assms by (auto simp: GetSnapshotData_def none Let_def split: if_splits)
  moreover have "xactCompletionCount (TransamVariables sample_shmem) = 1" by (simp add: sample_shmem_def sample_tv_def)
  ultimately show ?thesis by (simp add: GetSnapshotDataReuse_def Let_def split: prod.split)
qed

theorem snapshot_reuse_correct_witness:
  "\<exists>snap bk1 s1 snap2 bk2 s2. GetSnapshotData False 0 blank_snapshot sample_backend sample_shmem = (snap, bk1, s1)
     \<and> GetSnapshotDataReuse 7 snap bk1 s1 = Some (snap2, bk2, s2)
     \<and> XidInMVCCSnapshot 3 (SubTransCtl s1) 12 snap2 = Some (Inr True)"
proof -
  obtain snap bk1 s1 where r: "GetSnapshotData False 0 blank_snapshot sample_backend sample_shmem = (snap, bk1, s1)"
    using prod_cases3 by blast
  obtain snap2 bk2 s2 where r2: "GetSnapshotDataReuse 7 snap bk1 s1 = Some (snap2, bk2, s2)"
    using sample_reuse[OF r] by auto
  have "12 \<notin> f_unlinked sample_forest" by (simp add: sample_forest_def)
  from snapshot_reuse_correct[OF sample_inv sample_me blank_count r rtranclp.rtrancl_refl r2 rtranclp.rtrancl_refl
      window_3(2) this sample_excluded window_3(1)]
  have "\<exists>r. XidInMVCCSnapshot 3 (SubTransCtl s1) 12 snap2 = Some (Inr r) \<and> (live 3 sample_forest (next_xid s1) 12 \<longrightarrow> r)"
    by (auto simp: window_3)
  moreover have "next_xid s1 = 13"
    using r sample_shmem_xids(1) by (auto simp: GetSnapshotData_def GetSnapshotDataReuse_def Let_def split: if_splits)
  ultimately show ?thesis using r r2 sample_running by auto
qed




end
