(* ===== verification/Horizons.thy ===== *)
theory Horizons
  imports XactSystem
begin

text \<open>
  The horizons up to which deleted rows may be removed: \<^verbatim>\<open>ComputeXidHorizons\<close> and the functions
  that report its results, the approximate horizons \<^verbatim>\<open>GlobalVisState\<close> that avoid most of its calls,
  the oldest running and safe ids, and the import of another transaction's horizon.  The lemmas show
  that each horizon is the minimum it is meant to be, and that no snapshot taken later, by any
  process that is not itself vacuuming or decoding, can see below the shared horizon.
\<close>

section \<open>Relations\<close>

type_synonym SubTransactionId = uint32

definition InvalidSubTransactionId :: SubTransactionId where
  "InvalidSubTransactionId = 0"

definition InvalidCommandId :: CommandId where
  "InvalidCommandId = NOT 0"

definition InvalidOid :: Oid where
  "InvalidOid = 0"

text \<open>What the choice of a horizon reads of a relation; \<open>rd_options\<close> is None when the relation has no options.\<close>

record relation =
  rd_id :: Oid
  relisshared :: bool
  relkind :: char
  relpersistence :: char
  rd_islocaltemp :: bool
  rd_createSubid :: SubTransactionId
  rd_firstRelfilelocatorSubid :: SubTransactionId
  rd_options :: "bool option"  \<comment> \<open>\<^verbatim>\<open>user_catalog_table\<close>\<close>

datatype WalLevel = WAL_LEVEL_MINIMAL | WAL_LEVEL_REPLICA | WAL_LEVEL_LOGICAL

definition XLogIsNeeded :: "WalLevel \<Rightarrow> bool" where
  "XLogIsNeeded wal_level \<longleftrightarrow> wal_level = WAL_LEVEL_REPLICA \<or> wal_level = WAL_LEVEL_LOGICAL"

definition XLogLogicalInfoActive :: "WalLevel \<Rightarrow> bool" where
  "XLogLogicalInfoActive wal_level \<longleftrightarrow> wal_level = WAL_LEVEL_LOGICAL"

definition IsCatalogRelationOid :: "Oid \<Rightarrow> bool" where
  "IsCatalogRelationOid relid \<longleftrightarrow> relid < FirstUnpinnedObjectId"

definition IsCatalogRelation :: "relation \<Rightarrow> bool" where
  "IsCatalogRelation rel = IsCatalogRelationOid (rd_id rel)"

definition RelationIsUsedAsCatalogTable :: "relation \<Rightarrow> bool" where
  "RelationIsUsedAsCatalogTable rel =
     (case rd_options rel of
        Some user_catalog_table \<Rightarrow>
          if relkind rel = CHR ''r'' \<or> relkind rel = CHR ''m'' then user_catalog_table else False
      | None \<Rightarrow> False)"

definition RelationIsPermanent :: "relation \<Rightarrow> bool" where
  "RelationIsPermanent rel \<longleftrightarrow> relpersistence rel = CHR ''p''"

definition RelationNeedsWAL :: "WalLevel \<Rightarrow> relation \<Rightarrow> bool" where
  "RelationNeedsWAL wal_level rel \<longleftrightarrow> RelationIsPermanent rel
     \<and> (XLogIsNeeded wal_level
        \<or> rd_createSubid rel = InvalidSubTransactionId \<and> rd_firstRelfilelocatorSubid rel = InvalidSubTransactionId)"

definition RelationIsAccessibleInLogicalDecoding :: "WalLevel \<Rightarrow> relation \<Rightarrow> bool" where
  "RelationIsAccessibleInLogicalDecoding wal_level rel \<longleftrightarrow> XLogLogicalInfoActive wal_level
     \<and> RelationNeedsWAL wal_level rel \<and> (IsCatalogRelation rel \<or> RelationIsUsedAsCatalogTable rel)"

definition RELATION_IS_LOCAL :: "relation \<Rightarrow> bool" where
  "RELATION_IS_LOCAL rel \<longleftrightarrow> rd_islocaltemp rel \<or> rd_createSubid rel \<noteq> InvalidSubTransactionId"

datatype GlobalVisHorizonKind = VISHORIZON_SHARED | VISHORIZON_CATALOG | VISHORIZON_DATA | VISHORIZON_TEMP

definition GlobalVisHorizonKindForRel :: "bool \<Rightarrow> WalLevel \<Rightarrow> relation option \<Rightarrow> GlobalVisHorizonKind" where
  "GlobalVisHorizonKindForRel RecoveryInProgress wal_level rel =
     (case rel of
        None \<Rightarrow> VISHORIZON_SHARED
      | Some rel \<Rightarrow>
          if relisshared rel \<or> RecoveryInProgress then VISHORIZON_SHARED
          else if IsCatalogRelation rel \<or> RelationIsAccessibleInLogicalDecoding wal_level rel then VISHORIZON_CATALOG
          else if \<not> RELATION_IS_LOCAL rel then VISHORIZON_DATA
          else VISHORIZON_TEMP)"

section \<open>Accurate horizons\<close>

record ComputeXidHorizonsResult =
  latest_completed :: FullTransactionId
  slot_xmin :: TransactionId
  slot_catalog_xmin :: TransactionId
  oldest_considered_running :: TransactionId
  shared_oldest_nonremovable :: TransactionId
  shared_oldest_nonremovable_raw :: TransactionId
  catalog_oldest_nonremovable :: TransactionId
  data_oldest_nonremovable :: TransactionId
  temp_oldest_nonremovable :: TransactionId

text \<open>
  Before the loop.  \<^verbatim>\<open>shared_oldest_nonremovable_raw\<close> is not initialised by the code; it is
  assigned after the loop, before it is read.
\<close>

definition horizons_start :: "backend \<Rightarrow> shmem \<Rightarrow> ComputeXidHorizonsResult" where
  "horizons_start b s =
     (let lc = latestCompletedXid (TransamVariables s);
          initial = TransactionIdAdvance (XidFromFullTransactionId lc)
      in \<lparr>latest_completed = lc, slot_xmin = replication_slot_xmin s,
          slot_catalog_xmin = replication_slot_catalog_xmin s, oldest_considered_running = initial,
          shared_oldest_nonremovable = initial, shared_oldest_nonremovable_raw = InvalidTransactionId,
          catalog_oldest_nonremovable = InvalidTransactionId, data_oldest_nonremovable = initial,
          temp_oldest_nonremovable =
            (if TransactionIdIsValid (proc_xid (my_proc b s)) then proc_xid (my_proc b s) else initial)\<rparr>)"

definition horizons_step ::
    "bool \<Rightarrow> Oid \<Rightarrow> shmem \<Rightarrow> nat \<Rightarrow> ComputeXidHorizonsResult \<Rightarrow> ComputeXidHorizonsResult" where
  "horizons_step in_recovery DatabaseId s index h =
     (let proc = allProcs s (pgprocnos s ! index);
          flags = pg_statusFlags s ! index;
          xid = pg_xids s ! index;
          xmin = TransactionIdOlder (proc_xmin proc) xid
      in if \<not> TransactionIdIsValid xmin then h
         else let h = h\<lparr>oldest_considered_running := TransactionIdOlder (oldest_considered_running h) xmin\<rparr>
              in if flags AND (PROC_IN_VACUUM OR PROC_IN_LOGICAL_DECODING) \<noteq> 0 then h
                 else let h = h\<lparr>shared_oldest_nonremovable := TransactionIdOlder (shared_oldest_nonremovable h) xmin\<rparr>
                      in if databaseId proc = DatabaseId \<or> DatabaseId = InvalidOid
                            \<or> flags AND PROC_AFFECTS_ALL_HORIZONS \<noteq> 0 \<or> in_recovery
                         then h\<lparr>data_oldest_nonremovable := TransactionIdOlder (data_oldest_nonremovable h) xmin\<rparr>
                         else h)"

text \<open>The oldest known-assigned id, in recovery.\<close>

definition horizons_recovery :: "bool \<Rightarrow> TransactionId \<Rightarrow> ComputeXidHorizonsResult \<Rightarrow> ComputeXidHorizonsResult" where
  "horizons_recovery in_recovery kaxmin h =
     (if in_recovery
      then h\<lparr>oldest_considered_running := TransactionIdOlder (oldest_considered_running h) kaxmin,
             shared_oldest_nonremovable := TransactionIdOlder (shared_oldest_nonremovable h) kaxmin,
             data_oldest_nonremovable := TransactionIdOlder (data_oldest_nonremovable h) kaxmin\<rparr>
      else h)"

text \<open>The replication slots.\<close>

definition horizons_slots :: "ComputeXidHorizonsResult \<Rightarrow> ComputeXidHorizonsResult" where
  "horizons_slots h =
     (let h = h\<lparr>shared_oldest_nonremovable := TransactionIdOlder (shared_oldest_nonremovable h) (slot_xmin h),
                data_oldest_nonremovable := TransactionIdOlder (data_oldest_nonremovable h) (slot_xmin h)\<rparr>;
          h = h\<lparr>shared_oldest_nonremovable_raw := shared_oldest_nonremovable h\<rparr>;
          h = h\<lparr>shared_oldest_nonremovable := TransactionIdOlder (shared_oldest_nonremovable h) (slot_catalog_xmin h),
                catalog_oldest_nonremovable := data_oldest_nonremovable h\<rparr>;
          h = h\<lparr>catalog_oldest_nonremovable := TransactionIdOlder (catalog_oldest_nonremovable h) (slot_catalog_xmin h)\<rparr>;
          h = h\<lparr>oldest_considered_running := TransactionIdOlder (oldest_considered_running h) (shared_oldest_nonremovable h)\<rparr>;
          h = h\<lparr>oldest_considered_running := TransactionIdOlder (oldest_considered_running h) (catalog_oldest_nonremovable h)\<rparr>
      in h\<lparr>oldest_considered_running := TransactionIdOlder (oldest_considered_running h) (data_oldest_nonremovable h)\<rparr>)"

text \<open>The assertions between the two parts and at the end.\<close>

definition horizons_assert_before_slots :: "ComputeXidHorizonsResult \<Rightarrow> bool" where
  "horizons_assert_before_slots h \<longleftrightarrow>
     TransactionIdPrecedesOrEquals (oldest_considered_running h) (shared_oldest_nonremovable h)
     \<and> TransactionIdPrecedesOrEquals (shared_oldest_nonremovable h) (data_oldest_nonremovable h)"

definition horizons_assert_end :: "ComputeXidHorizonsResult \<Rightarrow> bool" where
  "horizons_assert_end h \<longleftrightarrow>
     TransactionIdPrecedesOrEquals (shared_oldest_nonremovable h) (data_oldest_nonremovable h)
     \<and> TransactionIdPrecedesOrEquals (shared_oldest_nonremovable h) (catalog_oldest_nonremovable h)
     \<and> TransactionIdPrecedesOrEquals (oldest_considered_running h) (shared_oldest_nonremovable h)
     \<and> TransactionIdPrecedesOrEquals (oldest_considered_running h) (catalog_oldest_nonremovable h)
     \<and> TransactionIdPrecedesOrEquals (oldest_considered_running h) (data_oldest_nonremovable h)
     \<and> TransactionIdPrecedesOrEquals (oldest_considered_running h) (temp_oldest_nonremovable h)
     \<and> (\<not> TransactionIdIsValid (slot_xmin h)
        \<or> TransactionIdPrecedesOrEquals (oldest_considered_running h) (slot_xmin h))
     \<and> (\<not> TransactionIdIsValid (slot_catalog_xmin h)
        \<or> TransactionIdPrecedesOrEquals (oldest_considered_running h) (slot_catalog_xmin h))"

definition GlobalVisUpdateApply :: "ComputeXidHorizonsResult \<Rightarrow> backend \<Rightarrow> backend" where
  "GlobalVisUpdateApply h b =
     (let lc = latest_completed h;
          upd = (\<lambda>x v. let v = v\<lparr>maybe_needed := FullXidRelativeTo lc x\<rparr>
                        in v\<lparr>definitely_needed := FullTransactionIdNewer (maybe_needed v) (definitely_needed v)\<rparr>);
          temp = FullXidRelativeTo lc (temp_oldest_nonremovable h)
      in b\<lparr>GlobalVisSharedRels := upd (shared_oldest_nonremovable h) (GlobalVisSharedRels b),
           GlobalVisCatalogRels := upd (catalog_oldest_nonremovable h) (GlobalVisCatalogRels b),
           GlobalVisDataRels := upd (data_oldest_nonremovable h) (GlobalVisDataRels b),
           GlobalVisTempRels := \<lparr>definitely_needed = temp, maybe_needed = temp\<rparr>,
           ComputeXidHorizonsResultLastXmin := RecentXmin b\<rparr>)"

definition horizons_loop :: "bool \<Rightarrow> backend \<Rightarrow> shmem \<Rightarrow> ComputeXidHorizonsResult" where
  "horizons_loop in_recovery b s =
     horizons_recovery in_recovery (KnownAssignedXidsGetOldestXmin (kax s))
       (fold (horizons_step in_recovery (MyDatabaseId b) s) [0..<numProcs s] (horizons_start b s))"

definition ComputeXidHorizons :: "bool \<Rightarrow> backend \<Rightarrow> shmem \<Rightarrow> ComputeXidHorizonsResult \<times> backend" where
  "ComputeXidHorizons in_recovery b s =
     (let h = horizons_slots (horizons_loop in_recovery b s) in (h, GlobalVisUpdateApply h b))"

definition GetOldestNonRemovableTransactionId ::
    "bool \<Rightarrow> WalLevel \<Rightarrow> relation option \<Rightarrow> backend \<Rightarrow> shmem \<Rightarrow> TransactionId \<times> backend" where
  "GetOldestNonRemovableTransactionId in_recovery wal_level rel b s =
     (let (h, b) = ComputeXidHorizons in_recovery b s
      in (case GlobalVisHorizonKindForRel in_recovery wal_level rel of
            VISHORIZON_SHARED \<Rightarrow> shared_oldest_nonremovable h
          | VISHORIZON_CATALOG \<Rightarrow> catalog_oldest_nonremovable h
          | VISHORIZON_DATA \<Rightarrow> data_oldest_nonremovable h
          | VISHORIZON_TEMP \<Rightarrow> temp_oldest_nonremovable h, b))"

definition GetOldestTransactionIdConsideredRunning :: "bool \<Rightarrow> backend \<Rightarrow> shmem \<Rightarrow> TransactionId \<times> backend" where
  "GetOldestTransactionIdConsideredRunning in_recovery b s =
     (let (h, b) = ComputeXidHorizons in_recovery b s in (oldest_considered_running h, b))"

definition GetReplicationHorizons :: "bool \<Rightarrow> backend \<Rightarrow> shmem \<Rightarrow> TransactionId \<times> TransactionId \<times> backend" where
  "GetReplicationHorizons in_recovery b s =
     (let (h, b) = ComputeXidHorizons in_recovery b s in (shared_oldest_nonremovable_raw h, slot_catalog_xmin h, b))"

section \<open>Approximate horizons\<close>

definition vis_state :: "GlobalVisHorizonKind \<Rightarrow> backend \<Rightarrow> GlobalVisState" where
  "vis_state kind b =
     (case kind of VISHORIZON_SHARED \<Rightarrow> GlobalVisSharedRels b | VISHORIZON_CATALOG \<Rightarrow> GlobalVisCatalogRels b
      | VISHORIZON_DATA \<Rightarrow> GlobalVisDataRels b | VISHORIZON_TEMP \<Rightarrow> GlobalVisTempRels b)"

text \<open>\<^verbatim>\<open>GlobalVisTestFor\<close> returns a pointer to one of the four states: here the kind that names it.\<close>

definition GlobalVisTestFor :: "bool \<Rightarrow> WalLevel \<Rightarrow> relation option \<Rightarrow> GlobalVisHorizonKind" where
  "GlobalVisTestFor in_recovery wal_level rel = GlobalVisHorizonKindForRel in_recovery wal_level rel"

definition GlobalVisTestShouldUpdate :: "GlobalVisState \<Rightarrow> backend \<Rightarrow> bool" where
  "GlobalVisTestShouldUpdate state b =
     (if \<not> TransactionIdIsValid (ComputeXidHorizonsResultLastXmin b) then True
      else if FullTransactionIdFollowsOrEquals (maybe_needed state) (definitely_needed state) then False
      else RecentXmin b \<noteq> ComputeXidHorizonsResultLastXmin b)"

definition GlobalVisUpdate :: "bool \<Rightarrow> backend \<Rightarrow> shmem \<Rightarrow> backend" where
  "GlobalVisUpdate in_recovery b s = snd (ComputeXidHorizons in_recovery b s)"

definition GlobalVisTestIsRemovableFullXid ::
    "bool \<Rightarrow> GlobalVisHorizonKind \<Rightarrow> FullTransactionId \<Rightarrow> backend \<Rightarrow> shmem \<Rightarrow> bool \<times> backend" where
  "GlobalVisTestIsRemovableFullXid in_recovery state fxid b s =
     (if FullTransactionIdPrecedes fxid (maybe_needed (vis_state state b)) then (True, b)
      else if FullTransactionIdFollowsOrEquals fxid (definitely_needed (vis_state state b)) then (False, b)
      else if GlobalVisTestShouldUpdate (vis_state state b) b
      then let b = GlobalVisUpdate in_recovery b s
           in (FullTransactionIdPrecedes fxid (maybe_needed (vis_state state b)), b)
      else (False, b))"

definition GlobalVisTestIsRemovableXid ::
    "bool \<Rightarrow> GlobalVisHorizonKind \<Rightarrow> TransactionId \<Rightarrow> backend \<Rightarrow> shmem \<Rightarrow> bool \<times> backend" where
  "GlobalVisTestIsRemovableXid in_recovery state xid b s =
     GlobalVisTestIsRemovableFullXid in_recovery state
       (FullXidRelativeTo (definitely_needed (vis_state state b)) xid) b s"

definition GlobalVisCheckRemovableFullXid ::
    "bool \<Rightarrow> WalLevel \<Rightarrow> relation option \<Rightarrow> FullTransactionId \<Rightarrow> backend \<Rightarrow> shmem \<Rightarrow> bool \<times> backend" where
  "GlobalVisCheckRemovableFullXid in_recovery wal_level rel fxid b s =
     GlobalVisTestIsRemovableFullXid in_recovery (GlobalVisTestFor in_recovery wal_level rel) fxid b s"

definition GlobalVisCheckRemovableXid ::
    "bool \<Rightarrow> WalLevel \<Rightarrow> relation option \<Rightarrow> TransactionId \<Rightarrow> backend \<Rightarrow> shmem \<Rightarrow> bool \<times> backend" where
  "GlobalVisCheckRemovableXid in_recovery wal_level rel xid b s =
     GlobalVisTestIsRemovableXid in_recovery (GlobalVisTestFor in_recovery wal_level rel) xid b s"

section \<open>Oldest running ids\<close>

definition oldest_xid_step :: "shmem \<Rightarrow> nat \<Rightarrow> TransactionId \<Rightarrow> TransactionId" where
  "oldest_xid_step s index oldest =
     (let xid = pg_xids s ! index
      in if \<not> TransactionIdIsNormal xid then oldest
         else if TransactionIdPrecedes xid oldest then xid else oldest)"

text \<open>
  \<^verbatim>\<open>GetOldestActiveTransactionId\<close> reads the next id before it locks the array: \<open>s0\<close> is the state at
  that moment and \<open>s\<close> the one in which the array is read.
\<close>

definition GetOldestActiveTransactionId :: "shmem \<Rightarrow> shmem \<Rightarrow> TransactionId" where
  "GetOldestActiveTransactionId s0 s =
     fold (oldest_xid_step s) [0..<numProcs s] (XidFromFullTransactionId (nextXid (TransamVariables s0)))"

definition GetOldestSafeDecodingTransactionId :: "bool \<Rightarrow> bool \<Rightarrow> shmem \<Rightarrow> TransactionId" where
  "GetOldestSafeDecodingTransactionId recovery_in_progress catalogOnly s =
     (let oldestSafeXid = XidFromFullTransactionId (nextXid (TransamVariables s));
          oldestSafeXid = (if TransactionIdIsValid (replication_slot_xmin s)
                              \<and> TransactionIdPrecedes (replication_slot_xmin s) oldestSafeXid
                           then replication_slot_xmin s else oldestSafeXid);
          oldestSafeXid = (if catalogOnly \<and> TransactionIdIsValid (replication_slot_catalog_xmin s)
                              \<and> TransactionIdPrecedes (replication_slot_catalog_xmin s) oldestSafeXid
                           then replication_slot_catalog_xmin s else oldestSafeXid)
      in if \<not> recovery_in_progress then fold (oldest_xid_step s) [0..<numProcs s] oldestSafeXid
         else oldestSafeXid)"

section \<open>Importing a horizon\<close>

record VirtualTransactionId =
  vxid_procNumber :: int
  localTransactionId :: LocalTransactionId

fun install_imported_scan :: "TransactionId \<Rightarrow> VirtualTransactionId \<Rightarrow> Oid \<Rightarrow> shmem \<Rightarrow> nat list \<Rightarrow> bool" where
  "install_imported_scan xmin sourcevxid DatabaseId s [] = False"
| "install_imported_scan xmin sourcevxid DatabaseId s (index # rest) =
     (let proc = allProcs s (pgprocnos s ! index);
          xid = proc_xmin proc
      in if pg_statusFlags s ! index AND PROC_IN_VACUUM \<noteq> 0 then install_imported_scan xmin sourcevxid DatabaseId s rest
         else if procNumber proc \<noteq> vxid_procNumber sourcevxid then install_imported_scan xmin sourcevxid DatabaseId s rest
         else if lxid proc \<noteq> localTransactionId sourcevxid then install_imported_scan xmin sourcevxid DatabaseId s rest
         else if databaseId proc \<noteq> DatabaseId then install_imported_scan xmin sourcevxid DatabaseId s rest
         else if \<not> TransactionIdIsNormal xid \<or> \<not> TransactionIdPrecedesOrEquals xid xmin
         then install_imported_scan xmin sourcevxid DatabaseId s rest
         else True)"

definition set_my_xmin :: "TransactionId \<Rightarrow> backend \<Rightarrow> shmem \<Rightarrow> backend \<times> shmem" where
  "set_my_xmin xmin b s =
     (b\<lparr>TransactionXmin := xmin\<rparr>, upd_proc (MyProc b) (\<lambda>p. p\<lparr>proc_xmin := xmin\<rparr>) s)"

definition ProcArrayInstallImportedXmin ::
    "TransactionId \<Rightarrow> VirtualTransactionId option \<Rightarrow> backend \<Rightarrow> shmem \<Rightarrow> bool \<times> backend \<times> shmem" where
  "ProcArrayInstallImportedXmin xmin sourcevxid b s =
     (case sourcevxid of
        None \<Rightarrow> (False, b, s)
      | Some sourcevxid \<Rightarrow>
          if install_imported_scan xmin sourcevxid (MyDatabaseId b) s [0..<numProcs s]
          then (True, set_my_xmin xmin b s) else (False, b, s))"

definition ProcArrayInstallRestoredXmin :: "TransactionId \<Rightarrow> nat \<Rightarrow> backend \<Rightarrow> shmem \<Rightarrow> bool \<times> backend \<times> shmem" where
  "ProcArrayInstallRestoredXmin xmin proc b s =
     (let xid = proc_xmin (allProcs s proc)
      in if databaseId (allProcs s proc) = MyDatabaseId b \<and> TransactionIdIsNormal xid
            \<and> TransactionIdPrecedesOrEquals xid xmin
         then let (b, s) = set_my_xmin xmin b s;
                  flags = (statusFlags (my_proc b s) AND NOT PROC_XMIN_FLAGS)
                          OR (statusFlags (allProcs s proc) AND PROC_XMIN_FLAGS);
                  s = upd_proc (MyProc b) (\<lambda>p. p\<lparr>statusFlags := flags\<rparr>) s
              in (True, b, s\<lparr>pg_statusFlags := (pg_statusFlags s)[pgxactoff (my_proc b s) := flags]\<rparr>)
         else (False, b, s))"

section \<open>Minima of sets of ids\<close>

definition ids :: "TransactionId \<Rightarrow> TransactionId set" where
  "ids x = (if TransactionIdIsValid x then {x} else {})"

definition is_oldest :: "TransactionId \<Rightarrow> TransactionId \<Rightarrow> TransactionId set \<Rightarrow> bool" where
  "is_oldest b m S \<longleftrightarrow> m \<in> S \<and> (\<forall>x \<in> S. in_window b x \<and> xid_pos b m \<le> xid_pos b x)"

lemma window_valid: "in_window b x \<Longrightarrow> TransactionIdIsValid x"
  by (auto simp: in_window_def TransactionIdIsNormal_def TransactionIdIsValid_def FirstNormalTransactionId_def
      InvalidTransactionId_def)

lemma ids_window [simp]: "in_window b x \<Longrightarrow> ids x = {x}"
  using window_valid by (simp add: ids_def)

lemma Older_window:
  assumes "in_window b x" "in_window b y"
  shows "TransactionIdOlder x y = (if xid_pos b x < xid_pos b y then x else y)"
  using window_valid[OF assms(1)] window_valid[OF assms(2)] Precedes_window[OF assms] by (simp add: TransactionIdOlder_def)

lemma is_oldest_single: "in_window b x \<Longrightarrow> is_oldest b x {x}"
  by (simp add: is_oldest_def)

lemma is_oldest_Un:
  assumes "is_oldest b m S" "is_oldest b n T"
  shows "is_oldest b (TransactionIdOlder m n) (S \<union> T)"
proof -
  have w: "in_window b m" "in_window b n" using assms by (auto simp: is_oldest_def)
  show ?thesis using assms unfolding is_oldest_def Older_window[OF w] by (auto dest: bspec)
qed

lemma is_oldest_ids:
  assumes "is_oldest b m S" "\<forall>y \<in> ids x. in_window b y"
  shows "is_oldest b (TransactionIdOlder m x) (S \<union> ids x)"
proof (cases "TransactionIdIsValid x")
  case True
  then show ?thesis using assms is_oldest_Un[OF assms(1) is_oldest_single, of x] by (simp add: ids_def)
next
  case False
  have "TransactionIdIsValid m" using assms(1) window_valid by (auto simp: is_oldest_def)
  then show ?thesis using False assms(1) by (simp add: TransactionIdOlder_def ids_def)
qed

lemma is_oldest_le:
  assumes "is_oldest b m S" "is_oldest b n T" "T \<subseteq> S"
  shows "TransactionIdPrecedesOrEquals m n" "xid_pos b m \<le> xid_pos b n"
proof -
  show le: "xid_pos b m \<le> xid_pos b n" using assms by (auto simp: is_oldest_def)
  have w: "in_window b m" "in_window b n" using assms by (auto simp: is_oldest_def)
  show "TransactionIdPrecedesOrEquals m n" using le PrecedesOrEquals_window[OF w] by simp
qed

section \<open>The loop\<close>

definition proc_ids :: "shmem \<Rightarrow> nat \<Rightarrow> TransactionId set" where
  "proc_ids s p = ids (proc_xmin (allProcs s p)) \<union> ids (proc_xid (allProcs s p))"

definition ignored :: "shmem \<Rightarrow> nat \<Rightarrow> bool" where
  "ignored s p \<longleftrightarrow> statusFlags (allProcs s p) AND (PROC_IN_VACUUM OR PROC_IN_LOGICAL_DECODING) \<noteq> 0"

definition same_database :: "bool \<Rightarrow> Oid \<Rightarrow> shmem \<Rightarrow> nat \<Rightarrow> bool" where
  "same_database in_recovery db s p \<longleftrightarrow> databaseId (allProcs s p) = db \<or> db = InvalidOid
     \<or> statusFlags (allProcs s p) AND PROC_AFFECTS_ALL_HORIZONS \<noteq> 0 \<or> in_recovery"

definition ids_of :: "shmem \<Rightarrow> (nat \<Rightarrow> bool) \<Rightarrow> TransactionId set" where
  "ids_of s Q = (\<Union>p \<in> {p \<in> set (pgprocnos s). Q p}. proc_ids s p)"

definition horizons_proc :: "bool \<Rightarrow> Oid \<Rightarrow> shmem \<Rightarrow> nat \<Rightarrow> ComputeXidHorizonsResult \<Rightarrow> ComputeXidHorizonsResult" where
  "horizons_proc rec db s p h =
     (let m = TransactionIdOlder (proc_xmin (allProcs s p)) (proc_xid (allProcs s p))
      in if \<not> TransactionIdIsValid m then h
         else h\<lparr>oldest_considered_running := TransactionIdOlder (oldest_considered_running h) m,
                shared_oldest_nonremovable := (if ignored s p then shared_oldest_nonremovable h
                  else TransactionIdOlder (shared_oldest_nonremovable h) m),
                data_oldest_nonremovable := (if \<not> ignored s p \<and> same_database rec db s p
                  then TransactionIdOlder (data_oldest_nonremovable h) m else data_oldest_nonremovable h)\<rparr>)"

lemma horizons_by_proc:
  assumes "procarray_ok s"
  shows "fold (horizons_step rec db s) [0..<numProcs s] h = fold (horizons_proc rec db s) (pgprocnos s) h"
proof -
  have offs: "[0..<numProcs s] = map (\<lambda>p. pgxactoff (allProcs s p)) (pgprocnos s)"
    using assms by (simp add: procarray_ok_def)
  have "horizons_step rec db s (pgxactoff (allProcs s p)) = horizons_proc rec db s p"
    if p: "p \<in> set (pgprocnos s)" for p
    using dense_nth[OF assms p] pgprocnos_pgxactoff[OF assms p]
    by (auto simp: fun_eq_iff horizons_step_def horizons_proc_def ignored_def same_database_def Let_def)
  then show ?thesis unfolding offs fold_map by (intro fold_cong) simp_all
qed

lemma proc_ids_oldest:
  assumes "\<forall>x \<in> proc_ids s p. in_window b x"
  defines "m \<equiv> TransactionIdOlder (proc_xmin (allProcs s p)) (proc_xid (allProcs s p))"
  shows "if TransactionIdIsValid m then is_oldest b m (proc_ids s p) else proc_ids s p = {}"
  using assms(1) is_oldest_ids[OF is_oldest_single, of b "proc_xmin (allProcs s p)" "proc_xid (allProcs s p)"]
    is_oldest_single[of b "proc_xid (allProcs s p)"]
  unfolding m_def proc_ids_def by (auto simp: ids_def TransactionIdOlder_def split: if_splits)

lemma horizons_proc_loop:
  fixes rec :: bool and db :: Oid
  assumes "\<forall>p \<in> set ps. \<forall>x \<in> proc_ids s p. in_window b x"
    and "is_oldest b (oldest_considered_running h) C" "is_oldest b (shared_oldest_nonremovable h) S"
    and "is_oldest b (data_oldest_nonremovable h) D"
  defines "h' \<equiv> fold (horizons_proc rec db s) ps h"
  shows "is_oldest b (oldest_considered_running h') (C \<union> (\<Union>p \<in> set ps. proc_ids s p))
     \<and> is_oldest b (shared_oldest_nonremovable h') (S \<union> (\<Union>p \<in> {p \<in> set ps. \<not> ignored s p}. proc_ids s p))
     \<and> is_oldest b (data_oldest_nonremovable h')
          (D \<union> (\<Union>p \<in> {p \<in> set ps. \<not> ignored s p \<and> same_database rec db s p}. proc_ids s p))
     \<and> h'\<lparr>oldest_considered_running := 0, shared_oldest_nonremovable := 0, data_oldest_nonremovable := 0\<rparr>
       = h\<lparr>oldest_considered_running := 0, shared_oldest_nonremovable := 0, data_oldest_nonremovable := 0\<rparr>"
  using assms(1) unfolding h'_def
proof (induction ps rule: rev_induct)
  case Nil
  then show ?case using assms(2-4) by simp
next
  case (snoc p ps)
  define hp where "hp = fold (horizons_proc rec db s) ps h"
  let ?m = "TransactionIdOlder (proc_xmin (allProcs s p)) (proc_xid (allProcs s p))"
  have IH: "is_oldest b (oldest_considered_running hp) (C \<union> (\<Union>p \<in> set ps. proc_ids s p))"
    "is_oldest b (shared_oldest_nonremovable hp) (S \<union> (\<Union>p \<in> {p \<in> set ps. \<not> ignored s p}. proc_ids s p))"
    "is_oldest b (data_oldest_nonremovable hp)
       (D \<union> (\<Union>p \<in> {p \<in> set ps. \<not> ignored s p \<and> same_database rec db s p}. proc_ids s p))"
    "hp\<lparr>oldest_considered_running := 0, shared_oldest_nonremovable := 0, data_oldest_nonremovable := 0\<rparr>
       = h\<lparr>oldest_considered_running := 0, shared_oldest_nonremovable := 0, data_oldest_nonremovable := 0\<rparr>"
    using snoc by (simp_all add: hp_def)
  have sets: "{q \<in> set (ps @ [p]). Q q} = {q \<in> set ps. Q q} \<union> (if Q p then {p} else {})" for Q by auto
  have step: "fold (horizons_proc rec db s) (ps @ [p]) h = horizons_proc rec db s p hp" by (simp add: hp_def)
  show ?case
  proof (cases "TransactionIdIsValid ?m")
    case False
    then have "proc_ids s p = {}" using proc_ids_oldest[of s p b] snoc.prems by simp
    then show ?thesis unfolding sets step using IH False by (simp add: horizons_proc_def Let_def)
  next
    case True
    then have m: "is_oldest b ?m (proc_ids s p)" using proc_ids_oldest[of s p b] snoc.prems by simp
    show ?thesis
      unfolding sets step
      using IH True is_oldest_Un[OF IH(1) m] is_oldest_Un[OF IH(2) m] is_oldest_Un[OF IH(3) m]
      by (simp add: horizons_proc_def Let_def Un_ac)
  qed
qed


section \<open>The horizons are the minima they are meant to be\<close>

definition horizon_start :: "shmem \<Rightarrow> TransactionId" where
  "horizon_start s = TransactionIdAdvance (XidFromFullTransactionId (latestCompletedXid (TransamVariables s)))"

text \<open>Every id that the computation reads is in the window that starts at \<open>b\<close>.\<close>

definition horizons_window :: "TransactionId \<Rightarrow> bool \<Rightarrow> shmem \<Rightarrow> bool" where
  "horizons_window b rec s \<longleftrightarrow> in_window b (horizon_start s)
     \<and> (\<forall>p \<in> set (pgprocnos s). \<forall>x \<in> proc_ids s p. in_window b x)
     \<and> (\<forall>x \<in> ids (replication_slot_xmin s) \<union> ids (replication_slot_catalog_xmin s). in_window b x)
     \<and> (rec \<longrightarrow> (\<forall>x \<in> ids (KnownAssignedXidsGetOldestXmin (kax s)). in_window b x))"

definition standby_ids :: "bool \<Rightarrow> shmem \<Rightarrow> TransactionId set" where
  "standby_ids rec s = insert (horizon_start s) (if rec then ids (KnownAssignedXidsGetOldestXmin (kax s)) else {})"

lemma horizons_loop_oldest:
  fixes bk :: backend
  assumes "procarray_ok s" "horizons_window b rec s"
  defines "h \<equiv> horizons_loop rec bk s" and "S \<equiv> standby_ids rec s"
  shows "is_oldest b (oldest_considered_running h) (S \<union> ids_of s (\<lambda>_. True))"
    "is_oldest b (shared_oldest_nonremovable h) (S \<union> ids_of s (\<lambda>p. \<not> ignored s p))"
    "is_oldest b (data_oldest_nonremovable h) (S \<union> ids_of s (\<lambda>p. \<not> ignored s p \<and> same_database rec (MyDatabaseId bk) s p))"
    "slot_xmin h = replication_slot_xmin s" "slot_catalog_xmin h = replication_slot_catalog_xmin s"
    "temp_oldest_nonremovable h = (if TransactionIdIsValid (proc_xid (my_proc bk s)) then proc_xid (my_proc bk s)
       else horizon_start s)"
    "latest_completed h = latestCompletedXid (TransamVariables s)"
proof -
  define h1 where "h1 = fold (horizons_proc rec (MyDatabaseId bk) s) (pgprocnos s) (horizons_start bk s)"
  have h: "h = horizons_recovery rec (KnownAssignedXidsGetOldestXmin (kax s)) h1"
    by (simp add: h_def horizons_loop_def h1_def horizons_by_proc[OF assms(1)])
  have w: "is_oldest b (horizon_start s) {horizon_start s}" "\<forall>p \<in> set (pgprocnos s). \<forall>x \<in> proc_ids s p. in_window b x"
    using assms(2) by (simp_all add: horizons_window_def is_oldest_def)
  have start: "oldest_considered_running (horizons_start bk s) = horizon_start s"
    "shared_oldest_nonremovable (horizons_start bk s) = horizon_start s"
    "data_oldest_nonremovable (horizons_start bk s) = horizon_start s"
    by (simp_all add: horizons_start_def horizon_start_def Let_def)
  have loop: "is_oldest b (oldest_considered_running h1) ({horizon_start s} \<union> ids_of s (\<lambda>_. True))"
    "is_oldest b (shared_oldest_nonremovable h1) ({horizon_start s} \<union> ids_of s (\<lambda>p. \<not> ignored s p))"
    "is_oldest b (data_oldest_nonremovable h1)
       ({horizon_start s} \<union> ids_of s (\<lambda>p. \<not> ignored s p \<and> same_database rec (MyDatabaseId bk) s p))"
    "h1\<lparr>oldest_considered_running := 0, shared_oldest_nonremovable := 0, data_oldest_nonremovable := 0\<rparr>
       = (horizons_start bk s)\<lparr>oldest_considered_running := 0, shared_oldest_nonremovable := 0, data_oldest_nonremovable := 0\<rparr>"
    using horizons_proc_loop[of "pgprocnos s" s b "horizons_start bk s", unfolded start, OF w(2,1) w(1) w(1), of rec "MyDatabaseId bk"]
    by (simp_all add: h1_def ids_of_def)
  have ka: "is_oldest b (TransactionIdOlder m (KnownAssignedXidsGetOldestXmin (kax s)))
      (S \<union> X)" if "is_oldest b m ({horizon_start s} \<union> X)" rec for m X
    using is_oldest_ids[OF that(1), of "KnownAssignedXidsGetOldestXmin (kax s)"] that(2) assms(2)
    by (simp add: horizons_window_def S_def standby_ids_def Un_ac)
  show "is_oldest b (oldest_considered_running h) (S \<union> ids_of s (\<lambda>_. True))"
    "is_oldest b (shared_oldest_nonremovable h) (S \<union> ids_of s (\<lambda>p. \<not> ignored s p))"
    "is_oldest b (data_oldest_nonremovable h) (S \<union> ids_of s (\<lambda>p. \<not> ignored s p \<and> same_database rec (MyDatabaseId bk) s p))"
    using ka[OF loop(1)] ka[OF loop(2)] ka[OF loop(3)] loop(1-3)
    by (cases rec; simp add: h horizons_recovery_def S_def standby_ids_def)+
  have same: "g h1 = g (horizons_start bk s)" if "\<And>h x. g (h\<lparr>oldest_considered_running := x\<rparr>) = g h"
    "\<And>h x. g (h\<lparr>shared_oldest_nonremovable := x\<rparr>) = g h" "\<And>h x. g (h\<lparr>data_oldest_nonremovable := x\<rparr>) = g h" for g
    using arg_cong[OF loop(4), of g] that by simp
  show "slot_xmin h = replication_slot_xmin s" "slot_catalog_xmin h = replication_slot_catalog_xmin s"
    "temp_oldest_nonremovable h = (if TransactionIdIsValid (proc_xid (my_proc bk s)) then proc_xid (my_proc bk s)
       else horizon_start s)"
    "latest_completed h = latestCompletedXid (TransamVariables s)"
    using same[of slot_xmin] same[of slot_catalog_xmin] same[of temp_oldest_nonremovable] same[of latest_completed]
    by (simp_all add: h horizons_recovery_def horizons_start_def horizon_start_def Let_def)
qed


lemma horizons_slots_oldest:
  fixes bk :: backend
  assumes "procarray_ok s" "horizons_window b rec s"
  defines "h \<equiv> fst (ComputeXidHorizons rec bk s)"
    and "S \<equiv> standby_ids rec s \<union> ids (replication_slot_xmin s)" and "C \<equiv> ids (replication_slot_catalog_xmin s)"
  shows "is_oldest b (oldest_considered_running h) (S \<union> C \<union> ids_of s (\<lambda>_. True))"
    "is_oldest b (shared_oldest_nonremovable_raw h) (S \<union> ids_of s (\<lambda>p. \<not> ignored s p))"
    "is_oldest b (shared_oldest_nonremovable h) (S \<union> C \<union> ids_of s (\<lambda>p. \<not> ignored s p))"
    "is_oldest b (catalog_oldest_nonremovable h)
       (S \<union> C \<union> ids_of s (\<lambda>p. \<not> ignored s p \<and> same_database rec (MyDatabaseId bk) s p))"
    "is_oldest b (data_oldest_nonremovable h)
       (S \<union> ids_of s (\<lambda>p. \<not> ignored s p \<and> same_database rec (MyDatabaseId bk) s p))"
    "temp_oldest_nonremovable h = (if TransactionIdIsValid (proc_xid (my_proc bk s)) then proc_xid (my_proc bk s)
       else horizon_start s)"
    "slot_xmin h = replication_slot_xmin s" "slot_catalog_xmin h = replication_slot_catalog_xmin s"
    "latest_completed h = latestCompletedXid (TransamVariables s)"
proof -
  note l = horizons_loop_oldest[OF assms(1,2), of bk]
  have sl: "\<forall>y \<in> ids (replication_slot_xmin s). in_window b y" "\<forall>y \<in> ids (replication_slot_catalog_xmin s). in_window b y"
    using assms(2) by (auto simp: horizons_window_def)
  note s1 = is_oldest_ids[OF l(2) sl(1)] and d1 = is_oldest_ids[OF l(3) sl(1)]
  note s2 = is_oldest_ids[OF s1 sl(2)] and c2 = is_oldest_ids[OF d1 sl(2)]
  note r = is_oldest_Un[OF is_oldest_Un[OF is_oldest_Un[OF l(1) s2] c2] d1]
  have sub: "ids_of s Q \<subseteq> ids_of s (\<lambda>_. True)" for Q by (auto simp: ids_of_def)
  have e: "fst (ComputeXidHorizons rec bk s) = horizons_slots (horizons_loop rec bk s)"
    by (simp add: ComputeXidHorizons_def Let_def)
  show "is_oldest b (shared_oldest_nonremovable_raw h) (S \<union> ids_of s (\<lambda>p. \<not> ignored s p))"
    "is_oldest b (shared_oldest_nonremovable h) (S \<union> C \<union> ids_of s (\<lambda>p. \<not> ignored s p))"
    "is_oldest b (catalog_oldest_nonremovable h)
       (S \<union> C \<union> ids_of s (\<lambda>p. \<not> ignored s p \<and> same_database rec (MyDatabaseId bk) s p))"
    "is_oldest b (data_oldest_nonremovable h)
       (S \<union> ids_of s (\<lambda>p. \<not> ignored s p \<and> same_database rec (MyDatabaseId bk) s p))"
    using s1 s2 c2 d1 by (simp_all add: h_def e horizons_slots_def l(4,5) S_def C_def Let_def Un_ac)
  have "oldest_considered_running h
      = TransactionIdOlder (TransactionIdOlder (TransactionIdOlder (oldest_considered_running (horizons_loop rec bk s))
          (shared_oldest_nonremovable h)) (catalog_oldest_nonremovable h)) (data_oldest_nonremovable h)"
    by (simp add: h_def e horizons_slots_def Let_def)
  moreover have "standby_ids rec s \<union> ids_of s (\<lambda>_. True)
      \<union> (standby_ids rec s \<union> ids_of s (\<lambda>p. \<not> ignored s p) \<union> ids (replication_slot_xmin s) \<union> ids (replication_slot_catalog_xmin s))
      \<union> (standby_ids rec s \<union> ids_of s (\<lambda>p. \<not> ignored s p \<and> same_database rec (MyDatabaseId bk) s p)
          \<union> ids (replication_slot_xmin s) \<union> ids (replication_slot_catalog_xmin s))
      \<union> (standby_ids rec s \<union> ids_of s (\<lambda>p. \<not> ignored s p \<and> same_database rec (MyDatabaseId bk) s p)
          \<union> ids (replication_slot_xmin s)) = S \<union> C \<union> ids_of s (\<lambda>_. True)"
    using sub by (auto simp: S_def C_def)
  ultimately show "is_oldest b (oldest_considered_running h) (S \<union> C \<union> ids_of s (\<lambda>_. True))"
    using r by (simp add: h_def e horizons_slots_def l(4,5) Let_def)
  show "temp_oldest_nonremovable h = (if TransactionIdIsValid (proc_xid (my_proc bk s)) then proc_xid (my_proc bk s)
       else horizon_start s)"
    "slot_xmin h = replication_slot_xmin s" "slot_catalog_xmin h = replication_slot_catalog_xmin s"
    "latest_completed h = latestCompletedXid (TransamVariables s)"
    using l(4-7) by (simp_all add: h_def e horizons_slots_def Let_def)
qed

lemma horizons_asserts:
  assumes "procarray_ok s" "horizons_window b rec s" "MyProc bk \<in> set (pgprocnos s)"
  shows "horizons_assert_before_slots (horizons_loop rec bk s)"
    "horizons_assert_end (fst (ComputeXidHorizons rec bk s))"
proof -
  note l = horizons_loop_oldest[OF assms(1,2), of bk] and h = horizons_slots_oldest[OF assms(1,2), of bk]
  have sub: "ids_of s Q \<subseteq> ids_of s Q'" if "\<And>p. Q p \<Longrightarrow> Q' p" for Q Q' using that by (auto simp: ids_of_def)
  show "horizons_assert_before_slots (horizons_loop rec bk s)"
    unfolding horizons_assert_before_slots_def
    using is_oldest_le(1)[OF l(1,2)] is_oldest_le(1)[OF l(2,3)] by (auto simp: ids_of_def)
  have single: "is_oldest b x {x}" if "x \<in> ids_of s (\<lambda>_. True) \<or> x = horizon_start s" for x
    using assms(2) that by (auto simp: is_oldest_def horizons_window_def ids_of_def)
  have temp: "temp_oldest_nonremovable (fst (ComputeXidHorizons rec bk s)) \<in> insert (horizon_start s) (ids_of s (\<lambda>_. True))"
    using assms(3) by (auto simp: h(6) ids_of_def proc_ids_def ids_def)
  have slot: "is_oldest b x {x}" if "x \<in> ids (replication_slot_xmin s) \<union> ids (replication_slot_catalog_xmin s)" for x
    using assms(2) that by (auto simp: is_oldest_def horizons_window_def)
  show "horizons_assert_end (fst (ComputeXidHorizons rec bk s))"
    unfolding horizons_assert_end_def h(7,8)
    using is_oldest_le(1)[OF h(3,5)] is_oldest_le(1)[OF h(3,4)] is_oldest_le(1)[OF h(1,3)] is_oldest_le(1)[OF h(1,4)]
      is_oldest_le(1)[OF h(1,5)] is_oldest_le(1)[OF h(1) single, of "temp_oldest_nonremovable (fst (ComputeXidHorizons rec bk s))"]
      is_oldest_le(1)[OF h(1) slot, of "replication_slot_xmin s"] is_oldest_le(1)[OF h(1) slot, of "replication_slot_catalog_xmin s"]
      temp
    by (auto simp: ids_of_def ids_def standby_ids_def)
qed

section \<open>What a step does to the published ids\<close>

lemma step_view:
  assumes "xact_step b (g, s) (g', s')" "xact_inv b g s"
  shows "(\<forall>p x c ov. proc_view s' p = Some (x, c, ov) \<longrightarrow> TransactionIdIsValid x \<longrightarrow>
            x = next_xid s \<or> (\<exists>c ov. proc_view s p = Some (x, c, ov)))
     \<and> (latestCompletedXid (TransamVariables s') = latestCompletedXid (TransamVariables s)
        \<or> (\<exists>y. latestCompletedXid (TransamVariables s') = FullXidRelativeTo (latestCompletedXid (TransamVariables s)) y
              \<and> TransactionIdPrecedes (latest_xid s) y))"
proof -
  have i: "procarray_ok s" "counter_ok (TransamVariables s)"
    "\<forall>p \<in> set (pgprocnos s). distinct (cached (allProcs s p))"
    using assms(2) by (simp_all add: xact_inv_def)
  have maintain: "latestCompletedXid (MaintainLatestCompletedXid y tv) = latestCompletedXid tv
      \<or> latestCompletedXid (MaintainLatestCompletedXid y tv) = FullXidRelativeTo (latestCompletedXid tv) y
        \<and> TransactionIdPrecedes (XidFromFullTransactionId (latestCompletedXid tv)) y" for y tv
    by (simp add: MaintainLatestCompletedXid_def Let_def)
  from assms(1) show ?thesis
  proof cases
    case (start p full)
    have "False \<longrightarrow> TransactionIdIsValid (proc_xid (allProcs s p))" by simp
    note e = assign_effect[OF i(1) start(2) i(2) this start(4)]
    show ?thesis by (auto simp: e(2,4) assign_next_def running_of_def stored_proc_def split: if_splits)
  next
    case (start_sub p par full)
    have "True \<longrightarrow> TransactionIdIsValid (proc_xid (allProcs s p))" using start_sub by simp
    note e = assign_effect[OF i(1) start_sub(2) i(2) this start_sub(6)]
    show ?thesis using proc_view_Some[OF start_sub(2)]
      by (auto simp: e(2,4) assign_next_def running_of_def stored_proc_def split: if_splits)
  next
    case (finish p t children)
    show ?thesis
      using maintain[of "TransactionIdLatest t children" "TransamVariables s"]
      by (auto simp: finish(2) EndInternal_sel EndInternal_effect(2)[OF i(1) finish(3)] TransactionIdIsValid_def split: if_splits)
  next
    case (abort_sub p t xid children)
    have r: "XidCacheRemoveRunningXids p xid children (TransactionIdLatest xid children) s
        = (s', snd (XidCacheRemoveRunningXids p xid children (TransactionIdLatest xid children) s))"
      by (simp add: abort_sub(2))
    have "distinct (cached (allProcs s p))" using i(3) abort_sub(3) by blast
    note e = RemoveRunning_effect[OF i(1) abort_sub(3) this r]
    show ?thesis
      using maintain[of "TransactionIdLatest xid children" "TransamVariables s"] proc_view_Some[OF abort_sub(3)]
      by (auto simp: e(4,6) split: if_splits)
  next
    case (arrive p)
    then have "numProcs s < maxProcs s" by (auto simp: ProcArrayAdd_def split: if_splits)
    with arrive have "TransamVariables s' = TransamVariables s" "proc_view s' = (proc_view s)(p \<mapsto> running_of (allProcs s p))"
      using Add_effect[OF i(1) arrive(2,3)] by auto
    then show ?thesis using arrive(4) by (auto simp: running_of_def split: if_splits)
  next
    case (leave p)
    then show ?thesis
      using Remove_effect(2,4)[OF i(1) leave(3), of InvalidTransactionId] by (auto simp: TransactionIdIsValid_def split: if_splits)
  next
    case local
    then have "proc_view s' = proc_view s" by (auto simp: proc_view_def running_of_def fun_eq_iff)
    then show ?thesis using local by auto
  qed (auto simp: proc_view_def)
qed

lemma latest_mono:
  assumes "xact_step b (g, s) (g', s')" "xact_inv b g s"
  shows "xid_pos b (latest_xid s) \<le> xid_pos b (latest_xid s')"
    "latestCompletedXid (TransamVariables s') = FullXidRelativeTo (latestCompletedXid (TransamVariables s)) (latest_xid s')"
proof -
  have w: "in_window b (latest_xid s)" "in_window b (latest_xid s')"
    using assms(2) inv_step[OF assms] by (simp_all add: xact_inv_def)
  have "FullXidRelativeTo f (XidFromFullTransactionId f) = f" for f by (rule RelativeTo_full) simp
  then show "xid_pos b (latest_xid s) \<le> xid_pos b (latest_xid s')"
    "latestCompletedXid (TransamVariables s') = FullXidRelativeTo (latestCompletedXid (TransamVariables s)) (latest_xid s')"
    using step_view[OF assms] Precedes_window[OF w] by auto
qed

section \<open>A horizon stays safe\<close>

text \<open>
  No process outside vacuum and logical decoding runs a transaction older than \<open>h\<close>, holds a snapshot
  older than \<open>h\<close>, or will start one.
\<close>

definition safe_horizon :: "TransactionId \<Rightarrow> TransactionId \<Rightarrow> shmem \<Rightarrow> bool" where
  "safe_horizon b h s \<longleftrightarrow> in_window b h \<and> xid_pos b h \<le> xid_pos b (horizon_start s)
     \<and> (\<forall>p \<in> set (pgprocnos s). \<not> ignored s p \<longrightarrow> (\<forall>x \<in> proc_ids s p. xid_pos b h \<le> xid_pos b x))"

text \<open>
  A step that changes neither flags nor snapshots: a process that runs a transaction does not leave
  the vacuum and decoding states, and no process outside them comes to hold a new horizon.
\<close>

definition keeps_horizons :: "shmem \<Rightarrow> shmem \<Rightarrow> bool" where
  "keeps_horizons s s' \<longleftrightarrow> (\<forall>p \<in> set (pgprocnos s').
     (p \<in> set (pgprocnos s) \<longrightarrow> ignored s p \<longrightarrow> TransactionIdIsValid (proc_xid (allProcs s' p)) \<longrightarrow>
        proc_xid (allProcs s' p) = proc_xid (allProcs s p) \<longrightarrow> ignored s' p)
     \<and> (\<not> ignored s' p \<longrightarrow> TransactionIdIsValid (proc_xmin (allProcs s' p)) \<longrightarrow>
          p \<in> set (pgprocnos s) \<and> \<not> ignored s p \<and> proc_xmin (allProcs s' p) = proc_xmin (allProcs s p)))"

inductive vis_step :: "TransactionId \<Rightarrow> forest \<times> shmem \<Rightarrow> forest \<times> shmem \<Rightarrow> bool" for b :: TransactionId where
  xact: "xact_step b (g, s) (g', s') \<Longrightarrow> keeps_horizons s s' \<Longrightarrow> vis_step b (g, s) (g', s')"
| snapshot: "MyProc bk \<in> set (pgprocnos s) \<Longrightarrow> snapXactCompletionCount snap0 = 0 \<Longrightarrow>
    GetSnapshotData False cid snap0 bk s = (snap, bk', s') \<Longrightarrow> vis_step b (g, s) (g, s')"
| imported: "MyProc bk \<in> set (pgprocnos s) \<Longrightarrow> in_window b xmin \<Longrightarrow>
    ProcArrayInstallImportedXmin xmin (Some src) bk s = (True, bk', s') \<Longrightarrow>
    (\<forall>p \<in> set (pgprocnos s). procNumber (allProcs s p) = vxid_procNumber src \<longrightarrow> \<not> ignored s p) \<Longrightarrow>
    (\<forall>p \<in> set (pgprocnos s). \<forall>x \<in> proc_ids s p. in_window b x) \<Longrightarrow> vis_step b (g, s) (g, s')"

text \<open>The three kinds of step, seen from the process array.\<close>

lemma set_xmin_step:
  assumes ok: "procarray_ok s" and me: "me \<in> set (pgprocnos s)"
  shows "xact_step b (g, s) (g, upd_proc me (\<lambda>p. p\<lparr>proc_xmin := m\<rparr>) s)"
proof -
  have "procarray_ok (upd_proc me (\<lambda>p. p\<lparr>proc_xmin := m\<rparr>) s)"
    using procarray_proc_ok[OF ok me]
    by (intro procarray_ok_upd(1)[OF ok me, of _ "(allProcs s me)\<lparr>proc_xmin := m\<rparr>"])
      (simp_all add: dense_same[OF ok me] proc_ok_def)
  then show ?thesis by (auto intro!: xact_step.local)
qed

lemma vis_step_xact:
  assumes "vis_step b (g, s) (g', s')" "xact_inv b g s"
  shows "xact_step b (g, s) (g', s')"
proof -
  have ok: "procarray_ok s" using assms(2) by (simp add: xact_inv_def)
  from assms(1) show ?thesis
  proof cases
    case (snapshot bk snap0 cid snap bk')
    then show ?thesis using GetSnapshotData_step[OF ok] by blast
  next
    case (imported bk xmin src bk')
    then have "s' = upd_proc (MyProc bk) (\<lambda>p. p\<lparr>proc_xmin := xmin\<rparr>) s"
      by (auto simp: ProcArrayInstallImportedXmin_def set_my_xmin_def split: if_splits)
    then show ?thesis using set_xmin_step[OF ok imported(2)] imported(1) by simp
  qed
qed

lemma safe_horizon_xact:
  assumes st: "xact_step b (g, s) (g', s')" and fl: "keeps_horizons s s'" and inv: "xact_inv b g s"
    and h: "safe_horizon b h s"
  shows "safe_horizon b h s'"
proof -
  note inv' = inv_step[OF st inv]
  have start: "xid_pos b (horizon_start s) \<le> xid_pos b (horizon_start s')"
    unfolding horizon_start_def
    using latest_mono(1)[OF st inv] Advance_pos(2)[OF xmax_window(1)[OF inv'], of "latest_xid s"]
      xmax_window(3)[OF inv'] by linarith
  have "xid_pos b h \<le> xid_pos b (proc_xid (allProcs s' p))"
    if p: "p \<in> set (pgprocnos s')" "\<not> ignored s' p" "TransactionIdIsValid (proc_xid (allProcs s' p))" for p
  proof -
    consider "proc_xid (allProcs s' p) = next_xid s" | c ov where "proc_view s p = Some (proc_xid (allProcs s' p), c, ov)"
      using step_view[OF st inv] proc_view_Some[OF p(1)] p(3) by blast
    then show ?thesis
    proof cases
      case 1
      then show ?thesis using h xmax_window(2)[OF inv] by (simp add: safe_horizon_def horizon_start_def)
    next
      case 2
      then have q: "p \<in> set (pgprocnos s)" "proc_xid (allProcs s' p) = proc_xid (allProcs s p)"
        by (auto simp: proc_view_def running_of_def split: if_splits)
      then have "\<not> ignored s p" using fl p by (auto simp: keeps_horizons_def)
      then show ?thesis using h q p(3) by (simp add: safe_horizon_def proc_ids_def ids_def)
    qed
  qed
  moreover have "xid_pos b h \<le> xid_pos b (proc_xmin (allProcs s' p))"
    if p: "p \<in> set (pgprocnos s')" "\<not> ignored s' p" "TransactionIdIsValid (proc_xmin (allProcs s' p))" for p
    using fl p h by (auto simp: keeps_horizons_def safe_horizon_def proc_ids_def ids_def)
  ultimately show ?thesis using h start by (auto simp: safe_horizon_def proc_ids_def ids_def)
qed

text \<open>A new snapshot of a process that is not ignored does not reach below a safe horizon.\<close>

lemma snapshot_above_horizon:
  assumes inv: "xact_inv b g s" and me: "MyProc bk \<in> set (pgprocnos s)" "\<not> ignored s (MyProc bk)"
    and r: "snapXactCompletionCount snap0 = 0" "GetSnapshotData False cid snap0 bk s = (snap, bk', s')"
    and h: "safe_horizon b h s"
  shows "in_window b (snap_xmin snap)" "xid_pos b h \<le> xid_pos b (snap_xmin snap)"
proof -
  have ok: "procarray_ok s" using inv by (simp add: xact_inv_def)
  have none: "GetSnapshotDataReuse cid snap0 bk s = None" by (simp add: GetSnapshotDataReuse_def r(1))
  note f = GetSnapshotData_fields[OF ok me(1) none r(2)] and w = xmax_window(1)[OF inv] and w0 = snap_start_window[OF inv me(1)]
  note m = scan_all_min[OF inv w w0(1), where me = "MyProc bk"]
  show "in_window b (snap_xmin snap)" using m(1) f(1) by simp
  have start: "xid_pos b h \<le> xid_pos b (snap_start (MyProc bk) s)"
    using h me valid_of_normal by (auto simp: safe_horizon_def snap_start_def horizon_start_def proc_ids_def ids_def Let_def)
  have "xid_pos b h \<le> xid_pos b t" if t: "live b g (next_xid s) t" "f_top g t = t" "t \<notin> excluded (MyProc bk) s" for t
  proof -
    obtain p where p: "p \<in> set (pgprocnos s)" "proc_xid (allProcs s p) = t" "TransactionIdIsValid t"
      using inv_top_running[OF inv t(1,2)] by blast
    then have "\<not> ignored s p" using t(3) by (auto simp: excluded_def ignored_def or.commute)
    then show ?thesis using h p by (auto simp: safe_horizon_def proc_ids_def ids_def)
  qed
  then show "xid_pos b h \<le> xid_pos b (snap_xmin snap)"
    unfolding f(1) using m(4) start scan_all_tops[OF inv w] by metis
qed

lemma safe_horizon_new_xmin:
  assumes h: "safe_horizon b h s" and "\<not> ignored s me \<Longrightarrow> xid_pos b h \<le> xid_pos b m"
  shows "safe_horizon b h (upd_proc me (\<lambda>p. p\<lparr>proc_xmin := m\<rparr>) s)"
  using assms by (auto simp: safe_horizon_def proc_ids_def ids_def ignored_def horizon_start_def)

lemma imported_source:
  assumes "install_imported_scan xmin src db s xs" "\<forall>i \<in> set xs. i < numProcs s"
  shows "\<exists>p \<in> set (pgprocnos s). procNumber (allProcs s p) = vxid_procNumber src
     \<and> TransactionIdIsNormal (proc_xmin (allProcs s p)) \<and> TransactionIdPrecedesOrEquals (proc_xmin (allProcs s p)) xmin"
  using assms by (induction xs) (auto simp: Let_def split: if_splits intro!: bexI[of _ "pgprocnos s ! _"])

lemma safe_horizon_step:
  assumes st: "vis_step b (g, s) (g', s')" and inv: "xact_inv b g s" and h: "safe_horizon b h s"
  shows "safe_horizon b h s'"
  using st
proof cases
  case xact
  then show ?thesis using safe_horizon_xact[OF _ _ inv h] by blast
next
  case (snapshot bk snap0 cid snap bk')
  have none: "GetSnapshotDataReuse cid snap0 bk s = None" by (simp add: GetSnapshotDataReuse_def snapshot(3))
  have "s' = s \<or> s' = upd_proc (MyProc bk) (\<lambda>p. p\<lparr>proc_xmin := snap_xmin snap\<rparr>) s"
    using snapshot(4) none by (auto simp: GetSnapshotData_def Let_def split: if_splits)
  then show ?thesis
    using h safe_horizon_new_xmin[OF h] snapshot_above_horizon(2)[OF inv snapshot(2) _ snapshot(3,4) h] by auto
next
  case (imported bk xmin src bk')
  have s': "s' = upd_proc (MyProc bk) (\<lambda>p. p\<lparr>proc_xmin := xmin\<rparr>) s"
    and sc: "install_imported_scan xmin src (MyDatabaseId bk) s [0..<numProcs s]"
    using imported(4) by (auto simp: ProcArrayInstallImportedXmin_def set_my_xmin_def split: if_splits)
  from imported_source[OF sc] obtain p where p: "p \<in> set (pgprocnos s)" "procNumber (allProcs s p) = vxid_procNumber src"
    "TransactionIdIsNormal (proc_xmin (allProcs s p))" "TransactionIdPrecedesOrEquals (proc_xmin (allProcs s p)) xmin"
    by auto
  have x: "proc_xmin (allProcs s p) \<in> proc_ids s p" using valid_of_normal[OF p(3)] by (simp add: proc_ids_def ids_def)
  then have "in_window b (proc_xmin (allProcs s p))" using imported(6) p(1) by blast
  then have "xid_pos b (proc_xmin (allProcs s p)) \<le> xid_pos b xmin"
    using PrecedesOrEquals_window[OF _ imported(3)] p(4) by blast
  moreover have "xid_pos b h \<le> xid_pos b (proc_xmin (allProcs s p))"
    using h p(1,2) imported(5) x by (auto simp: safe_horizon_def)
  ultimately show ?thesis unfolding s' by (intro safe_horizon_new_xmin[OF h]) simp
qed

section \<open>Full ids over a window\<close>

text \<open>The full id at which the window starts, as long as the latest completed id is within it.\<close>

definition full_base :: "TransactionId \<Rightarrow> shmem \<Rightarrow> int" where
  "full_base b s = uint (fxid_value (latestCompletedXid (TransamVariables s))) - int (xid_pos b (latest_xid s))"

definition epoch_ok :: "TransactionId \<Rightarrow> shmem \<Rightarrow> bool" where
  "epoch_ok b s \<longleftrightarrow> 0 \<le> full_base b s \<and> full_base b s + 2147483648 \<le> 18446744073709551616"

lemma full_pos:
  assumes "epoch_ok b s" "in_window b (latest_xid s)" "in_window b x"
  shows "uint (fxid_value (FullXidRelativeTo (latestCompletedXid (TransamVariables s)) x)) = full_base b s + int (xid_pos b x)"
proof -
  have d: "sint (x - latest_xid s) = int (xid_pos b x) - int (xid_pos b (latest_xid s))"
    using sint_diff_pos assms(2,3) by (simp add: in_window_def)
  have sc: "scast (x - latest_xid s) = (word_of_int (int (xid_pos b x) - int (xid_pos b (latest_xid s))) :: uint64)"
    by (simp only: scast_eq d)
  have "uint (a + word_of_int k) = (uint a + k) mod 18446744073709551616" for a :: uint64 and k
    by (simp add: uint_word_ariths uint_word_of_int mod_simps)
  then have "uint (fxid_value (FullXidRelativeTo (latestCompletedXid (TransamVariables s)) x))
      = (full_base b s + int (xid_pos b x)) mod 18446744073709551616"
    by (simp only: FullXidRelativeTo_def FullTransactionIdFromU64_def Let_def sc FullTransactionId.select_convs)
      (simp add: full_base_def algebra_simps)
  then show ?thesis using assms(1,3) by (simp add: epoch_ok_def in_window_def)
qed

lemma full_base_step:
  assumes "xact_step b (g, s) (g', s')" "xact_inv b g s" "epoch_ok b s"
  shows "full_base b s' = full_base b s"
proof -
  have w: "in_window b (latest_xid s)" "in_window b (latest_xid s')"
    using assms(2) inv_step[OF assms(1,2)] by (simp_all add: xact_inv_def)
  show ?thesis
    using full_pos[OF assms(3) w] unfolding latest_mono(2)[OF assms(1,2), symmetric] by (simp add: full_base_def)
qed

definition horizon_ok :: "TransactionId \<Rightarrow> int \<Rightarrow> forest \<times> shmem \<Rightarrow> bool" where
  "horizon_ok b F gs \<longleftrightarrow> xact_inv b (fst gs) (snd gs) \<and> epoch_ok b (snd gs)
     \<and> (\<exists>h. safe_horizon b h (snd gs) \<and> F \<le> full_base b (snd gs) + int (xid_pos b h))"

lemma horizon_ok_run:
  assumes "(vis_step b)\<^sup>*\<^sup>* gs gs'" "horizon_ok b F gs"
  shows "horizon_ok b F gs'"
  using assms
proof (induction rule: rtranclp_induct)
  case (step gs1 gs2)
  obtain g s g' s' where e: "gs1 = (g, s)" "gs2 = (g', s')" by force
  from step have ok: "xact_inv b g s" "epoch_ok b s" and st: "vis_step b (g, s) (g', s')"
    and h: "\<exists>h. safe_horizon b h s \<and> F \<le> full_base b s + int (xid_pos b h)"
    by (simp_all add: horizon_ok_def e)
  note x = vis_step_xact[OF st ok(1)]
  show ?case
    using inv_step[OF x ok(1)] full_base_step[OF x ok] ok(2) h safe_horizon_step[OF st ok(1)]
    by (auto simp: horizon_ok_def e epoch_ok_def)
qed simp

section \<open>The approximate horizons\<close>

lemma computed_horizon_safe:
  assumes inv: "xact_inv b g s" and w: "horizons_window b False s"
  shows "safe_horizon b (shared_oldest_nonremovable (fst (ComputeXidHorizons False bk s))) s"
proof -
  have ok: "procarray_ok s" using inv by (simp add: xact_inv_def)
  from horizons_slots_oldest(3)[OF ok w, of bk] show ?thesis
    by (auto simp: is_oldest_def safe_horizon_def ids_of_def standby_ids_def)
qed

lemma update_shared:
  "maybe_needed (vis_state VISHORIZON_SHARED (GlobalVisUpdate rec bk s))
     = FullXidRelativeTo (latest_completed (fst (ComputeXidHorizons rec bk s)))
         (shared_oldest_nonremovable (fst (ComputeXidHorizons rec bk s)))"
  by (simp add: GlobalVisUpdate_def ComputeXidHorizons_def GlobalVisUpdateApply_def vis_state_def Let_def)

definition shared_maybe :: "backend \<Rightarrow> int" where
  "shared_maybe bk = uint (fxid_value (maybe_needed (GlobalVisSharedRels bk)))"

lemma removable_below_horizon:
  assumes ok: "horizon_ok b (shared_maybe bk) (g, s)" and w: "horizons_window b False s"
    and r: "GlobalVisTestIsRemovableFullXid False VISHORIZON_SHARED fxid bk s = (res, bk')"
  shows "horizon_ok b (shared_maybe bk') (g, s) \<and> (res \<longrightarrow> uint (fxid_value fxid) < shared_maybe bk')"
proof -
  have inv: "xact_inv b g s" "epoch_ok b s" "in_window b (latest_xid s)" "procarray_ok s"
    using ok by (simp_all add: horizon_ok_def xact_inv_def)
  let ?h = "shared_oldest_nonremovable (fst (ComputeXidHorizons False bk s))"
  note safe = computed_horizon_safe[OF inv(1) w, of bk]
  have "shared_maybe (GlobalVisUpdate False bk s) = full_base b s + int (xid_pos b ?h)"
    using update_shared[of False bk s] full_pos[OF inv(2,3), of ?h] safe
    by (simp add: shared_maybe_def vis_state_def horizons_slots_oldest(9)[OF inv(4) w] safe_horizon_def)
  then have upd: "horizon_ok b (shared_maybe (GlobalVisUpdate False bk s)) (g, s)"
    using inv safe by (auto simp: horizon_ok_def)
  show ?thesis
    using r ok upd
    by (auto simp: GlobalVisTestIsRemovableFullXid_def FullTransactionIdPrecedes_def shared_maybe_def vis_state_def Let_def
        word_less_def split: if_splits)
qed

text \<open>
  \<^verbatim>\<open>GetSnapshotData\<close> raises the approximate horizon to the oldest id that may appear in the
  cluster; when that id is itself a safe horizon the state stays sound.
\<close>

lemma snapshot_keeps_shared:
  assumes ok: "horizon_ok b (shared_maybe bk) (g, s)" and old: "safe_horizon b (oldestXid (TransamVariables s)) s"
    and r: "snapXactCompletionCount snap0 = 0" "GetSnapshotData False cid snap0 bk s = (snap, bk', s')"
  shows "horizon_ok b (shared_maybe bk') (g, s)"
proof -
  have i: "epoch_ok b s" "in_window b (latest_xid s)" using ok by (simp_all add: horizon_ok_def xact_inv_def)
  let ?o = "FullXidRelativeTo (latestCompletedXid (TransamVariables s)) (oldestXid (TransamVariables s))"
  have none: "GetSnapshotDataReuse cid snap0 bk s = None" by (simp add: GetSnapshotDataReuse_def r(1))
  have "maybe_needed (GlobalVisSharedRels bk') = FullTransactionIdNewer (maybe_needed (GlobalVisSharedRels bk)) ?o"
    using r(2) none by (auto simp: GetSnapshotData_def snapshot_vis_update_def Let_def split: if_splits)
  then consider "shared_maybe bk' = shared_maybe bk" | "shared_maybe bk' = uint (fxid_value ?o)"
    by (auto simp: FullTransactionIdNewer_def shared_maybe_def split: if_splits)
  then show ?thesis
  proof cases
    case 1
    then show ?thesis using ok by simp
  next
    case 2
    then have "shared_maybe bk' = full_base b s + int (xid_pos b (oldestXid (TransamVariables s)))"
      using full_pos[OF i] old by (simp add: safe_horizon_def)
    then show ?thesis using ok old by (auto simp: horizon_ok_def)
  qed
qed

section \<open>The oldest active id\<close>

lemma oldest_xid_fold:
  assumes ok: "procarray_ok s" and w: "in_window b m"
    "\<forall>p \<in> set (pgprocnos s). TransactionIdIsNormal (proc_xid (allProcs s p)) \<longrightarrow> in_window b (proc_xid (allProcs s p))"
  defines "r \<equiv> fold (oldest_xid_step s) [0..<numProcs s] m"
  shows "is_oldest b r (insert m {proc_xid (allProcs s p) | p. p \<in> set (pgprocnos s) \<and> TransactionIdIsNormal (proc_xid (allProcs s p))})"
proof -
  have offs: "[0..<numProcs s] = map (\<lambda>p. pgxactoff (allProcs s p)) (pgprocnos s)"
    using ok by (simp add: procarray_ok_def)
  define st where "st p m = (if TransactionIdIsNormal (proc_xid (allProcs s p)) \<and> TransactionIdPrecedes (proc_xid (allProcs s p)) m
      then proc_xid (allProcs s p) else m)" for p m
  have "oldest_xid_step s (pgxactoff (allProcs s p)) = st p" if "p \<in> set (pgprocnos s)" for p
    using dense_nth[OF ok that] by (auto simp: fun_eq_iff oldest_xid_step_def st_def Let_def)
  then have r: "r = fold st (pgprocnos s) m"
    unfolding r_def offs fold_map by (intro fold_cong) simp_all
  have "is_oldest b (fold st ps m) (insert m {proc_xid (allProcs s p) | p. p \<in> set ps \<and> TransactionIdIsNormal (proc_xid (allProcs s p))})"
    if "set ps \<subseteq> set (pgprocnos s)" for ps
    using that
  proof (induction ps rule: rev_induct)
    case Nil
    then show ?case using w(1) by (simp add: is_oldest_def)
  next
    case (snoc p ps)
    let ?S = "\<lambda>ps. insert m {proc_xid (allProcs s p) | p. p \<in> set ps \<and> TransactionIdIsNormal (proc_xid (allProcs s p))}"
    have IH: "is_oldest b (fold st ps m) (?S ps)" using snoc by simp
    show ?case
    proof (cases "TransactionIdIsNormal (proc_xid (allProcs s p))")
      case True
      then have pw: "in_window b (proc_xid (allProcs s p))" using w(2) snoc.prems by simp
      have "fold st (ps @ [p]) m = TransactionIdOlder (proc_xid (allProcs s p)) (fold st ps m)"
        using True window_valid[OF pw] IH window_valid[of b "fold st ps m"] by (auto simp: st_def TransactionIdOlder_def is_oldest_def)
      moreover have "?S (ps @ [p]) = {proc_xid (allProcs s p)} \<union> ?S ps" using True by auto
      ultimately show ?thesis using is_oldest_Un[OF is_oldest_single[OF pw] IH] by simp
    next
      case False
      then have "st p x = x" for x by (simp add: st_def)
      moreover have "?S (ps @ [p]) = ?S ps" using False by auto
      ultimately show ?thesis using IH by simp
    qed
  qed
  from this[of "pgprocnos s"] show ?thesis unfolding r by simp
qed

lemma inv_xids_window:
  assumes "xact_inv b g s" "p \<in> set (pgprocnos s)" "TransactionIdIsValid (proc_xid (allProcs s p))"
  shows "in_window b (proc_xid (allProcs s p))"
  using inv_proc_xid(1)[OF assms] tree_window by blast

lemma oldest_active_le:
  assumes inv: "xact_inv b g0 s0" and run: "(xact_step b)\<^sup>*\<^sup>* (g0, s0) (g, s)" and x: "live b g (next_xid s) x"
  shows "xid_pos b (GetOldestActiveTransactionId s0 s) \<le> xid_pos b x"
proof -
  have inv': "xact_inv b g s" using run_inv[OF run inv] by blast
  have w: "procarray_ok s" "in_window b (next_xid s0)" using inv inv' by (simp_all add: xact_inv_def)
  have "is_oldest b (GetOldestActiveTransactionId s0 s)
      (insert (next_xid s0) {proc_xid (allProcs s p) | p. p \<in> set (pgprocnos s) \<and> TransactionIdIsNormal (proc_xid (allProcs s p))})"
    unfolding GetOldestActiveTransactionId_def
    using oldest_xid_fold[OF w] inv_xids_window[OF inv'] valid_of_normal by blast
  moreover have n: "node_ok b g (next_xid s) (latest_xid s) x" using inv' x by (auto simp: xact_inv_def forest_ok_def live_def)
  then have t: "live b g (next_xid s) (f_top g x)" "f_top g (f_top g x) = f_top g x" "xid_pos b (f_top g x) \<le> xid_pos b x"
    using x by (auto simp: live_def node_ok_def)
  then obtain p where "p \<in> set (pgprocnos s)" "proc_xid (allProcs s p) = f_top g x"
    using inv_top_running[OF inv' t(1,2)] by blast
  moreover have "TransactionIdIsNormal (f_top g x)" using t(1) by (simp add: live_def before_def in_window_def)
  ultimately show ?thesis using t(3) by (fastforce simp: is_oldest_def)
qed


section \<open>Properties\<close>

text \<open>
  C14. Horizons.  \<^verbatim>\<open>ComputeXidHorizons\<close> computes exactly the minima it is meant to: over the start
  value, the running ids and the snapshot horizons of all processes (considered running), of those
  outside vacuum and logical decoding (shared), and of those of the own database among them (data),
  in recovery with the oldest known-assigned id, and lowered by the replication slots' horizon and,
  for shared and catalog relations, by their catalog horizon.  All assertions of the function hold.
\<close>

theorem ComputeXidHorizons_correct:
  assumes "procarray_ok s" "horizons_window b rec s" "MyProc bk \<in> set (pgprocnos s)"
  shows "let h = fst (ComputeXidHorizons rec bk s);
             start = standby_ids rec s \<union> ids (replication_slot_xmin s); cat = ids (replication_slot_catalog_xmin s);
             other = (\<lambda>p. \<not> ignored s p); mine = (\<lambda>p. \<not> ignored s p \<and> same_database rec (MyDatabaseId bk) s p)
         in is_oldest b (oldest_considered_running h) (start \<union> cat \<union> ids_of s (\<lambda>_. True))
          \<and> is_oldest b (shared_oldest_nonremovable_raw h) (start \<union> ids_of s other)
          \<and> is_oldest b (shared_oldest_nonremovable h) (start \<union> cat \<union> ids_of s other)
          \<and> is_oldest b (catalog_oldest_nonremovable h) (start \<union> cat \<union> ids_of s mine)
          \<and> is_oldest b (data_oldest_nonremovable h) (start \<union> ids_of s mine)
          \<and> horizons_assert_before_slots (horizons_loop rec bk s) \<and> horizons_assert_end h"
  using horizons_slots_oldest[OF assms(1,2), of bk] horizons_asserts[OF assms] by (simp add: Let_def)

lemma sample_not_ignored: "\<not> ignored sample_shmem p"
  by (simp add: ignored_def sample_shmem_simps)

lemma sample_proc_ids: "proc_ids sample_shmem p = (if p = 1 then {10} else {})"
  by (simp add: proc_ids_def ids_def sample_shmem_simps TransactionIdIsValid_def InvalidTransactionId_def)

lemma sample_start: "horizon_start sample_shmem = 10"
  by (simp add: horizon_start_def TransactionIdAdvance_def Let_def FirstNormalTransactionId_def)

lemma window_10: "in_window 3 10" "xid_pos 3 10 = 7"
  by (simp_all add: in_window_def xid_pos_def TransactionIdIsNormal_def FirstNormalTransactionId_def)

lemma sample_horizons_window: "horizons_window 3 False sample_shmem"
  unfolding horizons_window_def sample_proc_ids sample_start
  by (simp add: window_10 ids_def sample_shmem_simps TransactionIdIsValid_def InvalidTransactionId_def)

lemma sample_shared_ids:
  "standby_ids False sample_shmem \<union> ids (replication_slot_xmin sample_shmem) \<union> ids (replication_slot_catalog_xmin sample_shmem)
     \<union> ids_of sample_shmem (\<lambda>p. \<not> ignored sample_shmem p) = {10}"
proof -
  have "ids (replication_slot_xmin sample_shmem) = {}" "ids (replication_slot_catalog_xmin sample_shmem) = {}"
    by (simp_all add: ids_def sample_shmem_def TransactionIdIsValid_def InvalidTransactionId_def)
  moreover have "ids_of sample_shmem (\<lambda>p. \<not> ignored sample_shmem p) = {10}"
    by (auto simp: ids_of_def sample_not_ignored sample_proc_ids sample_shmem_procs)
  ultimately show ?thesis by (simp add: standby_ids_def sample_start)
qed

theorem ComputeXidHorizons_correct_witness:
  "shared_oldest_nonremovable (fst (ComputeXidHorizons False sample_backend sample_shmem)) = 10"
proof -
  have "is_oldest 3 (shared_oldest_nonremovable (fst (ComputeXidHorizons False sample_backend sample_shmem)))
      (standby_ids False sample_shmem \<union> ids (replication_slot_xmin sample_shmem) \<union> ids (replication_slot_catalog_xmin sample_shmem)
        \<union> ids_of sample_shmem (\<lambda>p. \<not> ignored sample_shmem p))"
    using ComputeXidHorizons_correct[OF sample_shmem_ok sample_horizons_window sample_me] by (simp add: Let_def)
  then show ?thesis unfolding sample_shared_ids by (simp add: is_oldest_def)
qed



text \<open>
  C40. The oldest active id.  \<^verbatim>\<open>GetOldestActiveTransactionId\<close> reads the next id, releases that lock,
  and only then scans the array; whatever happens in between, its result is at or before every
  transaction and subtransaction that runs when the array is scanned.
\<close>

theorem GetOldestActiveTransactionId_bound:
  assumes "xact_inv b g0 s0" "(xact_step b)\<^sup>*\<^sup>* (g0, s0) (g, s)" "live b g (next_xid s) x"
  shows "xid_pos b (GetOldestActiveTransactionId s0 s) \<le> xid_pos b x"
  using oldest_active_le[OF assms] .

theorem GetOldestActiveTransactionId_bound_witness:
  "xid_pos 3 (GetOldestActiveTransactionId sample_shmem sample_shmem) \<le> xid_pos 3 12"
  by (rule GetOldestActiveTransactionId_bound[OF sample_inv rtranclp.rtrancl_refl]) (simp add: sample_running)

end
