(* ===== verification/Visibility.thy ===== *)
theory Visibility
  imports Horizons "HOL-Library.State_Monad"
begin

text \<open>
  Row visibility: the flags of a tuple header (\<^verbatim>\<open>src/include/access/htup_details.h\<close>) and the tests of
  \<^verbatim>\<open>src/backend/access/heap/heapam_visibility.c\<close>.  A test reads the header, asks about the fate of the
  inserting and the deleting transaction, and may record an answer as a hint bit.  Transactions end
  while a test runs: every question about the status of a transaction is asked at a later moment
  than the one before, so that the order of the questions matters as it does in the code.
\<close>

section \<open>Tuple headers\<close>

record ItemPointerData =
  ip_blkid :: uint32
  ip_posid :: uint16

text \<open>\<open>t_field3\<close> is the union of the command id \<^verbatim>\<open>t_cid\<close> and the transaction id \<^verbatim>\<open>t_xvac\<close>.\<close>

record HeapTupleHeaderData =
  t_xmin :: TransactionId
  t_xmax :: TransactionId
  t_field3 :: uint32
  t_ctid :: ItemPointerData
  t_infomask2 :: uint16
  t_infomask :: uint16

definition HEAP_XMAX_KEYSHR_LOCK :: uint16 where "HEAP_XMAX_KEYSHR_LOCK = 0x0010"
definition HEAP_COMBOCID :: uint16 where "HEAP_COMBOCID = 0x0020"
definition HEAP_XMAX_EXCL_LOCK :: uint16 where "HEAP_XMAX_EXCL_LOCK = 0x0040"
definition HEAP_XMAX_LOCK_ONLY :: uint16 where "HEAP_XMAX_LOCK_ONLY = 0x0080"
definition HEAP_XMAX_SHR_LOCK :: uint16 where "HEAP_XMAX_SHR_LOCK = HEAP_XMAX_EXCL_LOCK OR HEAP_XMAX_KEYSHR_LOCK"
definition HEAP_LOCK_MASK :: uint16 where
  "HEAP_LOCK_MASK = (HEAP_XMAX_SHR_LOCK OR HEAP_XMAX_EXCL_LOCK) OR HEAP_XMAX_KEYSHR_LOCK"
definition HEAP_XMIN_COMMITTED :: uint16 where "HEAP_XMIN_COMMITTED = 0x0100"
definition HEAP_XMIN_INVALID :: uint16 where "HEAP_XMIN_INVALID = 0x0200"
definition HEAP_XMIN_FROZEN :: uint16 where "HEAP_XMIN_FROZEN = HEAP_XMIN_COMMITTED OR HEAP_XMIN_INVALID"
definition HEAP_XMAX_COMMITTED :: uint16 where "HEAP_XMAX_COMMITTED = 0x0400"
definition HEAP_XMAX_INVALID :: uint16 where "HEAP_XMAX_INVALID = 0x0800"
definition HEAP_XMAX_IS_MULTI :: uint16 where "HEAP_XMAX_IS_MULTI = 0x1000"
definition HEAP_MOVED_OFF :: uint16 where "HEAP_MOVED_OFF = 0x4000"
definition HEAP_MOVED_IN :: uint16 where "HEAP_MOVED_IN = 0x8000"
definition HEAP_MOVED :: uint16 where "HEAP_MOVED = HEAP_MOVED_OFF OR HEAP_MOVED_IN"

definition HEAP_XMAX_IS_LOCKED_ONLY :: "uint16 \<Rightarrow> bool" where
  "HEAP_XMAX_IS_LOCKED_ONLY infomask \<longleftrightarrow> infomask AND HEAP_XMAX_LOCK_ONLY \<noteq> 0
     \<or> infomask AND (HEAP_XMAX_IS_MULTI OR HEAP_LOCK_MASK) = HEAP_XMAX_EXCL_LOCK"

definition HEAP_LOCKED_UPGRADED :: "uint16 \<Rightarrow> bool" where
  "HEAP_LOCKED_UPGRADED infomask \<longleftrightarrow> infomask AND HEAP_XMAX_IS_MULTI \<noteq> 0 \<and> infomask AND HEAP_XMAX_LOCK_ONLY \<noteq> 0
     \<and> infomask AND (HEAP_XMAX_EXCL_LOCK OR HEAP_XMAX_KEYSHR_LOCK) = 0"

definition HeapTupleHeaderXminCommitted :: "HeapTupleHeaderData \<Rightarrow> bool" where
  "HeapTupleHeaderXminCommitted tup \<longleftrightarrow> t_infomask tup AND HEAP_XMIN_COMMITTED \<noteq> 0"

definition HeapTupleHeaderXminInvalid :: "HeapTupleHeaderData \<Rightarrow> bool" where
  "HeapTupleHeaderXminInvalid tup \<longleftrightarrow>
     t_infomask tup AND (HEAP_XMIN_COMMITTED OR HEAP_XMIN_INVALID) = HEAP_XMIN_INVALID"

definition HeapTupleHeaderXminFrozen :: "HeapTupleHeaderData \<Rightarrow> bool" where
  "HeapTupleHeaderXminFrozen tup \<longleftrightarrow> t_infomask tup AND HEAP_XMIN_FROZEN = HEAP_XMIN_FROZEN"

definition HeapTupleHeaderGetXmin :: "HeapTupleHeaderData \<Rightarrow> TransactionId" where
  "HeapTupleHeaderGetXmin tup = (if HeapTupleHeaderXminFrozen tup then FrozenTransactionId else t_xmin tup)"

definition HeapTupleHeaderGetXvac :: "HeapTupleHeaderData \<Rightarrow> TransactionId" where
  "HeapTupleHeaderGetXvac tup = (if t_infomask tup AND HEAP_MOVED \<noteq> 0 then t_field3 tup else InvalidTransactionId)"

definition SpecTokenOffsetNumber :: uint16 where
  "SpecTokenOffsetNumber = 0xfffe"

definition HeapTupleHeaderIsSpeculative :: "HeapTupleHeaderData \<Rightarrow> bool" where
  "HeapTupleHeaderIsSpeculative tup \<longleftrightarrow> ip_posid (t_ctid tup) = SpecTokenOffsetNumber"

definition HeapTupleHeaderGetSpeculativeToken :: "HeapTupleHeaderData \<Rightarrow> uint32" where
  "HeapTupleHeaderGetSpeculativeToken tup = ip_blkid (t_ctid tup)"

section \<open>What the tests ask\<close>

datatype MultiXactStatus = MultiXactStatusForKeyShare | MultiXactStatusForShare | MultiXactStatusForNoKeyUpdate
  | MultiXactStatusForUpdate | MultiXactStatusNoKeyUpdate | MultiXactStatusUpdate

definition ISUPDATE_from_mxstatus :: "MultiXactStatus \<Rightarrow> bool" where
  "ISUPDATE_from_mxstatus status \<longleftrightarrow> status = MultiXactStatusNoKeyUpdate \<or> status = MultiXactStatusUpdate"

record ComboCidKeyData =
  combo_cmin :: CommandId
  combo_cmax :: CommandId

text \<open>
  The answers of the rest of the system.  \<open>is_in_progress t\<close> and \<open>did_commit t\<close> are what
  \<^verbatim>\<open>TransactionIdIsInProgress\<close> and \<^verbatim>\<open>TransactionIdDidCommit\<close> answer at the moment \<open>t\<close>;
  \<open>in_snapshot\<close> is \<^verbatim>\<open>XidInMVCCSnapshot\<close>, \<open>multi_members\<close> is \<^verbatim>\<open>GetMultiXactIdMembers\<close>, \<open>removable\<close> is
  \<^verbatim>\<open>GlobalVisTestIsRemovableXid\<close> for the horizon of the snapshot, \<open>resolve_cids\<close> is
  \<^verbatim>\<open>ResolveCminCmaxDuringDecoding\<close> (None when it does not resolve), and the last three are what
  \<^verbatim>\<open>SetHintBits\<close> reads of the buffer and of the flushed part of the log.
\<close>

record xact_env =
  is_current :: "TransactionId \<Rightarrow> bool"
  is_in_progress :: "nat \<Rightarrow> TransactionId \<Rightarrow> bool"
  did_commit :: "nat \<Rightarrow> TransactionId \<Rightarrow> bool"
  in_snapshot :: "TransactionId \<Rightarrow> SnapshotData \<Rightarrow> bool"
  commit_lsn :: "TransactionId \<Rightarrow> XLogRecPtr"
  multi_members :: "MultiXactId \<Rightarrow> bool \<Rightarrow> (TransactionId \<times> MultiXactStatus) list"
  comboCids :: "CommandId \<Rightarrow> ComboCidKeyData"
  removable :: "TransactionId \<Rightarrow> bool"
  resolve_cids :: "HeapTupleHeaderData \<Rightarrow> (CommandId \<times> CommandId) option"
  BufferIsPermanent :: bool
  XLogNeedsFlush :: "XLogRecPtr \<Rightarrow> bool"
  BufferGetLSNAtomic :: XLogRecPtr

text \<open>The state of a test: the moment, the tuple header in the buffer, whether the buffer was marked
  dirty, and the snapshot, in which \<^verbatim>\<open>HeapTupleSatisfiesDirty\<close> returns information.\<close>

record test_state =
  vs_time :: nat
  vs_tuple :: HeapTupleHeaderData
  vs_dirty :: bool
  vs_snapshot :: SnapshotData

type_synonym 'a vis = "(test_state, 'a) state"

definition get_tuple :: "HeapTupleHeaderData vis" where
  "get_tuple = State (\<lambda>s. (vs_tuple s, s))"

definition get_snapshot :: "SnapshotData vis" where
  "get_snapshot = State (\<lambda>s. (vs_snapshot s, s))"

definition set_snapshot :: "(SnapshotData \<Rightarrow> SnapshotData) \<Rightarrow> unit vis" where
  "set_snapshot f = State (\<lambda>s. ((), s\<lparr>vs_snapshot := f (vs_snapshot s)\<rparr>))"

definition ask_in_progress :: "xact_env \<Rightarrow> TransactionId \<Rightarrow> bool vis" where
  "ask_in_progress env xid = State (\<lambda>s. (is_in_progress env (vs_time s) xid, s\<lparr>vs_time := Suc (vs_time s)\<rparr>))"

definition ask_did_commit :: "xact_env \<Rightarrow> TransactionId \<Rightarrow> bool vis" where
  "ask_did_commit env xid = State (\<lambda>s. (did_commit env (vs_time s) xid, s\<lparr>vs_time := Suc (vs_time s)\<rparr>))"

definition ask_in_snapshot :: "xact_env \<Rightarrow> TransactionId \<Rightarrow> bool vis" where
  "ask_in_snapshot env xid = State (\<lambda>s. (in_snapshot env xid (vs_snapshot s), s))"

definition mark_hint :: "uint16 \<Rightarrow> unit vis" where
  "mark_hint infomask = State (\<lambda>s. ((), s\<lparr>vs_tuple := (vs_tuple s)\<lparr>t_infomask := t_infomask (vs_tuple s) OR infomask\<rparr>,
     vs_dirty := True\<rparr>))"

definition SetHintBits :: "xact_env \<Rightarrow> uint16 \<Rightarrow> TransactionId \<Rightarrow> unit vis" where
  "SetHintBits env infomask xid =
     (if TransactionIdIsValid xid \<and> BufferIsPermanent env \<and> XLogNeedsFlush env (commit_lsn env xid)
         \<and> BufferGetLSNAtomic env < commit_lsn env xid
      then State_Monad.return ()
      else mark_hint infomask)"

definition HeapTupleHeaderGetCmin :: "xact_env \<Rightarrow> HeapTupleHeaderData \<Rightarrow> CommandId" where
  "HeapTupleHeaderGetCmin env tup =
     (if t_infomask tup AND HEAP_COMBOCID \<noteq> 0 then combo_cmin (comboCids env (t_field3 tup)) else t_field3 tup)"

definition HeapTupleHeaderGetCmax :: "xact_env \<Rightarrow> HeapTupleHeaderData \<Rightarrow> CommandId" where
  "HeapTupleHeaderGetCmax env tup =
     (if t_infomask tup AND HEAP_COMBOCID \<noteq> 0 then combo_cmax (comboCids env (t_field3 tup)) else t_field3 tup)"

definition MultiXactIdGetUpdateXid :: "xact_env \<Rightarrow> TransactionId \<Rightarrow> TransactionId" where
  "MultiXactIdGetUpdateXid env xmax =
     (case filter (\<lambda>m. ISUPDATE_from_mxstatus (snd m)) (multi_members env xmax False) of
        [] \<Rightarrow> InvalidTransactionId
      | m # _ \<Rightarrow> fst m)"

definition HeapTupleGetUpdateXid :: "xact_env \<Rightarrow> HeapTupleHeaderData \<Rightarrow> TransactionId" where
  "HeapTupleGetUpdateXid env tup = MultiXactIdGetUpdateXid env (t_xmax tup)"

definition HeapTupleHeaderGetUpdateXid :: "xact_env \<Rightarrow> HeapTupleHeaderData \<Rightarrow> TransactionId" where
  "HeapTupleHeaderGetUpdateXid env tup =
     (if t_infomask tup AND HEAP_XMAX_INVALID = 0 \<and> t_infomask tup AND HEAP_XMAX_IS_MULTI \<noteq> 0
         \<and> t_infomask tup AND HEAP_XMAX_LOCK_ONLY = 0
      then HeapTupleGetUpdateXid env tup else t_xmax tup)"

fun ask_any_in_progress :: "xact_env \<Rightarrow> TransactionId list \<Rightarrow> bool vis" where
  "ask_any_in_progress env [] = State_Monad.return False"
| "ask_any_in_progress env (x # xs) =
     do {p \<leftarrow> ask_in_progress env x; if p then State_Monad.return True else ask_any_in_progress env xs}"

definition MultiXactIdIsRunning :: "xact_env \<Rightarrow> MultiXactId \<Rightarrow> bool \<Rightarrow> bool vis" where
  "MultiXactIdIsRunning env multi isLockOnly =
     (let xids = map fst (multi_members env multi isLockOnly)
      in if xids = [] then State_Monad.return False
         else if \<exists>x \<in> set xids. is_current env x then State_Monad.return True
         else ask_any_in_progress env xids)"

section \<open>The inserting transaction\<close>

text \<open>
  The first part of each test.  \<open>Some r\<close>: the function returns \<open>r\<close>; \<open>None\<close>: control goes on to the
  deleting transaction.  The branches for rows moved by a \<^verbatim>\<open>VACUUM FULL\<close> before release 9.0 are the
  same in five of the tests, up to the question asked and the value returned.
\<close>

definition moved_off :: "xact_env \<Rightarrow> (TransactionId \<Rightarrow> bool vis) \<Rightarrow> 'r \<Rightarrow> 'r option vis" where
  "moved_off env in_prog no = do {
     tup \<leftarrow> get_tuple;
     let xvac = HeapTupleHeaderGetXvac tup;
     if is_current env xvac then State_Monad.return (Some no)
     else do {
       p \<leftarrow> in_prog xvac;
       if p then State_Monad.return None
       else do {
         c \<leftarrow> ask_did_commit env xvac;
         if c then do {SetHintBits env HEAP_XMIN_INVALID InvalidTransactionId; State_Monad.return (Some no)}
         else do {SetHintBits env HEAP_XMIN_COMMITTED InvalidTransactionId; State_Monad.return None}
       }
     }
   }"

definition moved_in :: "xact_env \<Rightarrow> (TransactionId \<Rightarrow> bool vis) \<Rightarrow> 'r \<Rightarrow> 'r option vis" where
  "moved_in env in_prog no = do {
     tup \<leftarrow> get_tuple;
     let xvac = HeapTupleHeaderGetXvac tup;
     if is_current env xvac then State_Monad.return None
     else do {
       p \<leftarrow> in_prog xvac;
       if p then State_Monad.return (Some no)
       else do {
         c \<leftarrow> ask_did_commit env xvac;
         if c then do {SetHintBits env HEAP_XMIN_COMMITTED InvalidTransactionId; State_Monad.return None}
         else do {SetHintBits env HEAP_XMIN_INVALID InvalidTransactionId; State_Monad.return (Some no)}
       }
     }
   }"

text \<open>The last branches: the inserting transaction is neither moved nor current nor in progress.\<close>

definition inserter_ended :: "xact_env \<Rightarrow> 'r \<Rightarrow> 'r option vis" where
  "inserter_ended env no = do {
     tup \<leftarrow> get_tuple;
     c \<leftarrow> ask_did_commit env (t_xmin tup);
     if c then do {SetHintBits env HEAP_XMIN_COMMITTED (t_xmin tup); State_Monad.return None}
     else do {SetHintBits env HEAP_XMIN_INVALID InvalidTransactionId; State_Monad.return (Some no)}
   }"

section \<open>HeapTupleSatisfiesSelf\<close>

definition self_own :: "xact_env \<Rightarrow> bool vis" where
  "self_own env = do {
     tup \<leftarrow> get_tuple;
     if t_infomask tup AND HEAP_XMAX_INVALID \<noteq> 0 then State_Monad.return True
     else if HEAP_XMAX_IS_LOCKED_ONLY (t_infomask tup) then State_Monad.return True
     else if t_infomask tup AND HEAP_XMAX_IS_MULTI \<noteq> 0
     then State_Monad.return (\<not> is_current env (HeapTupleGetUpdateXid env tup))
     else if \<not> is_current env (t_xmax tup)
     then do {SetHintBits env HEAP_XMAX_INVALID InvalidTransactionId; State_Monad.return True}
     else State_Monad.return False
   }"

definition self_xmin :: "xact_env \<Rightarrow> bool option vis" where
  "self_xmin env = do {
     tup \<leftarrow> get_tuple;
     if HeapTupleHeaderXminCommitted tup then State_Monad.return None
     else if HeapTupleHeaderXminInvalid tup then State_Monad.return (Some False)
     else if t_infomask tup AND HEAP_MOVED_OFF \<noteq> 0 then moved_off env (ask_in_progress env) False
     else if t_infomask tup AND HEAP_MOVED_IN \<noteq> 0 then moved_in env (ask_in_progress env) False
     else if is_current env (t_xmin tup) then do {r \<leftarrow> self_own env; State_Monad.return (Some r)}
     else do {
       p \<leftarrow> ask_in_progress env (t_xmin tup);
       if p then State_Monad.return (Some False) else inserter_ended env False
     }
   }"

definition self_xmax :: "xact_env \<Rightarrow> bool vis" where
  "self_xmax env = do {
     tup \<leftarrow> get_tuple;
     if t_infomask tup AND HEAP_XMAX_INVALID \<noteq> 0 then State_Monad.return True
     else if t_infomask tup AND HEAP_XMAX_COMMITTED \<noteq> 0
     then State_Monad.return (HEAP_XMAX_IS_LOCKED_ONLY (t_infomask tup))
     else if t_infomask tup AND HEAP_XMAX_IS_MULTI \<noteq> 0
     then if HEAP_XMAX_IS_LOCKED_ONLY (t_infomask tup) then State_Monad.return True
          else do {
            let xmax = HeapTupleGetUpdateXid env tup;
            if is_current env xmax then State_Monad.return False
            else do {
              p \<leftarrow> ask_in_progress env xmax;
              if p then State_Monad.return True
              else do {c \<leftarrow> ask_did_commit env xmax; State_Monad.return (\<not> c)}
            }
          }
     else if is_current env (t_xmax tup) then State_Monad.return (HEAP_XMAX_IS_LOCKED_ONLY (t_infomask tup))
     else do {
       p \<leftarrow> ask_in_progress env (t_xmax tup);
       if p then State_Monad.return True
       else do {
         c \<leftarrow> ask_did_commit env (t_xmax tup);
         if \<not> c then do {SetHintBits env HEAP_XMAX_INVALID InvalidTransactionId; State_Monad.return True}
         else if HEAP_XMAX_IS_LOCKED_ONLY (t_infomask tup)
         then do {SetHintBits env HEAP_XMAX_INVALID InvalidTransactionId; State_Monad.return True}
         else do {SetHintBits env HEAP_XMAX_COMMITTED (t_xmax tup); State_Monad.return False}
       }
     }
   }"

definition HeapTupleSatisfiesSelf :: "xact_env \<Rightarrow> bool vis" where
  "HeapTupleSatisfiesSelf env = do {
     r \<leftarrow> self_xmin env;
     case r of Some res \<Rightarrow> State_Monad.return res | None \<Rightarrow> self_xmax env
   }"

section \<open>HeapTupleSatisfiesAny and HeapTupleSatisfiesToast\<close>

definition HeapTupleSatisfiesAny :: "bool vis" where
  "HeapTupleSatisfiesAny = State_Monad.return True"

definition HeapTupleSatisfiesToast :: "xact_env \<Rightarrow> bool vis" where
  "HeapTupleSatisfiesToast env = do {
     tup \<leftarrow> get_tuple;
     r \<leftarrow> (if HeapTupleHeaderXminCommitted tup then State_Monad.return None
          else if HeapTupleHeaderXminInvalid tup then State_Monad.return (Some False)
          else if t_infomask tup AND HEAP_MOVED_OFF \<noteq> 0 then moved_off env (ask_in_progress env) False
          else if t_infomask tup AND HEAP_MOVED_IN \<noteq> 0 then moved_in env (ask_in_progress env) False
          else if \<not> TransactionIdIsValid (HeapTupleHeaderGetXmin tup) then State_Monad.return (Some False)
          else State_Monad.return None);
     State_Monad.return (case r of Some res \<Rightarrow> res | None \<Rightarrow> True)
   }"

section \<open>HeapTupleSatisfiesUpdate\<close>

datatype TM_Result = TM_Ok | TM_Invisible | TM_SelfModified | TM_Updated | TM_Deleted | TM_BeingModified | TM_WouldBlock

text \<open>\<open>self\<close> is \<^verbatim>\<open>htup->t_self\<close>, the place of the tuple.\<close>

definition updated_or_deleted :: "ItemPointerData \<Rightarrow> HeapTupleHeaderData \<Rightarrow> TM_Result" where
  "updated_or_deleted self tup = (if self \<noteq> t_ctid tup then TM_Updated else TM_Deleted)"

definition self_modified :: "xact_env \<Rightarrow> CommandId \<Rightarrow> HeapTupleHeaderData \<Rightarrow> TM_Result" where
  "self_modified env cid tup = (if HeapTupleHeaderGetCmax env tup \<ge> cid then TM_SelfModified else TM_Invisible)"

definition update_own :: "xact_env \<Rightarrow> CommandId \<Rightarrow> TM_Result vis" where
  "update_own env cid = do {
     tup \<leftarrow> get_tuple;
     if HeapTupleHeaderGetCmin env tup \<ge> cid then State_Monad.return TM_Invisible
     else if t_infomask tup AND HEAP_XMAX_INVALID \<noteq> 0 then State_Monad.return TM_Ok
     else if HEAP_XMAX_IS_LOCKED_ONLY (t_infomask tup)
     then if t_infomask tup AND HEAP_XMAX_IS_MULTI \<noteq> 0
          then do {
            running \<leftarrow> MultiXactIdIsRunning env (t_xmax tup) True;
            State_Monad.return (if running then TM_BeingModified else TM_Ok)
          }
          else do {
            p \<leftarrow> ask_in_progress env (t_xmax tup);
            State_Monad.return (if \<not> p then TM_Ok else TM_BeingModified)
          }
     else if t_infomask tup AND HEAP_XMAX_IS_MULTI \<noteq> 0
     then do {
       let xmax = HeapTupleGetUpdateXid env tup;
       if \<not> is_current env xmax
       then do {
         running \<leftarrow> MultiXactIdIsRunning env (t_xmax tup) False;
         State_Monad.return (if running then TM_BeingModified else TM_Ok)
       }
       else State_Monad.return (self_modified env cid tup)
     }
     else if \<not> is_current env (t_xmax tup)
     then do {SetHintBits env HEAP_XMAX_INVALID InvalidTransactionId; State_Monad.return TM_Ok}
     else State_Monad.return (self_modified env cid tup)
   }"

definition update_xmin :: "xact_env \<Rightarrow> CommandId \<Rightarrow> TM_Result option vis" where
  "update_xmin env cid = do {
     tup \<leftarrow> get_tuple;
     if HeapTupleHeaderXminCommitted tup then State_Monad.return None
     else if HeapTupleHeaderXminInvalid tup then State_Monad.return (Some TM_Invisible)
     else if t_infomask tup AND HEAP_MOVED_OFF \<noteq> 0 then moved_off env (ask_in_progress env) TM_Invisible
     else if t_infomask tup AND HEAP_MOVED_IN \<noteq> 0 then moved_in env (ask_in_progress env) TM_Invisible
     else if is_current env (t_xmin tup) then do {r \<leftarrow> update_own env cid; State_Monad.return (Some r)}
     else do {
       p \<leftarrow> ask_in_progress env (t_xmin tup);
       if p then State_Monad.return (Some TM_Invisible) else inserter_ended env TM_Invisible
     }
   }"

text \<open>The branches for a multixact: nobody in it is running; it has an updater \<open>xmax\<close>; the whole.\<close>

definition update_multi_ended :: "xact_env \<Rightarrow> ItemPointerData \<Rightarrow> TransactionId \<Rightarrow> TM_Result vis" where
  "update_multi_ended env self xmax = do {
     tup \<leftarrow> get_tuple;
     c \<leftarrow> ask_did_commit env xmax;
     if c then State_Monad.return (updated_or_deleted self tup)
     else do {
       still \<leftarrow> MultiXactIdIsRunning env (t_xmax tup) False;
       if \<not> still
       then do {SetHintBits env HEAP_XMAX_INVALID InvalidTransactionId; State_Monad.return TM_Ok}
       else State_Monad.return TM_BeingModified
     }
   }"

definition update_multi_updater :: "xact_env \<Rightarrow> ItemPointerData \<Rightarrow> CommandId \<Rightarrow> TransactionId \<Rightarrow> TM_Result vis" where
  "update_multi_updater env self cid xmax = do {
     tup \<leftarrow> get_tuple;
     if is_current env xmax then State_Monad.return (self_modified env cid tup)
     else do {
       running \<leftarrow> MultiXactIdIsRunning env (t_xmax tup) False;
       if running then State_Monad.return TM_BeingModified else update_multi_ended env self xmax
     }
   }"

definition update_multi :: "xact_env \<Rightarrow> ItemPointerData \<Rightarrow> CommandId \<Rightarrow> TM_Result vis" where
  "update_multi env self cid = do {
     tup \<leftarrow> get_tuple;
     if HEAP_LOCKED_UPGRADED (t_infomask tup) then State_Monad.return TM_Ok
     else if HEAP_XMAX_IS_LOCKED_ONLY (t_infomask tup)
     then do {
       running \<leftarrow> MultiXactIdIsRunning env (t_xmax tup) True;
       if running then State_Monad.return TM_BeingModified
       else do {SetHintBits env HEAP_XMAX_INVALID InvalidTransactionId; State_Monad.return TM_Ok}
     }
     else do {
       let xmax = HeapTupleGetUpdateXid env tup;
       early \<leftarrow> (if \<not> TransactionIdIsValid xmax then MultiXactIdIsRunning env (t_xmax tup) False
                else State_Monad.return False);
       if early then State_Monad.return TM_BeingModified else update_multi_updater env self cid xmax
     }
   }"

definition update_xmax :: "xact_env \<Rightarrow> ItemPointerData \<Rightarrow> CommandId \<Rightarrow> TM_Result vis" where
  "update_xmax env self cid = do {
     tup \<leftarrow> get_tuple;
     if t_infomask tup AND HEAP_XMAX_INVALID \<noteq> 0 then State_Monad.return TM_Ok
     else if t_infomask tup AND HEAP_XMAX_COMMITTED \<noteq> 0
     then State_Monad.return (if HEAP_XMAX_IS_LOCKED_ONLY (t_infomask tup) then TM_Ok else updated_or_deleted self tup)
     else if t_infomask tup AND HEAP_XMAX_IS_MULTI \<noteq> 0 then update_multi env self cid
     else if is_current env (t_xmax tup)
     then State_Monad.return (if HEAP_XMAX_IS_LOCKED_ONLY (t_infomask tup) then TM_BeingModified
                              else self_modified env cid tup)
     else do {
       p \<leftarrow> ask_in_progress env (t_xmax tup);
       if p then State_Monad.return TM_BeingModified
       else do {
         c \<leftarrow> ask_did_commit env (t_xmax tup);
         if \<not> c then do {SetHintBits env HEAP_XMAX_INVALID InvalidTransactionId; State_Monad.return TM_Ok}
         else if HEAP_XMAX_IS_LOCKED_ONLY (t_infomask tup)
         then do {SetHintBits env HEAP_XMAX_INVALID InvalidTransactionId; State_Monad.return TM_Ok}
         else do {
           SetHintBits env HEAP_XMAX_COMMITTED (t_xmax tup);
           State_Monad.return (updated_or_deleted self tup)
         }
       }
     }
   }"

definition HeapTupleSatisfiesUpdate :: "xact_env \<Rightarrow> ItemPointerData \<Rightarrow> CommandId \<Rightarrow> TM_Result vis" where
  "HeapTupleSatisfiesUpdate env self cid = do {
     r \<leftarrow> update_xmin env cid;
     case r of Some res \<Rightarrow> State_Monad.return res | None \<Rightarrow> update_xmax env self cid
   }"

section \<open>HeapTupleSatisfiesDirty\<close>

definition dirty_xmin :: "xact_env \<Rightarrow> bool option vis" where
  "dirty_xmin env = do {
     tup \<leftarrow> get_tuple;
     if HeapTupleHeaderXminCommitted tup then State_Monad.return None
     else if HeapTupleHeaderXminInvalid tup then State_Monad.return (Some False)
     else if t_infomask tup AND HEAP_MOVED_OFF \<noteq> 0 then moved_off env (ask_in_progress env) False
     else if t_infomask tup AND HEAP_MOVED_IN \<noteq> 0 then moved_in env (ask_in_progress env) False
     else if is_current env (t_xmin tup) then do {r \<leftarrow> self_own env; State_Monad.return (Some r)}
     else do {
       p \<leftarrow> ask_in_progress env (t_xmin tup);
       if p
       then do {
         set_snapshot (\<lambda>s. if HeapTupleHeaderIsSpeculative tup
                           then s\<lparr>speculativeToken := HeapTupleHeaderGetSpeculativeToken tup\<rparr> else s);
         set_snapshot (\<lambda>s. s\<lparr>snap_xmin := t_xmin tup\<rparr>);
         State_Monad.return (Some True)
       }
       else inserter_ended env False
     }
   }"

definition dirty_xmax :: "xact_env \<Rightarrow> bool vis" where
  "dirty_xmax env = do {
     tup \<leftarrow> get_tuple;
     if t_infomask tup AND HEAP_XMAX_INVALID \<noteq> 0 then State_Monad.return True
     else if t_infomask tup AND HEAP_XMAX_COMMITTED \<noteq> 0
     then State_Monad.return (HEAP_XMAX_IS_LOCKED_ONLY (t_infomask tup))
     else if t_infomask tup AND HEAP_XMAX_IS_MULTI \<noteq> 0
     then if HEAP_XMAX_IS_LOCKED_ONLY (t_infomask tup) then State_Monad.return True
          else do {
            let xmax = HeapTupleGetUpdateXid env tup;
            if is_current env xmax then State_Monad.return False
            else do {
              p \<leftarrow> ask_in_progress env xmax;
              if p then do {set_snapshot (\<lambda>s. s\<lparr>snap_xmax := xmax\<rparr>); State_Monad.return True}
              else do {c \<leftarrow> ask_did_commit env xmax; State_Monad.return (\<not> c)}
            }
          }
     else if is_current env (t_xmax tup) then State_Monad.return (HEAP_XMAX_IS_LOCKED_ONLY (t_infomask tup))
     else do {
       p \<leftarrow> ask_in_progress env (t_xmax tup);
       if p
       then do {
         set_snapshot (\<lambda>s. if \<not> HEAP_XMAX_IS_LOCKED_ONLY (t_infomask tup) then s\<lparr>snap_xmax := t_xmax tup\<rparr> else s);
         State_Monad.return True
       }
       else do {
         c \<leftarrow> ask_did_commit env (t_xmax tup);
         if \<not> c then do {SetHintBits env HEAP_XMAX_INVALID InvalidTransactionId; State_Monad.return True}
         else if HEAP_XMAX_IS_LOCKED_ONLY (t_infomask tup)
         then do {SetHintBits env HEAP_XMAX_INVALID InvalidTransactionId; State_Monad.return True}
         else do {SetHintBits env HEAP_XMAX_COMMITTED (t_xmax tup); State_Monad.return False}
       }
     }
   }"

definition HeapTupleSatisfiesDirty :: "xact_env \<Rightarrow> bool vis" where
  "HeapTupleSatisfiesDirty env = do {
     set_snapshot (\<lambda>s. s\<lparr>snap_xmin := InvalidTransactionId, snap_xmax := InvalidTransactionId, speculativeToken := 0\<rparr>);
     r \<leftarrow> dirty_xmin env;
     case r of Some res \<Rightarrow> State_Monad.return res | None \<Rightarrow> dirty_xmax env
   }"

section \<open>HeapTupleSatisfiesMVCC\<close>

definition mvcc_own :: "xact_env \<Rightarrow> bool vis" where
  "mvcc_own env = do {
     tup \<leftarrow> get_tuple;
     snap \<leftarrow> get_snapshot;
     if HeapTupleHeaderGetCmin env tup \<ge> curcid snap then State_Monad.return False
     else if t_infomask tup AND HEAP_XMAX_INVALID \<noteq> 0 then State_Monad.return True
     else if HEAP_XMAX_IS_LOCKED_ONLY (t_infomask tup) then State_Monad.return True
     else if t_infomask tup AND HEAP_XMAX_IS_MULTI \<noteq> 0
     then if \<not> is_current env (HeapTupleGetUpdateXid env tup) then State_Monad.return True
          else State_Monad.return (HeapTupleHeaderGetCmax env tup \<ge> curcid snap)
     else if \<not> is_current env (t_xmax tup)
     then do {SetHintBits env HEAP_XMAX_INVALID InvalidTransactionId; State_Monad.return True}
     else State_Monad.return (HeapTupleHeaderGetCmax env tup \<ge> curcid snap)
   }"

definition mvcc_xmin :: "xact_env \<Rightarrow> bool option vis" where
  "mvcc_xmin env = do {
     tup \<leftarrow> get_tuple;
     if \<not> HeapTupleHeaderXminCommitted tup
     then if HeapTupleHeaderXminInvalid tup then State_Monad.return (Some False)
          else if t_infomask tup AND HEAP_MOVED_OFF \<noteq> 0 then moved_off env (ask_in_snapshot env) False
          else if t_infomask tup AND HEAP_MOVED_IN \<noteq> 0 then moved_in env (ask_in_snapshot env) False
          else if is_current env (t_xmin tup) then do {r \<leftarrow> mvcc_own env; State_Monad.return (Some r)}
          else do {
            p \<leftarrow> ask_in_snapshot env (t_xmin tup);
            if p then State_Monad.return (Some False) else inserter_ended env False
          }
     else if \<not> HeapTupleHeaderXminFrozen tup
     then do {
       p \<leftarrow> ask_in_snapshot env (t_xmin tup);
       State_Monad.return (if p then Some False else None)
     }
     else State_Monad.return None
   }"

definition mvcc_xmax :: "xact_env \<Rightarrow> bool vis" where
  "mvcc_xmax env = do {
     tup \<leftarrow> get_tuple;
     snap \<leftarrow> get_snapshot;
     if t_infomask tup AND HEAP_XMAX_INVALID \<noteq> 0 then State_Monad.return True
     else if HEAP_XMAX_IS_LOCKED_ONLY (t_infomask tup) then State_Monad.return True
     else if t_infomask tup AND HEAP_XMAX_IS_MULTI \<noteq> 0
     then do {
       let xmax = HeapTupleGetUpdateXid env tup;
       if is_current env xmax then State_Monad.return (HeapTupleHeaderGetCmax env tup \<ge> curcid snap)
       else do {
         p \<leftarrow> ask_in_snapshot env xmax;
         if p then State_Monad.return True
         else do {c \<leftarrow> ask_did_commit env xmax; State_Monad.return (\<not> c)}
       }
     }
     else if t_infomask tup AND HEAP_XMAX_COMMITTED = 0
     then if is_current env (t_xmax tup)
          then State_Monad.return (HeapTupleHeaderGetCmax env tup \<ge> curcid snap)
          else do {
            p \<leftarrow> ask_in_snapshot env (t_xmax tup);
            if p then State_Monad.return True
            else do {
              c \<leftarrow> ask_did_commit env (t_xmax tup);
              if \<not> c then do {SetHintBits env HEAP_XMAX_INVALID InvalidTransactionId; State_Monad.return True}
              else do {SetHintBits env HEAP_XMAX_COMMITTED (t_xmax tup); State_Monad.return False}
            }
          }
     else ask_in_snapshot env (t_xmax tup)
   }"

definition HeapTupleSatisfiesMVCC :: "xact_env \<Rightarrow> bool vis" where
  "HeapTupleSatisfiesMVCC env = do {
     r \<leftarrow> mvcc_xmin env;
     case r of Some res \<Rightarrow> State_Monad.return res | None \<Rightarrow> mvcc_xmax env
   }"

section \<open>HeapTupleSatisfiesVacuum\<close>

datatype HTSV_Result = HEAPTUPLE_DEAD | HEAPTUPLE_LIVE | HEAPTUPLE_RECENTLY_DEAD
  | HEAPTUPLE_INSERT_IN_PROGRESS | HEAPTUPLE_DELETE_IN_PROGRESS

definition HeapTupleHeaderIsOnlyLocked :: "xact_env \<Rightarrow> bool vis" where
  "HeapTupleHeaderIsOnlyLocked env = do {
     tup \<leftarrow> get_tuple;
     if t_infomask tup AND HEAP_XMAX_INVALID \<noteq> 0 then State_Monad.return True
     else if t_infomask tup AND HEAP_XMAX_LOCK_ONLY \<noteq> 0 then State_Monad.return True
     else if \<not> TransactionIdIsValid (t_xmax tup) then State_Monad.return True
     else if t_infomask tup AND HEAP_XMAX_IS_MULTI = 0 then State_Monad.return False
     else do {
       let xmax = HeapTupleGetUpdateXid env tup;
       if is_current env xmax then State_Monad.return False
       else do {
         p \<leftarrow> ask_in_progress env xmax;
         if p then State_Monad.return False
         else do {c \<leftarrow> ask_did_commit env xmax; State_Monad.return (\<not> c)}
       }
     }
   }"

definition vacuum_moved_off :: "xact_env \<Rightarrow> HTSV_Result option vis" where
  "vacuum_moved_off env = do {
     tup \<leftarrow> get_tuple;
     let xvac = HeapTupleHeaderGetXvac tup;
     if is_current env xvac then State_Monad.return (Some HEAPTUPLE_DELETE_IN_PROGRESS)
     else do {
       p \<leftarrow> ask_in_progress env xvac;
       if p then State_Monad.return (Some HEAPTUPLE_DELETE_IN_PROGRESS)
       else do {
         c \<leftarrow> ask_did_commit env xvac;
         if c then do {SetHintBits env HEAP_XMIN_INVALID InvalidTransactionId; State_Monad.return (Some HEAPTUPLE_DEAD)}
         else do {SetHintBits env HEAP_XMIN_COMMITTED InvalidTransactionId; State_Monad.return None}
       }
     }
   }"

definition vacuum_moved_in :: "xact_env \<Rightarrow> HTSV_Result option vis" where
  "vacuum_moved_in env = do {
     tup \<leftarrow> get_tuple;
     let xvac = HeapTupleHeaderGetXvac tup;
     if is_current env xvac then State_Monad.return (Some HEAPTUPLE_INSERT_IN_PROGRESS)
     else do {
       p \<leftarrow> ask_in_progress env xvac;
       if p then State_Monad.return (Some HEAPTUPLE_INSERT_IN_PROGRESS)
       else do {
         c \<leftarrow> ask_did_commit env xvac;
         if c then do {SetHintBits env HEAP_XMIN_COMMITTED InvalidTransactionId; State_Monad.return None}
         else do {SetHintBits env HEAP_XMIN_INVALID InvalidTransactionId; State_Monad.return (Some HEAPTUPLE_DEAD)}
       }
     }
   }"

definition vacuum_own :: "xact_env \<Rightarrow> HTSV_Result vis" where
  "vacuum_own env = do {
     tup \<leftarrow> get_tuple;
     if t_infomask tup AND HEAP_XMAX_INVALID \<noteq> 0 then State_Monad.return HEAPTUPLE_INSERT_IN_PROGRESS
     else do {
       locked \<leftarrow> (if HEAP_XMAX_IS_LOCKED_ONLY (t_infomask tup) then State_Monad.return True
                 else HeapTupleHeaderIsOnlyLocked env);
       if locked then State_Monad.return HEAPTUPLE_INSERT_IN_PROGRESS
       else if is_current env (HeapTupleHeaderGetUpdateXid env tup)
       then State_Monad.return HEAPTUPLE_DELETE_IN_PROGRESS
       else State_Monad.return HEAPTUPLE_INSERT_IN_PROGRESS
     }
   }"

definition vacuum_xmin :: "xact_env \<Rightarrow> HTSV_Result option vis" where
  "vacuum_xmin env = do {
     tup \<leftarrow> get_tuple;
     if HeapTupleHeaderXminCommitted tup then State_Monad.return None
     else if HeapTupleHeaderXminInvalid tup then State_Monad.return (Some HEAPTUPLE_DEAD)
     else if t_infomask tup AND HEAP_MOVED_OFF \<noteq> 0 then vacuum_moved_off env
     else if t_infomask tup AND HEAP_MOVED_IN \<noteq> 0 then vacuum_moved_in env
     else if is_current env (t_xmin tup) then do {r \<leftarrow> vacuum_own env; State_Monad.return (Some r)}
     else do {
       p \<leftarrow> ask_in_progress env (t_xmin tup);
       if p then State_Monad.return (Some HEAPTUPLE_INSERT_IN_PROGRESS) else inserter_ended env HEAPTUPLE_DEAD
     }
   }"

definition vacuum_locked :: "xact_env \<Rightarrow> HTSV_Result vis" where
  "vacuum_locked env = do {
     tup \<leftarrow> get_tuple;
     if t_infomask tup AND HEAP_XMAX_COMMITTED = 0
     then if t_infomask tup AND HEAP_XMAX_IS_MULTI \<noteq> 0
          then do {
            running \<leftarrow> (if \<not> HEAP_LOCKED_UPGRADED (t_infomask tup) then MultiXactIdIsRunning env (t_xmax tup) True
                       else State_Monad.return False);
            if running then State_Monad.return HEAPTUPLE_LIVE
            else do {SetHintBits env HEAP_XMAX_INVALID InvalidTransactionId; State_Monad.return HEAPTUPLE_LIVE}
          }
          else do {
            p \<leftarrow> ask_in_progress env (t_xmax tup);
            if p then State_Monad.return HEAPTUPLE_LIVE
            else do {SetHintBits env HEAP_XMAX_INVALID InvalidTransactionId; State_Monad.return HEAPTUPLE_LIVE}
          }
     else State_Monad.return HEAPTUPLE_LIVE
   }"

text \<open>The second component is \<^verbatim>\<open>*dead_after\<close>, which the function sets to an invalid id at its start.\<close>

definition vacuum_xmax :: "xact_env \<Rightarrow> (HTSV_Result \<times> TransactionId) vis" where
  "vacuum_xmax env = do {
     tup \<leftarrow> get_tuple;
     if t_infomask tup AND HEAP_XMAX_INVALID \<noteq> 0 then State_Monad.return (HEAPTUPLE_LIVE, InvalidTransactionId)
     else if HEAP_XMAX_IS_LOCKED_ONLY (t_infomask tup)
     then do {r \<leftarrow> vacuum_locked env; State_Monad.return (r, InvalidTransactionId)}
     else if t_infomask tup AND HEAP_XMAX_IS_MULTI \<noteq> 0
     then do {
       let xmax = HeapTupleGetUpdateXid env tup;
       p \<leftarrow> ask_in_progress env xmax;
       if p then State_Monad.return (HEAPTUPLE_DELETE_IN_PROGRESS, InvalidTransactionId)
       else do {
         c \<leftarrow> ask_did_commit env xmax;
         if c then State_Monad.return (HEAPTUPLE_RECENTLY_DEAD, xmax)
         else do {
           running \<leftarrow> MultiXactIdIsRunning env (t_xmax tup) False;
           if \<not> running
           then do {
             SetHintBits env HEAP_XMAX_INVALID InvalidTransactionId;
             State_Monad.return (HEAPTUPLE_LIVE, InvalidTransactionId)
           }
           else State_Monad.return (HEAPTUPLE_LIVE, InvalidTransactionId)
         }
       }
     }
     else if t_infomask tup AND HEAP_XMAX_COMMITTED = 0
     then do {
       p \<leftarrow> ask_in_progress env (t_xmax tup);
       if p then State_Monad.return (HEAPTUPLE_DELETE_IN_PROGRESS, InvalidTransactionId)
       else do {
         c \<leftarrow> ask_did_commit env (t_xmax tup);
         if c
         then do {
           SetHintBits env HEAP_XMAX_COMMITTED (t_xmax tup);
           State_Monad.return (HEAPTUPLE_RECENTLY_DEAD, t_xmax tup)
         }
         else do {
           SetHintBits env HEAP_XMAX_INVALID InvalidTransactionId;
           State_Monad.return (HEAPTUPLE_LIVE, InvalidTransactionId)
         }
       }
     }
     else State_Monad.return (HEAPTUPLE_RECENTLY_DEAD, t_xmax tup)
   }"

definition HeapTupleSatisfiesVacuumHorizon :: "xact_env \<Rightarrow> (HTSV_Result \<times> TransactionId) vis" where
  "HeapTupleSatisfiesVacuumHorizon env = do {
     r \<leftarrow> vacuum_xmin env;
     case r of Some res \<Rightarrow> State_Monad.return (res, InvalidTransactionId) | None \<Rightarrow> vacuum_xmax env
   }"

definition HeapTupleSatisfiesVacuum :: "xact_env \<Rightarrow> TransactionId \<Rightarrow> HTSV_Result vis" where
  "HeapTupleSatisfiesVacuum env OldestXmin = do {
     (res, dead_after) \<leftarrow> HeapTupleSatisfiesVacuumHorizon env;
     State_Monad.return (if res = HEAPTUPLE_RECENTLY_DEAD \<and> TransactionIdPrecedes dead_after OldestXmin
                         then HEAPTUPLE_DEAD else res)
   }"

definition HeapTupleSatisfiesNonVacuumable :: "xact_env \<Rightarrow> bool vis" where
  "HeapTupleSatisfiesNonVacuumable env = do {
     (res, dead_after) \<leftarrow> HeapTupleSatisfiesVacuumHorizon env;
     State_Monad.return ((if res = HEAPTUPLE_RECENTLY_DEAD \<and> removable env dead_after
                          then HEAPTUPLE_DEAD else res) \<noteq> HEAPTUPLE_DEAD)
   }"

definition HeapTupleIsSurelyDead :: "xact_env \<Rightarrow> HeapTupleHeaderData \<Rightarrow> bool" where
  "HeapTupleIsSurelyDead env tup =
     (if \<not> HeapTupleHeaderXminCommitted tup then HeapTupleHeaderXminInvalid tup
      else if t_infomask tup AND HEAP_XMAX_INVALID \<noteq> 0 then False
      else if HEAP_XMAX_IS_LOCKED_ONLY (t_infomask tup) then False
      else if t_infomask tup AND HEAP_XMAX_IS_MULTI \<noteq> 0 then False
      else if t_infomask tup AND HEAP_XMAX_COMMITTED = 0 then False
      else removable env (t_xmax tup))"

section \<open>HeapTupleSatisfiesHistoricMVCC\<close>

text \<open>The array is sorted: \<^verbatim>\<open>bsearch\<close> finds the id if and only if it is there.\<close>

definition TransactionIdInArray :: "TransactionId \<Rightarrow> TransactionId list \<Rightarrow> bool" where
  "TransactionIdInArray xid xids \<longleftrightarrow> length xids > 0 \<and> xid \<in> set xids"

definition historic_xmin :: "xact_env \<Rightarrow> bool vis" where
  "historic_xmin env = do {
     tup \<leftarrow> get_tuple;
     snap \<leftarrow> get_snapshot;
     let xmin = HeapTupleHeaderGetXmin tup;
     if HeapTupleHeaderXminInvalid tup then State_Monad.return False
     else if TransactionIdInArray xmin (subxip snap)
     then State_Monad.return
       (case resolve_cids env tup of None \<Rightarrow> False | Some (cmin, cmax) \<Rightarrow> \<not> cmin \<ge> curcid snap)
     else if TransactionIdPrecedes xmin (snap_xmin snap)
     then if \<not> HeapTupleHeaderXminCommitted tup then ask_did_commit env xmin else State_Monad.return True
     else if TransactionIdFollowsOrEquals xmin (snap_xmax snap) then State_Monad.return False
     else State_Monad.return (TransactionIdInArray xmin (xip snap))
   }"

definition historic_xmax :: "xact_env \<Rightarrow> bool vis" where
  "historic_xmax env = do {
     tup \<leftarrow> get_tuple;
     snap \<leftarrow> get_snapshot;
     if t_infomask tup AND HEAP_XMAX_INVALID \<noteq> 0 then State_Monad.return True
     else if HEAP_XMAX_IS_LOCKED_ONLY (t_infomask tup) then State_Monad.return True
     else do {
       let xmax = (if t_infomask tup AND HEAP_XMAX_IS_MULTI \<noteq> 0 then HeapTupleGetUpdateXid env tup else t_xmax tup);
       if TransactionIdInArray xmax (subxip snap)
       then State_Monad.return
         (case resolve_cids env tup of None \<Rightarrow> True
          | Some (cmin, cmax) \<Rightarrow> if cmax = InvalidCommandId then True else cmax \<ge> curcid snap)
       else if TransactionIdPrecedes xmax (snap_xmin snap)
       then if t_infomask tup AND HEAP_XMAX_COMMITTED \<noteq> 0 then State_Monad.return False
            else do {c \<leftarrow> ask_did_commit env xmax; State_Monad.return (\<not> c)}
       else if TransactionIdFollowsOrEquals xmax (snap_xmax snap) then State_Monad.return True
       else State_Monad.return (\<not> TransactionIdInArray xmax (xip snap))
     }
   }"

definition HeapTupleSatisfiesHistoricMVCC :: "xact_env \<Rightarrow> bool vis" where
  "HeapTupleSatisfiesHistoricMVCC env = do {
     visible \<leftarrow> historic_xmin env;
     if \<not> visible then State_Monad.return False else historic_xmax env
   }"

section \<open>HeapTupleSatisfiesVisibility\<close>

definition HeapTupleSatisfiesVisibility :: "xact_env \<Rightarrow> bool vis" where
  "HeapTupleSatisfiesVisibility env = do {
     snap \<leftarrow> get_snapshot;
     case snapshot_type snap of
       SNAPSHOT_MVCC \<Rightarrow> HeapTupleSatisfiesMVCC env
     | SNAPSHOT_SELF \<Rightarrow> HeapTupleSatisfiesSelf env
     | SNAPSHOT_ANY \<Rightarrow> HeapTupleSatisfiesAny
     | SNAPSHOT_TOAST \<Rightarrow> HeapTupleSatisfiesToast env
     | SNAPSHOT_DIRTY \<Rightarrow> HeapTupleSatisfiesDirty env
     | SNAPSHOT_HISTORIC_MVCC \<Rightarrow> HeapTupleSatisfiesHistoricMVCC env
     | SNAPSHOT_NON_VACUUMABLE \<Rightarrow> HeapTupleSatisfiesNonVacuumable env
   }"

section \<open>Flags as bits\<close>

lemma upt_16: "[0..<16] = [0, 1, 2, 3, 4, 5, 6, 7, 8, 9, 10, 11, 12, 13, 14, 15]"
  by code_simp

lemma word16_eq_iff: "(v :: uint16) = w \<longleftrightarrow> (\<forall>n \<in> set [0..<16]. bit v n = bit w n)"
  by (auto intro: bit_word_eqI)

lemma bit16_iff: "bit (v :: uint16) n \<longleftrightarrow> n \<in> set (filter (bit v) [0..<16])"
  using bit_imp_le_length[of v n] by auto

lemmas flag_defs = HEAP_XMAX_KEYSHR_LOCK_def HEAP_COMBOCID_def HEAP_XMAX_EXCL_LOCK_def HEAP_XMAX_LOCK_ONLY_def
  HEAP_XMAX_SHR_LOCK_def HEAP_LOCK_MASK_def HEAP_XMIN_COMMITTED_def HEAP_XMIN_INVALID_def HEAP_XMIN_FROZEN_def
  HEAP_XMAX_COMMITTED_def HEAP_XMAX_INVALID_def HEAP_XMAX_IS_MULTI_def HEAP_MOVED_OFF_def HEAP_MOVED_IN_def HEAP_MOVED_def

named_theorems flag_tests \<open>flag tests as bits of the infomask\<close>

lemma flag_single [flag_tests]:
  fixes m :: uint16
  shows "m AND HEAP_COMBOCID = 0 \<longleftrightarrow> \<not> bit m 5" "m AND HEAP_XMAX_LOCK_ONLY = 0 \<longleftrightarrow> \<not> bit m 7"
    "m AND HEAP_XMAX_COMMITTED = 0 \<longleftrightarrow> \<not> bit m 10" "m AND HEAP_XMAX_INVALID = 0 \<longleftrightarrow> \<not> bit m 11"
    "m AND HEAP_XMAX_IS_MULTI = 0 \<longleftrightarrow> \<not> bit m 12" "m AND HEAP_MOVED_OFF = 0 \<longleftrightarrow> \<not> bit m 14"
    "m AND HEAP_MOVED_IN = 0 \<longleftrightarrow> \<not> bit m 15"
  by (simp_all add: word16_eq_iff flag_defs upt_16 bit_simps)

lemma flag_xmin [flag_tests]:
  "HeapTupleHeaderXminCommitted tup \<longleftrightarrow> bit (t_infomask tup) 8"
  "HeapTupleHeaderXminInvalid tup \<longleftrightarrow> bit (t_infomask tup) 9 \<and> \<not> bit (t_infomask tup) 8"
  "HeapTupleHeaderXminFrozen tup \<longleftrightarrow> bit (t_infomask tup) 8 \<and> bit (t_infomask tup) 9"
  by (auto simp: word16_eq_iff flag_defs upt_16 bit_simps HeapTupleHeaderXminCommitted_def
      HeapTupleHeaderXminInvalid_def HeapTupleHeaderXminFrozen_def)

lemma flag_locked [flag_tests]:
  "HEAP_XMAX_IS_LOCKED_ONLY m \<longleftrightarrow> bit m 7 \<or> bit m 6 \<and> \<not> bit m 4 \<and> \<not> bit m 12"
  "HEAP_LOCKED_UPGRADED m \<longleftrightarrow> bit m 12 \<and> bit m 7 \<and> \<not> bit m 6 \<and> \<not> bit m 4"
  by (auto simp: word16_eq_iff flag_defs upt_16 bit_simps HEAP_XMAX_IS_LOCKED_ONLY_def HEAP_LOCKED_UPGRADED_def)

lemma flag_or [simp]:
  fixes m :: uint16
  shows "bit (m OR HEAP_XMIN_COMMITTED) n \<longleftrightarrow> bit m n \<or> n = 8" "bit (m OR HEAP_XMIN_INVALID) n \<longleftrightarrow> bit m n \<or> n = 9"
    "bit (m OR HEAP_XMAX_COMMITTED) n \<longleftrightarrow> bit m n \<or> n = 10" "bit (m OR HEAP_XMAX_INVALID) n \<longleftrightarrow> bit m n \<or> n = 11"
proof -
  have "bit (0x100 :: uint16) n \<longleftrightarrow> n = 8" "bit (0x200 :: uint16) n \<longleftrightarrow> n = 9" "bit (0x400 :: uint16) n \<longleftrightarrow> n = 10"
    "bit (0x800 :: uint16) n \<longleftrightarrow> n = 11"
    by (subst bit16_iff, simp add: upt_16 bit_simps)+
  then show "bit (m OR HEAP_XMIN_COMMITTED) n \<longleftrightarrow> bit m n \<or> n = 8" "bit (m OR HEAP_XMIN_INVALID) n \<longleftrightarrow> bit m n \<or> n = 9"
    "bit (m OR HEAP_XMAX_COMMITTED) n \<longleftrightarrow> bit m n \<or> n = 10" "bit (m OR HEAP_XMAX_INVALID) n \<longleftrightarrow> bit m n \<or> n = 11"
    by (simp_all add: bit_or_iff flag_defs)
qed

end
