(* ===== verification/RowFates.thy ===== *)
theory RowFates
  imports Visibility
begin

text \<open>
  What the tests of \<^verbatim>\<open>src/backend/access/heap/heapam_visibility.c\<close> compute.  A history gives every
  transaction a fate; the laws of \<open>xact_history\<close> say how the questions a test asks depend on it.  The
  lemmas show that each test decides what the fates of the inserting and the deleting transaction
  imply, whatever hints are set and whatever ends in between, that hints stay true, and that a row
  declared dead is not visible to any snapshot at or above the horizon.
\<close>

section \<open>Running a test\<close>

named_theorems vis_run \<open>evaluation of the operations of a test\<close>

lemma run_bind [vis_run]: "run_state (State_Monad.bind m f) s = (case run_state m s of (a, s') \<Rightarrow> run_state (f a) s')"
  by (simp add: State_Monad.bind_def split: prod.split)

lemma run_return [vis_run]: "run_state (State_Monad.return a) s = (a, s)"
  by (simp add: State_Monad.return_def)

lemma run_ops [vis_run]:
  "run_state get_tuple s = (vs_tuple s, s)" "run_state get_snapshot s = (vs_snapshot s, s)"
  "run_state (set_snapshot f) s = ((), s\<lparr>vs_snapshot := f (vs_snapshot s)\<rparr>)"
  "run_state (ask_in_progress env x) s = (is_in_progress env (vs_time s) x, s\<lparr>vs_time := Suc (vs_time s)\<rparr>)"
  "run_state (ask_did_commit env x) s = (did_commit env (vs_time s) x, s\<lparr>vs_time := Suc (vs_time s)\<rparr>)"
  "run_state (ask_in_snapshot env x) s = (in_snapshot env x (vs_snapshot s), s)"
  by (simp_all add: get_tuple_def get_snapshot_def set_snapshot_def ask_in_progress_def ask_did_commit_def ask_in_snapshot_def)

lemma run_if [vis_run]: "run_state (if c then m else m') s = (if c then run_state m s else run_state m' s)"
  by simp

section \<open>The fates of transactions\<close>

datatype fate = Running | Committed | Aborted

text \<open>
  What the tests rely on, for the ids \<open>X\<close> that appear in the row: a transaction ends once; while it
  runs it is reported to be in progress; once it has committed it is reported as ended and committed,
  once it has aborted never as committed; the own transaction is running.  Nothing is assumed of the
  commit log while a transaction runs, nor of the answer for an aborted subtransaction of a running
  transaction.
\<close>

locale xact_history =
  fixes env :: xact_env and fate :: "nat \<Rightarrow> TransactionId \<Rightarrow> fate" and X :: "TransactionId set"
  assumes fate_stable: "x \<in> X \<Longrightarrow> fate t x \<noteq> Running \<Longrightarrow> t \<le> t' \<Longrightarrow> fate t' x = fate t x"
    and running_asked: "x \<in> X \<Longrightarrow> fate t x = Running \<Longrightarrow> is_in_progress env t x"
    and committed_asked: "x \<in> X \<Longrightarrow> fate t x = Committed \<Longrightarrow> \<not> is_in_progress env t x \<and> did_commit env t x"
    and aborted_asked: "x \<in> X \<Longrightarrow> fate t x = Aborted \<Longrightarrow> \<not> did_commit env t x"
    and current_runs: "x \<in> X \<Longrightarrow> is_current env x \<Longrightarrow> fate t x = Running"

text \<open>The transaction that deleted or updated the row, if the header does not rule it out.\<close>

definition deleter :: "xact_env \<Rightarrow> HeapTupleHeaderData \<Rightarrow> TransactionId option" where
  "deleter env tup =
     (if t_infomask tup AND HEAP_XMAX_INVALID \<noteq> 0 \<or> HEAP_XMAX_IS_LOCKED_ONLY (t_infomask tup) then None
      else if t_infomask tup AND HEAP_XMAX_IS_MULTI \<noteq> 0 then Some (HeapTupleGetUpdateXid env tup)
      else Some (t_xmax tup))"

text \<open>
  A sound row at the moment \<open>t\<close>: not moved by an old \<^verbatim>\<open>VACUUM FULL\<close>, hints true, and a row of the
  own transaction is deleted by the own transaction or by a subtransaction that was rolled back.
\<close>

definition row_ok :: "xact_env \<Rightarrow> (nat \<Rightarrow> TransactionId \<Rightarrow> fate) \<Rightarrow> TransactionId set \<Rightarrow> nat \<Rightarrow> HeapTupleHeaderData \<Rightarrow> bool" where
  "row_ok env fate X t tup \<longleftrightarrow>
     t_infomask tup AND HEAP_MOVED_OFF = 0 \<and> t_infomask tup AND HEAP_MOVED_IN = 0
     \<and> (\<not> HeapTupleHeaderXminFrozen tup \<longrightarrow> t_xmin tup \<in> X
          \<and> (HeapTupleHeaderXminCommitted tup \<longrightarrow> fate t (t_xmin tup) = Committed)
          \<and> (HeapTupleHeaderXminInvalid tup \<longrightarrow> fate t (t_xmin tup) = Aborted))
     \<and> (\<forall>x. deleter env tup = Some x \<longrightarrow> x \<in> X
          \<and> (t_infomask tup AND HEAP_XMAX_COMMITTED \<noteq> 0 \<longrightarrow> fate t x = Committed)
          \<and> (\<not> HeapTupleHeaderXminFrozen tup \<longrightarrow> is_current env (t_xmin tup) \<longrightarrow> \<not> is_current env x \<longrightarrow> fate t x = Aborted))"

text \<open>The same row with more hints: a deleter may be ruled out once it has aborted.\<close>

definition more_hints :: "xact_env \<Rightarrow> (nat \<Rightarrow> TransactionId \<Rightarrow> fate) \<Rightarrow> nat \<Rightarrow> HeapTupleHeaderData \<Rightarrow> HeapTupleHeaderData \<Rightarrow> bool" where
  "more_hints env fate t tup tup' \<longleftrightarrow>
     tup' = tup\<lparr>t_infomask := t_infomask tup'\<rparr> \<and> (\<forall>n. n \<notin> {8, 9, 10, 11} \<longrightarrow> bit (t_infomask tup') n = bit (t_infomask tup) n)
     \<and> HeapTupleHeaderXminFrozen tup' = HeapTupleHeaderXminFrozen tup
     \<and> (deleter env tup' = deleter env tup
        \<or> deleter env tup' = None \<and> (\<forall>x. deleter env tup = Some x \<longrightarrow> fate t x = Aborted))"

definition hinted :: "xact_env \<Rightarrow> (nat \<Rightarrow> TransactionId \<Rightarrow> fate) \<Rightarrow> TransactionId set \<Rightarrow> test_state \<Rightarrow> test_state \<Rightarrow> bool" where
  "hinted env fate X s s' \<longleftrightarrow> vs_time s \<le> vs_time s' \<and> row_ok env fate X (vs_time s') (vs_tuple s')
     \<and> more_hints env fate (vs_time s') (vs_tuple s) (vs_tuple s')"

definition add_hint :: "uint16 \<Rightarrow> HeapTupleHeaderData \<Rightarrow> HeapTupleHeaderData" where
  "add_hint m tup = tup\<lparr>t_infomask := t_infomask tup OR m\<rparr>"

lemma run_SetHintBits [vis_run]:
  "run_state (SetHintBits env m x) s =
     (let safe = \<not> (TransactionIdIsValid x \<and> BufferIsPermanent env \<and> XLogNeedsFlush env (commit_lsn env x)
                \<and> BufferGetLSNAtomic env < commit_lsn env x)
      in ((), if safe then s\<lparr>vs_tuple := add_hint m (vs_tuple s), vs_dirty := True\<rparr> else s))"
  by (auto simp: SetHintBits_def mark_hint_def add_hint_def vis_run)

lemma add_hint_sel [simp]:
  "t_xmin (add_hint m tup) = t_xmin tup" "t_xmax (add_hint m tup) = t_xmax tup" "t_field3 (add_hint m tup) = t_field3 tup"
  "t_ctid (add_hint m tup) = t_ctid tup" "t_infomask (add_hint m tup) = t_infomask tup OR m"
  "HeapTupleGetUpdateXid env (add_hint m tup) = HeapTupleGetUpdateXid env tup"
  by (simp_all add: add_hint_def HeapTupleGetUpdateXid_def)

lemma flags_nonzero [simp]: "HEAP_XMIN_COMMITTED \<noteq> 0" "HEAP_XMIN_INVALID \<noteq> 0" "HEAP_XMAX_COMMITTED \<noteq> 0" "HEAP_XMAX_INVALID \<noteq> 0"
  by (simp_all add: flag_defs)

lemma deleter_hint [simp]:
  "deleter env (add_hint HEAP_XMIN_COMMITTED tup) = deleter env tup" "deleter env (add_hint HEAP_XMIN_INVALID tup) = deleter env tup"
  "deleter env (add_hint HEAP_XMAX_COMMITTED tup) = deleter env tup" "deleter env (add_hint HEAP_XMAX_INVALID tup) = None"
  by (simp_all add: deleter_def flag_tests)

lemma more_hints_refl: "more_hints env fate t tup tup"
  by (simp add: more_hints_def)

context xact_history
begin

lemma ended_later:
  "x \<in> X \<Longrightarrow> fate t x = Committed \<Longrightarrow> t \<le> t' \<Longrightarrow> fate t' x = Committed"
  "x \<in> X \<Longrightarrow> fate t x = Aborted \<Longrightarrow> t \<le> t' \<Longrightarrow> fate t' x = Aborted"
  using fate_stable[of x t t'] by simp_all

lemma row_ok_later:
  assumes "row_ok env fate X t tup" "t \<le> t'"
  shows "row_ok env fate X t' tup"
  using assms(1) ended_later[OF _ _ assms(2)] unfolding row_ok_def by simp

lemma more_hints_later:
  assumes "more_hints env fate t tup tup'" "row_ok env fate X t tup" "t \<le> t'"
  shows "more_hints env fate t' tup tup'"
  using assms(1,2) ended_later(2)[OF _ _ assms(3)] unfolding more_hints_def row_ok_def by auto

lemma hinted_later:
  assumes "row_ok env fate X (vs_time s) (vs_tuple s)" "vs_time s \<le> vs_time s'" "vs_tuple s' = vs_tuple s"
  shows "hinted env fate X s s'"
  using assms row_ok_later by (simp add: hinted_def more_hints_refl)

lemma hint_xmin_committed:
  assumes "row_ok env fate X t tup" "fate t (t_xmin tup) = Committed" "\<not> HeapTupleHeaderXminInvalid tup"
  shows "row_ok env fate X t (add_hint HEAP_XMIN_COMMITTED tup)" "more_hints env fate t tup (add_hint HEAP_XMIN_COMMITTED tup)"
  using assms by (auto simp: row_ok_def more_hints_def flag_tests add_hint_def[symmetric])

lemma hint_xmin_invalid:
  assumes "row_ok env fate X t tup" "fate t (t_xmin tup) = Aborted" "\<not> HeapTupleHeaderXminCommitted tup"
  shows "row_ok env fate X t (add_hint HEAP_XMIN_INVALID tup)" "more_hints env fate t tup (add_hint HEAP_XMIN_INVALID tup)"
  using assms by (auto simp: row_ok_def more_hints_def flag_tests add_hint_def[symmetric])

lemma hint_xmax_invalid:
  assumes "row_ok env fate X t tup" "\<And>x. deleter env tup = Some x \<Longrightarrow> fate t x = Aborted"
  shows "row_ok env fate X t (add_hint HEAP_XMAX_INVALID tup)" "more_hints env fate t tup (add_hint HEAP_XMAX_INVALID tup)"
  using assms by (auto simp: row_ok_def more_hints_def flag_tests add_hint_def[symmetric])

lemma hint_xmax_committed:
  assumes "row_ok env fate X t tup" "\<And>x. deleter env tup = Some x \<Longrightarrow> fate t x = Committed"
  shows "row_ok env fate X t (add_hint HEAP_XMAX_COMMITTED tup)" "more_hints env fate t tup (add_hint HEAP_XMAX_COMMITTED tup)"
  using assms by (auto simp: row_ok_def more_hints_def flag_tests add_hint_def[symmetric])

lemma more_hints_trans:
  assumes "more_hints env fate t tup tup'" "more_hints env fate t tup' tup''"
  shows "more_hints env fate t tup tup''"
proof -
  have "tup'' = tup\<lparr>t_infomask := t_infomask tup''\<rparr>"
    using assms unfolding more_hints_def by (cases tup; cases tup'; cases tup'') simp
  then show ?thesis using assms unfolding more_hints_def by auto
qed

lemma hinted_trans:
  assumes "row_ok env fate X (vs_time s) (vs_tuple s)" "hinted env fate X s s'" "hinted env fate X s' s''"
  shows "hinted env fate X s s''"
proof -
  have le: "vs_time s' \<le> vs_time s''" "vs_time s \<le> vs_time s'" using assms by (simp_all add: hinted_def)
  have "row_ok env fate X (vs_time s') (vs_tuple s)" using assms(1) le(2) row_ok_later by blast
  then have "more_hints env fate (vs_time s'') (vs_tuple s) (vs_tuple s')"
    using more_hints_later[OF _ _ le(1)] assms(2) by (simp add: hinted_def)
  then show ?thesis using assms(3) le more_hints_trans by (auto simp: hinted_def)
qed

end

section \<open>What a test leaves\<close>

definition post :: "'a vis \<Rightarrow> test_state \<Rightarrow> ('a \<Rightarrow> test_state \<Rightarrow> bool) \<Rightarrow> bool" where
  "post m s Q = (case run_state m s of (r, s') \<Rightarrow> Q r s')"

definition tick :: "test_state \<Rightarrow> test_state" where
  "tick s = s\<lparr>vs_time := Suc (vs_time s)\<rparr>"

definition hint :: "uint16 \<Rightarrow> test_state \<Rightarrow> test_state" where
  "hint m s = s\<lparr>vs_tuple := add_hint m (vs_tuple s), vs_dirty := True\<rparr>"

lemma tick_hint_sel [simp]:
  "vs_time (tick s) = Suc (vs_time s)" "vs_tuple (tick s) = vs_tuple s" "vs_snapshot (tick s) = vs_snapshot s"
  "vs_time (hint m s) = vs_time s" "vs_tuple (hint m s) = add_hint m (vs_tuple s)" "vs_snapshot (hint m s) = vs_snapshot s"
  by (simp_all add: tick_def hint_def)

definition hint_safe :: "xact_env \<Rightarrow> TransactionId \<Rightarrow> bool" where
  "hint_safe env x \<longleftrightarrow> \<not> (TransactionIdIsValid x \<and> BufferIsPermanent env \<and> XLogNeedsFlush env (commit_lsn env x)
                \<and> BufferGetLSNAtomic env < commit_lsn env x)"

named_theorems posts \<open>what the operations of a test leave\<close>

lemma post_bind [posts]: "post (State_Monad.bind m f) s Q = post m s (\<lambda>a s'. post (f a) s' Q)"
  by (simp add: post_def vis_run split: prod.split)

lemma post_ops [posts]:
  "post (State_Monad.return a) s Q = Q a s" "post get_tuple s Qt = Qt (vs_tuple s) s" "post get_snapshot s Qs = Qs (vs_snapshot s) s"
  "post (set_snapshot f) s Qu = Qu () (s\<lparr>vs_snapshot := f (vs_snapshot s)\<rparr>)"
  "post (ask_in_progress env x) s Qb = Qb (is_in_progress env (vs_time s) x) (tick s)"
  "post (ask_did_commit env x) s Qb = Qb (did_commit env (vs_time s) x) (tick s)"
  "post (ask_in_snapshot env x) s Qb = Qb (in_snapshot env x (vs_snapshot s)) s"
  "post (SetHintBits env m x) s Qu = (if hint_safe env x then Qu () (hint m s) else Qu () s)"
  by (simp_all add: post_def vis_run tick_def hint_def hint_safe_def Let_def)

lemma post_if [posts]: "post (if c then m else m') s Q = (if c then post m s Q else post m' s Q)"
  by simp

lemma post_mono:
  assumes "post m s Q" "\<And>r s'. Q r s' \<Longrightarrow> R r s'"
  shows "post m s R"
  using assms by (auto simp: post_def)

section \<open>Visibility in a snapshot\<close>

text \<open>The abstract rule: a change by the own transaction is seen if an earlier command made it, a
  change by another transaction if it has committed and the snapshot does not count it as running.\<close>

definition sees :: "xact_env \<Rightarrow> (nat \<Rightarrow> TransactionId \<Rightarrow> fate) \<Rightarrow> nat \<Rightarrow> SnapshotData \<Rightarrow> CommandId \<Rightarrow> TransactionId \<Rightarrow> bool" where
  "sees env fate t snap cid x \<longleftrightarrow>
     (if is_current env x then cid < curcid snap else \<not> in_snapshot env x snap \<and> fate t x = Committed)"

definition insert_seen :: "xact_env \<Rightarrow> (nat \<Rightarrow> TransactionId \<Rightarrow> fate) \<Rightarrow> nat \<Rightarrow> SnapshotData \<Rightarrow> HeapTupleHeaderData \<Rightarrow> bool" where
  "insert_seen env fate t snap tup \<longleftrightarrow>
     HeapTupleHeaderXminFrozen tup \<or> sees env fate t snap (HeapTupleHeaderGetCmin env tup) (t_xmin tup)"

definition delete_seen :: "xact_env \<Rightarrow> (nat \<Rightarrow> TransactionId \<Rightarrow> fate) \<Rightarrow> nat \<Rightarrow> SnapshotData \<Rightarrow> HeapTupleHeaderData \<Rightarrow> bool" where
  "delete_seen env fate t snap tup \<longleftrightarrow>
     (case deleter env tup of None \<Rightarrow> False | Some x \<Rightarrow> sees env fate t snap (HeapTupleHeaderGetCmax env tup) x)"

definition mvcc_visible :: "xact_env \<Rightarrow> (nat \<Rightarrow> TransactionId \<Rightarrow> fate) \<Rightarrow> nat \<Rightarrow> SnapshotData \<Rightarrow> HeapTupleHeaderData \<Rightarrow> bool" where
  "mvcc_visible env fate t snap tup \<longleftrightarrow> insert_seen env fate t snap tup \<and> \<not> delete_seen env fate t snap tup"

text \<open>A snapshot is complete when what it does not count as running has ended.\<close>

definition snapshot_ok :: "xact_env \<Rightarrow> (nat \<Rightarrow> TransactionId \<Rightarrow> fate) \<Rightarrow> TransactionId set \<Rightarrow> nat \<Rightarrow> SnapshotData \<Rightarrow> bool" where
  "snapshot_ok env fate X t snap \<longleftrightarrow>
     (\<forall>x \<in> X. \<not> is_current env x \<longrightarrow> \<not> in_snapshot env x snap \<longrightarrow> fate t x \<noteq> Running)"

context xact_history
begin

lemma commit_asked:
  assumes "x \<in> X" "fate t x \<noteq> Running" "t \<le> t'"
  shows "did_commit env t' x \<longleftrightarrow> fate t x = Committed"
  using assms fate_stable[of x t t'] committed_asked[of x t'] aborted_asked[of x t'] by (cases "fate t x") auto

lemma sees_later:
  assumes "x \<in> X" "snapshot_ok env fate X t snap" "t \<le> t'"
  shows "sees env fate t' snap cid x = sees env fate t snap cid x"
  using assms fate_stable[of x t t'] by (auto simp: sees_def snapshot_ok_def)

lemma snapshot_ok_later:
  assumes "snapshot_ok env fate X t snap" "t \<le> t'"
  shows "snapshot_ok env fate X t' snap"
  using assms fate_stable[of _ t t'] by (fastforce simp: snapshot_ok_def)

lemma more_hints_same:
  assumes "more_hints env fate t tup tup'"
  shows "t_xmin tup' = t_xmin tup" "t_xmax tup' = t_xmax tup" "t_field3 tup' = t_field3 tup" "t_ctid tup' = t_ctid tup"
    "HeapTupleHeaderGetCmin env tup' = HeapTupleHeaderGetCmin env tup"
    "HeapTupleHeaderGetCmax env tup' = HeapTupleHeaderGetCmax env tup"
    "HeapTupleHeaderXminFrozen tup' = HeapTupleHeaderXminFrozen tup"
proof -
  have b: "bit (t_infomask tup') 5 = bit (t_infomask tup) 5" using assms by (simp add: more_hints_def)
  show eq: "t_xmin tup' = t_xmin tup" "t_xmax tup' = t_xmax tup" "t_field3 tup' = t_field3 tup" "t_ctid tup' = t_ctid tup"
    using assms unfolding more_hints_def by (cases tup; cases tup'; simp)+
  show "HeapTupleHeaderGetCmin env tup' = HeapTupleHeaderGetCmin env tup"
    "HeapTupleHeaderGetCmax env tup' = HeapTupleHeaderGetCmax env tup"
    using b eq by (simp_all add: HeapTupleHeaderGetCmin_def HeapTupleHeaderGetCmax_def flag_tests)
  show "HeapTupleHeaderXminFrozen tup' = HeapTupleHeaderXminFrozen tup" using assms by (simp add: more_hints_def)
qed

lemma aborted_unseen: "x \<in> X \<Longrightarrow> fate t x = Aborted \<Longrightarrow> \<not> sees env fate t snap cid x"
  using current_runs by (auto simp: sees_def)

text \<open>No hint changes what a snapshot sees, then or later.\<close>

lemma mvcc_hinted:
  assumes "row_ok env fate X (vs_time s) (vs_tuple s)" "hinted env fate X s s'" "snapshot_ok env fate X (vs_time s) snap"
  shows "insert_seen env fate (vs_time s') snap (vs_tuple s') = insert_seen env fate (vs_time s) snap (vs_tuple s)"
    "delete_seen env fate (vs_time s') snap (vs_tuple s') = delete_seen env fate (vs_time s) snap (vs_tuple s)"
proof -
  have h: "more_hints env fate (vs_time s') (vs_tuple s) (vs_tuple s')" and le: "vs_time s \<le> vs_time s'"
    using assms(2) by (simp_all add: hinted_def)
  note same = more_hints_same[OF h]
  show "insert_seen env fate (vs_time s') snap (vs_tuple s') = insert_seen env fate (vs_time s) snap (vs_tuple s)"
    using sees_later[OF _ assms(3) le] assms(1) by (auto simp: insert_seen_def same row_ok_def)
  have "sees env fate (vs_time s') snap cid x = sees env fate (vs_time s) snap cid x" if "deleter env (vs_tuple s) = Some x" for x cid
    using sees_later[OF _ assms(3) le] assms(1) that by (simp add: row_ok_def)
  moreover have "\<not> sees env fate (vs_time s') snap cid x"
    if "deleter env (vs_tuple s) = Some x" "fate (vs_time s') x = Aborted" for x cid
    using aborted_unseen assms(1) that by (simp add: row_ok_def)
  ultimately show "delete_seen env fate (vs_time s') snap (vs_tuple s') = delete_seen env fate (vs_time s) snap (vs_tuple s)"
    using h by (auto simp: delete_seen_def same more_hints_def split: option.splits)
qed

lemma hinted_refl: "row_ok env fate X (vs_time s) (vs_tuple s) \<Longrightarrow> hinted env fate X s s"
  by (simp add: hinted_def more_hints_refl)

lemma hinted_tick: "row_ok env fate X (vs_time s) (vs_tuple s) \<Longrightarrow> hinted env fate X s (tick s)"
  by (simp add: hinted_later)

lemma hinted_hint:
  assumes ok: "row_ok env fate X (vs_time s) (vs_tuple s)" and s': "vs_tuple s' = vs_tuple s" "vs_time s \<le> vs_time s'"
  shows "fate (vs_time s') (t_xmin (vs_tuple s)) = Committed \<Longrightarrow> \<not> HeapTupleHeaderXminInvalid (vs_tuple s)
      \<Longrightarrow> hinted env fate X s (hint HEAP_XMIN_COMMITTED s')"
    and "fate (vs_time s') (t_xmin (vs_tuple s)) = Aborted \<Longrightarrow> \<not> HeapTupleHeaderXminCommitted (vs_tuple s)
      \<Longrightarrow> hinted env fate X s (hint HEAP_XMIN_INVALID s')"
    and "(\<And>x. deleter env (vs_tuple s) = Some x \<Longrightarrow> fate (vs_time s') x = Aborted)
      \<Longrightarrow> hinted env fate X s (hint HEAP_XMAX_INVALID s')"
    and "(\<And>x. deleter env (vs_tuple s) = Some x \<Longrightarrow> fate (vs_time s') x = Committed)
      \<Longrightarrow> hinted env fate X s (hint HEAP_XMAX_COMMITTED s')"
proof -
  note later = row_ok_later[OF ok s'(2)]
  show "fate (vs_time s') (t_xmin (vs_tuple s)) = Committed \<Longrightarrow> \<not> HeapTupleHeaderXminInvalid (vs_tuple s)
      \<Longrightarrow> hinted env fate X s (hint HEAP_XMIN_COMMITTED s')"
    using hint_xmin_committed[OF later] s' by (simp add: hinted_def)
  show "fate (vs_time s') (t_xmin (vs_tuple s)) = Aborted \<Longrightarrow> \<not> HeapTupleHeaderXminCommitted (vs_tuple s)
      \<Longrightarrow> hinted env fate X s (hint HEAP_XMIN_INVALID s')"
    using hint_xmin_invalid[OF later] s' by (simp add: hinted_def)
  show "(\<And>x. deleter env (vs_tuple s) = Some x \<Longrightarrow> fate (vs_time s') x = Aborted)
      \<Longrightarrow> hinted env fate X s (hint HEAP_XMAX_INVALID s')"
    using hint_xmax_invalid[OF later] s' by (simp add: hinted_def)
  show "(\<And>x. deleter env (vs_tuple s) = Some x \<Longrightarrow> fate (vs_time s') x = Committed)
      \<Longrightarrow> hinted env fate X s (hint HEAP_XMAX_COMMITTED s')"
    using hint_xmax_committed[OF later] s' by (simp add: hinted_def)
qed

lemma inserter_ended_post:
  assumes ok: "row_ok env fate X (vs_time s) (vs_tuple s)"
    and s: "\<not> HeapTupleHeaderXminCommitted (vs_tuple s)" "\<not> HeapTupleHeaderXminInvalid (vs_tuple s)"
    and ended: "fate (vs_time s) (t_xmin (vs_tuple s)) \<noteq> Running"
  shows "post (inserter_ended env no) s (\<lambda>r s'. hinted env fate X s s' \<and> vs_snapshot s' = vs_snapshot s
      \<and> (if fate (vs_time s) (t_xmin (vs_tuple s)) = Committed then r = None else r = Some no))"
proof -
  have x: "t_xmin (vs_tuple s) \<in> X" using ok s by (auto simp: row_ok_def flag_tests)
  note c = commit_asked[OF x ended order.refl]
  have later: "fate (vs_time (tick s)) (t_xmin (vs_tuple s)) = fate (vs_time s) (t_xmin (vs_tuple s))"
    using fate_stable[OF x ended, of "vs_time (tick s)"] by simp
  show ?thesis
  proof (cases "fate (vs_time s) (t_xmin (vs_tuple s))")
    case Committed
    then show ?thesis
      using c later s(2) hinted_hint(1)[OF ok, of "tick s"] hinted_tick[OF ok] by (simp add: inserter_ended_def posts)
  next
    case Aborted
    then show ?thesis
      using c later s(1) hinted_hint(2)[OF ok, of "tick s"] hinted_tick[OF ok] by (simp add: inserter_ended_def posts)
  qed (use ended in simp)
qed

lemma row_inserter:
  assumes "row_ok env fate X t tup" "\<not> HeapTupleHeaderXminFrozen tup"
  shows "t_xmin tup \<in> X" "HeapTupleHeaderXminCommitted tup \<Longrightarrow> fate t (t_xmin tup) = Committed"
    "HeapTupleHeaderXminInvalid tup \<Longrightarrow> fate t (t_xmin tup) = Aborted"
  using assms by (simp_all add: row_ok_def)

lemma row_deleter:
  assumes "row_ok env fate X t tup" "deleter env tup = Some x"
  shows "x \<in> X" "t_infomask tup AND HEAP_XMAX_COMMITTED \<noteq> 0 \<Longrightarrow> fate t x = Committed"
    "\<not> HeapTupleHeaderXminFrozen tup \<Longrightarrow> is_current env (t_xmin tup) \<Longrightarrow> \<not> is_current env x \<Longrightarrow> fate t x = Aborted"
  using assms by (simp_all add: row_ok_def)

lemma not_moved: "row_ok env fate X t tup \<Longrightarrow> t_infomask tup AND HEAP_MOVED_OFF = 0 \<and> t_infomask tup AND HEAP_MOVED_IN = 0"
  by (simp add: row_ok_def)

lemma mvcc_own_post:
  assumes ok: "row_ok env fate X (vs_time s) (vs_tuple s)" and own: "\<not> HeapTupleHeaderXminFrozen (vs_tuple s)" "is_current env (t_xmin (vs_tuple s))"
  shows "post (mvcc_own env) s (\<lambda>r s'. hinted env fate X s s' \<and> vs_snapshot s' = vs_snapshot s
      \<and> r = mvcc_visible env fate (vs_time s) (vs_snapshot s) (vs_tuple s))"
proof -
  have unseen: "\<not> sees env fate (vs_time s) snap cid x" "fate (vs_time s) x = Aborted"
    if "deleter env (vs_tuple s) = Some x" "\<not> is_current env x" for x snap cid
    using row_deleter[OF ok that(1)] own that(2) by (auto simp: sees_def)
  show ?thesis
    using own hinted_refl[OF ok] hinted_hint(3)[OF ok refl order.refl] unseen
    by (auto simp: mvcc_own_def posts mvcc_visible_def insert_seen_def delete_seen_def deleter_def sees_def not_le
        split: option.splits)
qed

lemma mvcc_xmin_post:
  assumes ok: "row_ok env fate X (vs_time s) (vs_tuple s)" and snap: "snapshot_ok env fate X (vs_time s) (vs_snapshot s)"
  shows "post (mvcc_xmin env) s (\<lambda>r s'. hinted env fate X s s' \<and> vs_snapshot s' = vs_snapshot s
      \<and> (case r of Some b \<Rightarrow> b = mvcc_visible env fate (vs_time s) (vs_snapshot s) (vs_tuple s)
          | None \<Rightarrow> insert_seen env fate (vs_time s) (vs_snapshot s) (vs_tuple s)))"
    (is "post _ s ?Q")
proof (cases "HeapTupleHeaderXminCommitted (vs_tuple s) \<or> HeapTupleHeaderXminInvalid (vs_tuple s)")
  case True
  then show ?thesis
    using hinted_refl[OF ok] row_inserter[OF ok] current_runs[of "t_xmin (vs_tuple s)"]
    by (auto simp: mvcc_xmin_def posts mvcc_visible_def insert_seen_def sees_def flag_tests)
next
  case False
  then have new: "\<not> HeapTupleHeaderXminFrozen (vs_tuple s)" by (auto simp: flag_tests)
  note x = row_inserter[OF ok new]
  show ?thesis
  proof (cases "is_current env (t_xmin (vs_tuple s)) \<or> in_snapshot env (t_xmin (vs_tuple s)) (vs_snapshot s)")
    case True
    then show ?thesis
      using False new not_moved[OF ok] hinted_refl[OF ok] post_mono[OF mvcc_own_post[OF ok new]]
      by (auto simp: mvcc_xmin_def posts mvcc_visible_def insert_seen_def sees_def)
  next
    case other: False
    then have "fate (vs_time s) (t_xmin (vs_tuple s)) \<noteq> Running" using snap x(1) by (auto simp: snapshot_ok_def)
    from post_mono[OF inserter_ended_post[OF ok _ _ this, of False], of ?Q] show ?thesis
      using False other new not_moved[OF ok]
      by (auto simp: mvcc_xmin_def posts mvcc_visible_def insert_seen_def sees_def split: if_splits)
  qed
qed

lemma mvcc_xmax_post:
  assumes ok: "row_ok env fate X (vs_time s) (vs_tuple s)" and snap: "snapshot_ok env fate X (vs_time s) (vs_snapshot s)"
  shows "post (mvcc_xmax env) s (\<lambda>r s'. hinted env fate X s s' \<and> vs_snapshot s' = vs_snapshot s
      \<and> r = (\<not> delete_seen env fate (vs_time s) (vs_snapshot s) (vs_tuple s)))"
proof (cases "deleter env (vs_tuple s)")
  case None
  then show ?thesis using hinted_refl[OF ok]
    by (auto simp: mvcc_xmax_def posts delete_seen_def deleter_def split: if_splits)
next
  case (Some x)
  note d = row_deleter[OF ok Some]
  have x: "t_infomask (vs_tuple s) AND HEAP_XMAX_IS_MULTI \<noteq> 0 \<Longrightarrow> HeapTupleGetUpdateXid env (vs_tuple s) = x"
    "t_infomask (vs_tuple s) AND HEAP_XMAX_IS_MULTI = 0 \<Longrightarrow> t_xmax (vs_tuple s) = x"
    "t_infomask (vs_tuple s) AND HEAP_XMAX_INVALID = 0" "\<not> HEAP_XMAX_IS_LOCKED_ONLY (t_infomask (vs_tuple s))"
    using Some by (auto simp: deleter_def split: if_splits)
  show ?thesis
  proof (cases "is_current env x \<or> in_snapshot env x (vs_snapshot s)")
    case True
    then show ?thesis using x Some d(2) current_runs[OF d(1)] hinted_refl[OF ok]
      by (auto simp: mvcc_xmax_def posts delete_seen_def sees_def not_le Let_def)
  next
    case False
    then have ended: "fate (vs_time s) x \<noteq> Running" using snap d(1) by (simp add: snapshot_ok_def)
    note c = commit_asked[OF d(1) ended order.refl]
    have later: "fate (Suc (vs_time s)) x = fate (vs_time s) x" using fate_stable[OF d(1) ended, of "Suc (vs_time s)"] by simp
    show ?thesis
    proof (cases "fate (vs_time s) x")
      case Committed
      then show ?thesis
        using x Some c later False hinted_refl[OF ok] hinted_tick[OF ok] hinted_hint(4)[OF ok, of "tick s"]
        by (simp add: mvcc_xmax_def posts delete_seen_def sees_def Let_def)
    next
      case Aborted
      then show ?thesis
        using x Some c d(2) later False hinted_tick[OF ok] hinted_hint(3)[OF ok, of "tick s"]
        by (auto simp: mvcc_xmax_def posts delete_seen_def sees_def Let_def)
    qed (use ended in simp)
  qed
qed

lemma HeapTupleSatisfiesMVCC_post:
  assumes ok: "row_ok env fate X (vs_time s) (vs_tuple s)" and snap: "snapshot_ok env fate X (vs_time s) (vs_snapshot s)"
  shows "post (HeapTupleSatisfiesMVCC env) s (\<lambda>r s'. hinted env fate X s s' \<and> vs_snapshot s' = vs_snapshot s
      \<and> r = mvcc_visible env fate (vs_time s) (vs_snapshot s) (vs_tuple s))" (is "post _ s ?Q")
  unfolding HeapTupleSatisfiesMVCC_def post_bind
proof (rule post_mono[OF mvcc_xmin_post[OF assms]])
  fix r s'
  assume r: "hinted env fate X s s' \<and> vs_snapshot s' = vs_snapshot s
      \<and> (case r of Some b \<Rightarrow> b = mvcc_visible env fate (vs_time s) (vs_snapshot s) (vs_tuple s)
          | None \<Rightarrow> insert_seen env fate (vs_time s) (vs_snapshot s) (vs_tuple s))"
  then have ok': "row_ok env fate X (vs_time s') (vs_tuple s')" and le: "vs_time s \<le> vs_time s'" by (auto simp: hinted_def)
  show "post (case r of None \<Rightarrow> mvcc_xmax env | Some res \<Rightarrow> State_Monad.return res) s' ?Q"
  proof (cases r)
    case None
    have "snapshot_ok env fate X (vs_time s') (vs_snapshot s')" using snapshot_ok_later[OF snap le] r by simp
    from post_mono[OF mvcc_xmax_post[OF ok' this], of ?Q] show ?thesis
      using r None hinted_trans[OF ok] mvcc_hinted(2)[OF ok _ snap, of s'] by (auto simp: mvcc_visible_def)
  qed (use r in \<open>auto simp: posts\<close>)
qed

end

section \<open>Visibility at a moment\<close>

text \<open>What the tests without a snapshot ask for: the state of the row at one moment.\<close>

definition inserted :: "xact_env \<Rightarrow> (nat \<Rightarrow> TransactionId \<Rightarrow> fate) \<Rightarrow> nat \<Rightarrow> HeapTupleHeaderData \<Rightarrow> bool" where
  "inserted env fate t tup \<longleftrightarrow> HeapTupleHeaderXminFrozen tup \<or> is_current env (t_xmin tup) \<or> fate t (t_xmin tup) = Committed"

definition deleted :: "xact_env \<Rightarrow> (nat \<Rightarrow> TransactionId \<Rightarrow> fate) \<Rightarrow> nat \<Rightarrow> HeapTupleHeaderData \<Rightarrow> bool" where
  "deleted env fate t tup \<longleftrightarrow> (case deleter env tup of None \<Rightarrow> False | Some x \<Rightarrow> is_current env x \<or> fate t x = Committed)"

definition row_at :: "xact_env \<Rightarrow> (nat \<Rightarrow> TransactionId \<Rightarrow> fate) \<Rightarrow> nat \<Rightarrow> HeapTupleHeaderData \<Rightarrow> bool" where
  "row_at env fate t tup \<longleftrightarrow> inserted env fate t tup \<and> \<not> deleted env fate t tup"

definition moment :: "test_state \<Rightarrow> test_state \<Rightarrow> (nat \<Rightarrow> bool) \<Rightarrow> bool" where
  "moment s s' P \<longleftrightarrow> (\<exists>t. vs_time s \<le> t \<and> t \<le> vs_time s' \<and> P t)"

lemma moment_start: "P (vs_time s) \<Longrightarrow> vs_time s \<le> vs_time s' \<Longrightarrow> moment s s' P"
  by (auto simp: moment_def)

lemma moment_end: "P (vs_time s') \<Longrightarrow> vs_time s \<le> vs_time s' \<Longrightarrow> moment s s' P"
  by (auto simp: moment_def)

lemma deleter_multi:
  assumes "deleter env tup = Some x"
  shows "t_infomask tup AND HEAP_XMAX_IS_MULTI \<noteq> 0 \<Longrightarrow> HeapTupleGetUpdateXid env tup = x"
    "t_infomask tup AND HEAP_XMAX_IS_MULTI = 0 \<Longrightarrow> t_xmax tup = x"
    "t_infomask tup AND HEAP_XMAX_INVALID = 0" "\<not> HEAP_XMAX_IS_LOCKED_ONLY (t_infomask tup)"
  using assms by (auto simp: deleter_def split: if_splits)

lemma hinted_time: "hinted env fate X s s' \<Longrightarrow> vs_time s \<le> vs_time s'"
  by (simp add: hinted_def)

context xact_history
begin

lemma progress_asked:
  assumes "x \<in> X"
  shows "is_in_progress env t x \<Longrightarrow> fate t x \<noteq> Committed" "\<not> is_in_progress env t x \<Longrightarrow> fate t x \<noteq> Running"
  using assms running_asked committed_asked by blast+

text \<open>The inserting transaction was not in progress when asked, then the log is read.\<close>

lemma inserter_asked_post:
  assumes ok: "row_ok env fate X (vs_time s) (vs_tuple s)"
    and new: "\<not> HeapTupleHeaderXminCommitted (vs_tuple s)" "\<not> HeapTupleHeaderXminInvalid (vs_tuple s)"
    and asked: "\<not> is_in_progress env (vs_time s) (t_xmin (vs_tuple s))"
  shows "post (inserter_ended env no) (tick s) (\<lambda>r s'. hinted env fate X s s' \<and> vs_snapshot s' = vs_snapshot s
      \<and> (r = None \<and> fate (vs_time s') (t_xmin (vs_tuple s)) = Committed
          \<or> r = Some no \<and> fate (vs_time s') (t_xmin (vs_tuple s)) = Aborted))" (is "post _ _ ?Q")
proof -
  have x: "t_xmin (vs_tuple s) \<in> X" using ok new by (auto simp: row_ok_def flag_tests)
  have ended: "fate (vs_time s) (t_xmin (vs_tuple s)) \<noteq> Running" by (rule progress_asked(2)[OF x asked])
  note later = fate_stable[OF x ended]
  have t: "row_ok env fate X (vs_time (tick s)) (vs_tuple (tick s))" using hinted_tick[OF ok] by (simp add: hinted_def)
  have e: "fate (vs_time (tick s)) (t_xmin (vs_tuple (tick s))) \<noteq> Running"
    using later[of "vs_time (tick s)"] ended by simp
  have "?Q r s'" if q: "hinted env fate X (tick s) s' \<and> vs_snapshot s' = vs_snapshot (tick s)
      \<and> (if fate (vs_time (tick s)) (t_xmin (vs_tuple (tick s))) = Committed then r = None else r = Some no)" for r s'
  proof -
    have "vs_time s \<le> vs_time s'" using hinted_time[of env fate X "tick s" s'] q by simp
    then show ?thesis
      using q ended later[of "vs_time s'"] later[of "Suc (vs_time s)"] hinted_trans[OF ok hinted_tick[OF ok], of s']
      by (cases "fate (vs_time s) (t_xmin (vs_tuple s))") auto
  qed
  from post_mono[OF inserter_ended_post[OF t _ _ e, of no] this] show ?thesis using new by simp
qed

lemma self_own_post:
  assumes ok: "row_ok env fate X (vs_time s) (vs_tuple s)" and own: "\<not> HeapTupleHeaderXminFrozen (vs_tuple s)" "is_current env (t_xmin (vs_tuple s))"
  shows "post (self_own env) s (\<lambda>r s'. hinted env fate X s s' \<and> vs_snapshot s' = vs_snapshot s
      \<and> r = row_at env fate (vs_time s) (vs_tuple s))"
proof -
  have unseen: "fate (vs_time s) x = Aborted"
    if "deleter env (vs_tuple s) = Some x" "\<not> is_current env x" for x
    using row_deleter[OF ok that(1)] own that(2) by auto
  show ?thesis
    using own hinted_refl[OF ok] hinted_hint(3)[OF ok refl order.refl] unseen
    by (auto simp: self_own_def posts row_at_def inserted_def deleted_def deleter_def split: option.splits)
qed

lemma self_xmin_post:
  assumes ok: "row_ok env fate X (vs_time s) (vs_tuple s)"
  shows "post (self_xmin env) s (\<lambda>r s'. hinted env fate X s s' \<and> vs_snapshot s' = vs_snapshot s
      \<and> (case r of Some b \<Rightarrow> moment s s' (\<lambda>t. b = row_at env fate t (vs_tuple s))
          | None \<Rightarrow> inserted env fate (vs_time s') (vs_tuple s)))"
    (is "post _ s ?Q")
proof (cases "HeapTupleHeaderXminCommitted (vs_tuple s) \<or> HeapTupleHeaderXminInvalid (vs_tuple s)")
  case True
  then show ?thesis
    using hinted_refl[OF ok] row_inserter[OF ok] current_runs[of "t_xmin (vs_tuple s)"]
    by (auto simp: self_xmin_def posts row_at_def inserted_def flag_tests intro!: moment_start)
next
  case False
  then have new: "\<not> HeapTupleHeaderXminFrozen (vs_tuple s)" by (auto simp: flag_tests)
  note x = row_inserter[OF ok new]
  show ?thesis
  proof (cases "is_current env (t_xmin (vs_tuple s)) \<or> is_in_progress env (vs_time s) (t_xmin (vs_tuple s))")
    case True
    show ?thesis
    proof (cases "is_current env (t_xmin (vs_tuple s))")
      case cur: True
      show ?thesis
        using False cur not_moved[OF ok] by (auto simp: self_xmin_def posts intro!: post_mono[OF self_own_post[OF ok new cur]] moment_start hinted_time)
    next
      case other: False
      then show ?thesis
        using True False new not_moved[OF ok] hinted_tick[OF ok] progress_asked(1)[OF x(1)]
        by (auto simp: self_xmin_def posts row_at_def inserted_def intro!: moment_start)
    qed
  next
    case other: False
    then show ?thesis
      using False not_moved[OF ok] current_runs[OF x(1)]
      by (auto simp: self_xmin_def posts inserted_def row_at_def new
          intro!: post_mono[OF inserter_asked_post[OF ok]] moment_end dest: hinted_time)
  qed
qed

lemma self_xmax_post:
  assumes ok: "row_ok env fate X (vs_time s) (vs_tuple s)"
  shows "post (self_xmax env) s (\<lambda>r s'. hinted env fate X s s' \<and> vs_snapshot s' = vs_snapshot s
      \<and> moment s s' (\<lambda>t. r = (\<not> deleted env fate t (vs_tuple s))))"
proof (cases "deleter env (vs_tuple s)")
  case None
  then show ?thesis using hinted_refl[OF ok] hinted_tick[OF ok] hinted_hint(3)[OF ok, of "tick (tick s)"] hinted_later[OF ok, of "tick (tick s)"]
    by (auto simp: self_xmax_def posts deleted_def deleter_def split: if_splits intro!: moment_start)
next
  case (Some x)
  note d = row_deleter[OF ok Some] and x = deleter_multi[OF Some]
  show ?thesis
  proof (cases "is_current env x \<or> t_infomask (vs_tuple s) AND HEAP_XMAX_COMMITTED \<noteq> 0 \<or> is_in_progress env (vs_time s) x")
    case True
    then show ?thesis using x Some d(2) current_runs[OF d(1)] progress_asked[OF d(1), of "vs_time s"] hinted_refl[OF ok] hinted_tick[OF ok]
      by (auto simp: self_xmax_def posts deleted_def Let_def committed_asked intro!: moment_start)
  next
    case False
    then have ended: "fate (vs_time s) x \<noteq> Running" using progress_asked(2)[OF d(1)] by simp
    have c: "did_commit env (vs_time (tick s)) x \<longleftrightarrow> fate (vs_time s) x = Committed" by (rule commit_asked[OF d(1) ended]) simp
    have later: "fate (vs_time (tick (tick s))) x = fate (vs_time s) x" by (rule fate_stable[OF d(1) ended]) simp
    have later2: "hinted env fate X s (tick (tick s))" by (rule hinted_later[OF ok]) simp_all
    show ?thesis
    proof (cases "fate (vs_time s) x")
      case Committed
      then show ?thesis
        using x Some c later False later2 hinted_hint(4)[OF ok, of "tick (tick s)"]
        by (auto simp: self_xmax_def posts deleted_def Let_def intro!: moment_start)
    next
      case Aborted
      then show ?thesis
        using x Some c later False later2 hinted_hint(3)[OF ok, of "tick (tick s)"]
        by (auto simp: self_xmax_def posts deleted_def Let_def intro!: moment_start)
    qed (use ended in simp)
  qed
qed

lemma at_hinted:
  assumes ok: "row_ok env fate X (vs_time s) (vs_tuple s)" and h: "hinted env fate X s s'" and le: "vs_time s' \<le> t"
  shows "deleted env fate t (vs_tuple s') = deleted env fate t (vs_tuple s)"
    "inserted env fate (vs_time s') (vs_tuple s) \<Longrightarrow> inserted env fate t (vs_tuple s)"
proof -
  have m: "more_hints env fate (vs_time s') (vs_tuple s) (vs_tuple s')" using h by (simp add: hinted_def)
  have "\<not> is_current env x \<and> fate t x = Aborted"
    if "deleter env (vs_tuple s) = Some x" "fate (vs_time s') x = Aborted" for x
    using row_deleter(1)[OF ok that(1)] that(2) ended_later(2)[OF _ _ le] current_runs by fastforce
  then show "deleted env fate t (vs_tuple s') = deleted env fate t (vs_tuple s)"
    using m by (auto simp: deleted_def more_hints_def split: option.splits)
  show "inserted env fate (vs_time s') (vs_tuple s) \<Longrightarrow> inserted env fate t (vs_tuple s)"
    using ended_later(1)[OF _ _ le] row_inserter(1)[OF ok] by (auto simp: inserted_def)
qed

lemma HeapTupleSatisfiesSelf_post:
  assumes ok: "row_ok env fate X (vs_time s) (vs_tuple s)"
  shows "post (HeapTupleSatisfiesSelf env) s (\<lambda>r s'. hinted env fate X s s' \<and> vs_snapshot s' = vs_snapshot s
      \<and> moment s s' (\<lambda>t. r = row_at env fate t (vs_tuple s)))" (is "post _ s ?Q")
  unfolding HeapTupleSatisfiesSelf_def post_bind
proof (rule post_mono[OF self_xmin_post[OF ok]])
  fix r s'
  assume r: "hinted env fate X s s' \<and> vs_snapshot s' = vs_snapshot s
      \<and> (case r of Some b \<Rightarrow> moment s s' (\<lambda>t. b = row_at env fate t (vs_tuple s))
          | None \<Rightarrow> inserted env fate (vs_time s') (vs_tuple s))"
  then have ok': "row_ok env fate X (vs_time s') (vs_tuple s')" and le: "vs_time s \<le> vs_time s'" by (auto simp: hinted_def)
  show "post (case r of None \<Rightarrow> self_xmax env | Some res \<Rightarrow> State_Monad.return res) s' ?Q"
  proof (cases r)
    case None
    have "moment s s'' (\<lambda>t. b = row_at env fate t (vs_tuple s))"
      if m: "moment s' s'' (\<lambda>t. b = (\<not> deleted env fate t (vs_tuple s')))" for s'' b
    proof -
      from m obtain t where "vs_time s' \<le> t" "t \<le> vs_time s''" "b = (\<not> deleted env fate t (vs_tuple s'))" by (auto simp: moment_def)
      then show ?thesis using at_hinted[OF ok, of s' t] r None le by (auto simp: moment_def row_at_def intro!: exI[of _ t])
    qed
    then show ?thesis using r None hinted_trans[OF ok, of s'] by (auto intro!: post_mono[OF self_xmax_post[OF ok']])
  qed (use r in \<open>auto simp: posts\<close>)
qed

end

text \<open>Questions about a multixact only take time.\<close>

definition waited :: "test_state \<Rightarrow> test_state \<Rightarrow> bool" where
  "waited s s' \<longleftrightarrow> vs_time s \<le> vs_time s' \<and> s' = s\<lparr>vs_time := vs_time s'\<rparr>"

lemma waited_same: "waited s s' \<Longrightarrow> vs_time s \<le> vs_time s' \<and> vs_tuple s' = vs_tuple s \<and> vs_snapshot s' = vs_snapshot s"
  unfolding waited_def by (cases s; cases s') simp

lemma waited_ticks: "waited s s" "waited s (tick s)" "waited s s' \<Longrightarrow> waited s (tick s')" "waited (tick s) s' \<Longrightarrow> waited s s'"
  unfolding waited_def tick_def by (cases s; cases s'; simp)+

lemma moment_tick: "moment (tick s) s' P \<Longrightarrow> moment s s' P"
  by (auto simp: moment_def intro: Suc_leD)

lemma ask_any_post: "post (ask_any_in_progress env xs) s (\<lambda>r s'. waited s s'
    \<and> (if r then \<exists>x \<in> set xs. moment s s' (\<lambda>t. is_in_progress env t x) else \<forall>x \<in> set xs. moment s s' (\<lambda>t. \<not> is_in_progress env t x)))"
proof (induction xs arbitrary: s)
  case (Cons y xs)
  show ?case
  proof (cases "is_in_progress env (vs_time s) y")
    case False
    then have "moment s s' (\<lambda>t. \<not> is_in_progress env t y)" if "waited (tick s) s'" for s'
      using waited_same[OF waited_ticks(4)[OF that]] by (auto intro!: moment_start)
    then show ?thesis using False waited_ticks(4)
      by (auto simp: posts moment_tick split: if_splits intro!: post_mono[OF Cons]) (blast dest: moment_tick)
  qed (auto simp: posts waited_ticks intro!: moment_start)
qed (simp add: posts waited_ticks)

lemma MultiXactIdIsRunning_post: "post (MultiXactIdIsRunning env m l) s (\<lambda>r s'. waited s s'
    \<and> (if r then \<exists>x \<in> set (map fst (multi_members env m l)). is_current env x \<or> moment s s' (\<lambda>t. is_in_progress env t x)
       else \<forall>x \<in> set (map fst (multi_members env m l)). \<not> is_current env x \<and> moment s s' (\<lambda>t. \<not> is_in_progress env t x)))"
  by (auto simp: MultiXactIdIsRunning_def Let_def posts waited_ticks simp del: set_map split: if_splits intro!: post_mono[OF ask_any_post])

text \<open>
  What the answers of the vacuum test mean for the row as it was at the start of the test: a dead
  row was inserted by a transaction that aborted, a live one was a row at some moment of the test, a
  recently dead one was deleted by a transaction that committed, which is reported, and of the
  other two one transaction had not committed at some moment of the test.
\<close>

definition htsv_means :: "xact_env \<Rightarrow> (nat \<Rightarrow> TransactionId \<Rightarrow> fate) \<Rightarrow> test_state \<Rightarrow> test_state \<Rightarrow> HTSV_Result \<Rightarrow> TransactionId \<Rightarrow> bool" where
  "htsv_means env fate s s' res dead_after =
     (let tup = vs_tuple s in
      case res of
        HEAPTUPLE_DEAD \<Rightarrow> \<not> HeapTupleHeaderXminFrozen tup \<and> fate (vs_time s') (t_xmin tup) = Aborted
      | HEAPTUPLE_LIVE \<Rightarrow> moment s s' (\<lambda>t. row_at env fate t tup)
      | HEAPTUPLE_RECENTLY_DEAD \<Rightarrow> inserted env fate (vs_time s') tup \<and> deleter env tup = Some dead_after
          \<and> fate (vs_time s') dead_after = Committed
      | HEAPTUPLE_INSERT_IN_PROGRESS \<Rightarrow> \<not> HeapTupleHeaderXminFrozen tup \<and> moment s s' (\<lambda>t. fate t (t_xmin tup) \<noteq> Committed)
      | HEAPTUPLE_DELETE_IN_PROGRESS \<Rightarrow> \<exists>x. deleter env tup = Some x \<and> moment s s' (\<lambda>t. fate t x \<noteq> Committed))"

lemma OnlyLocked_post: "post (HeapTupleHeaderIsOnlyLocked env) s (\<lambda>r s'. waited s s')"
  by (auto simp: HeapTupleHeaderIsOnlyLocked_def posts waited_ticks Let_def)

lemma moment_waited: "waited s s' \<Longrightarrow> P (vs_time s) \<Longrightarrow> moment s s' P"
  using waited_same moment_start by blast

context xact_history
begin

lemma hinted_waited: "row_ok env fate X (vs_time s) (vs_tuple s) \<Longrightarrow> waited s s' \<Longrightarrow> hinted env fate X s s'"
  using waited_same by (auto intro: hinted_later)

lemma vacuum_own_post:
  assumes ok: "row_ok env fate X (vs_time s) (vs_tuple s)" and new: "\<not> HeapTupleHeaderXminFrozen (vs_tuple s)" "is_current env (t_xmin (vs_tuple s))"
  shows "post (vacuum_own env) s (\<lambda>r s'. hinted env fate X s s' \<and> vs_snapshot s' = vs_snapshot s
      \<and> htsv_means env fate s s' r InvalidTransactionId \<and> r \<in> {HEAPTUPLE_INSERT_IN_PROGRESS, HEAPTUPLE_DELETE_IN_PROGRESS})"
proof -
  have x: "fate t (t_xmin (vs_tuple s)) = Running" for t using current_runs row_inserter(1)[OF ok] new by auto
  have d: "deleter env (vs_tuple s) = Some (HeapTupleHeaderGetUpdateXid env (vs_tuple s))"
    if "t_infomask (vs_tuple s) AND HEAP_XMAX_INVALID = 0" "\<not> HEAP_XMAX_IS_LOCKED_ONLY (t_infomask (vs_tuple s))"
    using that by (auto simp: deleter_def HeapTupleHeaderGetUpdateXid_def flag_tests)
  have "fate t (HeapTupleHeaderGetUpdateXid env (vs_tuple s)) = Running"
    if "t_infomask (vs_tuple s) AND HEAP_XMAX_INVALID = 0" "\<not> HEAP_XMAX_IS_LOCKED_ONLY (t_infomask (vs_tuple s))"
      "is_current env (HeapTupleHeaderGetUpdateXid env (vs_tuple s))" for t
    using current_runs row_deleter(1)[OF ok d] that by auto
  then show ?thesis
    using x d new hinted_refl[OF ok]
    by (auto simp: vacuum_own_def posts htsv_means_def moment_start hinted_waited[OF ok] dest: waited_same
        intro!: post_mono[OF OnlyLocked_post] moment_waited)
qed

lemma vacuum_xmin_post:
  assumes ok: "row_ok env fate X (vs_time s) (vs_tuple s)"
  shows "post (vacuum_xmin env) s (\<lambda>r s'. hinted env fate X s s' \<and> vs_snapshot s' = vs_snapshot s
      \<and> (case r of Some res \<Rightarrow> htsv_means env fate s s' res InvalidTransactionId
          | None \<Rightarrow> HeapTupleHeaderXminFrozen (vs_tuple s) \<or> fate (vs_time s') (t_xmin (vs_tuple s)) = Committed))"
    (is "post _ s ?Q")
proof (cases "HeapTupleHeaderXminCommitted (vs_tuple s) \<or> HeapTupleHeaderXminInvalid (vs_tuple s)")
  case True
  then show ?thesis using hinted_refl[OF ok] row_inserter[OF ok]
    by (auto simp: vacuum_xmin_def posts htsv_means_def flag_tests)
next
  case False
  then have new: "\<not> HeapTupleHeaderXminFrozen (vs_tuple s)" by (auto simp: flag_tests)
  note x = row_inserter[OF ok new]
  show ?thesis
  proof (cases "is_current env (t_xmin (vs_tuple s))")
    case True
    then show ?thesis using False not_moved[OF ok]
      by (auto simp: vacuum_xmin_def posts intro!: post_mono[OF vacuum_own_post[OF ok new]])
  next
    case other: False
    then show ?thesis
      using False not_moved[OF ok] new hinted_tick[OF ok] progress_asked(1)[OF x(1)]
      by (auto simp: vacuum_xmin_def posts htsv_means_def moment_start intro!: post_mono[OF inserter_asked_post[OF ok]])
  qed
qed

lemma vacuum_locked_post:
  assumes ok: "row_ok env fate X (vs_time s) (vs_tuple s)" and none: "deleter env (vs_tuple s) = None"
  shows "post (vacuum_locked env) s (\<lambda>r s'. hinted env fate X s s' \<and> vs_snapshot s' = vs_snapshot s \<and> r = HEAPTUPLE_LIVE)"
  using waited_same none
  by (auto simp: vacuum_locked_def posts hinted_refl[OF ok] hinted_tick[OF ok] hinted_waited[OF ok]
      intro!: hinted_hint(3)[OF ok] post_mono[OF MultiXactIdIsRunning_post])

lemma vacuum_xmax_post:
  assumes ok: "row_ok env fate X (vs_time s) (vs_tuple s)" and ins: "inserted env fate (vs_time s) (vs_tuple s)"
  shows "post (vacuum_xmax env) s (\<lambda>(r, d) s'. hinted env fate X s s' \<and> vs_snapshot s' = vs_snapshot s \<and> htsv_means env fate s s' r d)"
proof (cases "deleter env (vs_tuple s)")
  case None
  then show ?thesis using ins hinted_refl[OF ok]
    by (auto simp: vacuum_xmax_def posts htsv_means_def row_at_def deleted_def deleter_def dest: hinted_time split: if_splits
        intro!: moment_start post_mono[OF vacuum_locked_post[OF ok None]])
next
  case (Some x)
  note d = row_deleter[OF ok Some] and x = deleter_multi[OF Some]
  show ?thesis
  proof (cases "is_in_progress env (vs_time s) x")
    case True
    then show ?thesis using x Some ins d(2) committed_asked[OF d(1)] progress_asked(1)[OF d(1)] hinted_tick[OF ok] hinted_refl[OF ok]
      by (auto simp: vacuum_xmax_def posts htsv_means_def Let_def moment_start)
  next
    case False
    have ended: "fate (vs_time s) x \<noteq> Running" by (rule progress_asked(2)[OF d(1) False])
    have other: "\<not> is_current env x" using ended current_runs[OF d(1)] by auto
    have c: "did_commit env (vs_time (tick s)) x \<longleftrightarrow> fate (vs_time s) x = Committed" by (rule commit_asked[OF d(1) ended]) simp
    note later = fate_stable[OF d(1) ended]
    have later2: "hinted env fate X s (tick (tick s))" by (rule hinted_later[OF ok]) simp_all
    show ?thesis
    proof (cases "fate (vs_time s) x")
      case Committed
      have "inserted env fate (Suc (Suc (vs_time s))) (vs_tuple s)" "inserted env fate (vs_time s) (vs_tuple s)"
        using at_hinted(2)[OF ok hinted_refl[OF ok] _ ins, of "Suc (Suc (vs_time s))"] ins by simp_all
      then show ?thesis
        using x Some c later[of "Suc (Suc (vs_time s))"] Committed False later2 hinted_refl[OF ok] hinted_hint(4)[OF ok, of "tick (tick s)"]
        by (auto simp: vacuum_xmax_def posts htsv_means_def Let_def)
    next
      case Aborted
      have live: "htsv_means env fate s s' HEAPTUPLE_LIVE d'" if "vs_time s \<le> vs_time s'" for s' d'
        using that Aborted Some ins other by (auto simp: htsv_means_def row_at_def deleted_def intro!: moment_start)
      have aborted: "fate t x = Aborted" if "vs_time s \<le> t" for t using later[OF that] Aborted by simp
      have "waited s s'" if "waited (tick (tick s)) s'" for s' by (rule waited_ticks(4)[OF waited_ticks(4)[OF that]])
      then show ?thesis
        using x Some c d(2) aborted[of "Suc (Suc (vs_time s))"] aborted Aborted False later2 hinted_hint(3)[OF ok] hinted_waited[OF ok] live
        by (auto simp: vacuum_xmax_def posts Let_def dest: waited_same intro!: post_mono[OF MultiXactIdIsRunning_post])
    qed (use ended in simp)
  qed
qed

lemma htsv_means_hinted:
  assumes ok: "row_ok env fate X (vs_time s) (vs_tuple s)" and h: "hinted env fate X s s1" and m: "htsv_means env fate s1 s' r d"
  shows "htsv_means env fate s s' r d"
proof -
  have mh: "more_hints env fate (vs_time s1) (vs_tuple s) (vs_tuple s1)" and le: "vs_time s \<le> vs_time s1"
    using h by (simp_all add: hinted_def)
  note same = more_hints_same[OF mh]
  have mono: "moment s s' P" if "moment s1 s' Q" "\<And>t. vs_time s1 \<le> t \<Longrightarrow> Q t \<Longrightarrow> P t" for P Q
    using that le by (auto simp: moment_def intro: order.trans)
  have "row_at env fate t (vs_tuple s)" if "row_at env fate t (vs_tuple s1)" "vs_time s1 \<le> t" for t
    using that same at_hinted(1)[OF ok h that(2)] by (simp add: row_at_def inserted_def)
  moreover have "deleter env (vs_tuple s) = Some x" if "deleter env (vs_tuple s1) = Some x" for x
    using that mh by (auto simp: more_hints_def)
  ultimately show ?thesis
    using m mono by (cases r) (auto simp: htsv_means_def inserted_def same)
qed

lemma VacuumHorizon_post:
  assumes ok: "row_ok env fate X (vs_time s) (vs_tuple s)"
  shows "post (HeapTupleSatisfiesVacuumHorizon env) s
    (\<lambda>(r, d) s'. hinted env fate X s s' \<and> vs_snapshot s' = vs_snapshot s \<and> htsv_means env fate s s' r d)" (is "post _ s ?Q")
  unfolding HeapTupleSatisfiesVacuumHorizon_def post_bind
proof (rule post_mono[OF vacuum_xmin_post[OF ok]])
  fix r s1
  assume r: "hinted env fate X s s1 \<and> vs_snapshot s1 = vs_snapshot s
      \<and> (case r of Some res \<Rightarrow> htsv_means env fate s s1 res InvalidTransactionId
          | None \<Rightarrow> HeapTupleHeaderXminFrozen (vs_tuple s) \<or> fate (vs_time s1) (t_xmin (vs_tuple s)) = Committed)"
  then have ok1: "row_ok env fate X (vs_time s1) (vs_tuple s1)" and h: "hinted env fate X s s1"
    and mh: "more_hints env fate (vs_time s1) (vs_tuple s) (vs_tuple s1)" by (auto simp: hinted_def)
  show "post (case r of None \<Rightarrow> vacuum_xmax env | Some res \<Rightarrow> State_Monad.return (res, InvalidTransactionId)) s1 ?Q"
  proof (cases r)
    case None
    have "inserted env fate (vs_time s1) (vs_tuple s1)" using r None more_hints_same[OF mh] by (auto simp: inserted_def)
    from post_mono[OF vacuum_xmax_post[OF ok1 this], of ?Q] show ?thesis
      using r None hinted_trans[OF ok h] htsv_means_hinted[OF ok h] by auto
  qed (use r in \<open>auto simp: posts\<close>)
qed

lemma Vacuum_dead_post:
  assumes ok: "row_ok env fate X (vs_time s) (vs_tuple s)"
  shows "post (HeapTupleSatisfiesVacuum env OldestXmin) s (\<lambda>r s'. hinted env fate X s s' \<and> vs_snapshot s' = vs_snapshot s
     \<and> (r = HEAPTUPLE_DEAD \<longrightarrow> \<not> HeapTupleHeaderXminFrozen (vs_tuple s) \<and> fate (vs_time s') (t_xmin (vs_tuple s)) = Aborted
         \<or> (\<exists>x. deleter env (vs_tuple s) = Some x \<and> fate (vs_time s') x = Committed \<and> TransactionIdPrecedes x OldestXmin)))"
  unfolding HeapTupleSatisfiesVacuum_def post_bind
  by (rule post_mono[OF VacuumHorizon_post[OF ok]]) (auto simp: posts htsv_means_def Let_def split: if_splits)

end

section \<open>May the row be updated?\<close>

text \<open>The transactions that hold the row, as its deleter or as lockers.\<close>

definition holders :: "xact_env \<Rightarrow> HeapTupleHeaderData \<Rightarrow> TransactionId set" where
  "holders env tup =
     (if t_infomask tup AND HEAP_XMAX_INVALID \<noteq> 0 then {}
      else if t_infomask tup AND HEAP_XMAX_IS_MULTI \<noteq> 0
      then set (map fst (multi_members env (t_xmax tup) (HEAP_XMAX_IS_LOCKED_ONLY (t_infomask tup))))
      else {t_xmax tup})"

text \<open>The ids are known, and nobody runs who holds the row under a committed \<^verbatim>\<open>xmax\<close> or a multixact
  from before an upgrade.\<close>

definition holders_ok :: "xact_env \<Rightarrow> (nat \<Rightarrow> TransactionId \<Rightarrow> fate) \<Rightarrow> TransactionId set \<Rightarrow> nat \<Rightarrow> HeapTupleHeaderData \<Rightarrow> bool" where
  "holders_ok env fate X t tup \<longleftrightarrow> holders env tup \<subseteq> X \<and> (\<forall>x. deleter env tup = Some x \<longrightarrow> x \<in> holders env tup)
     \<and> (t_infomask tup AND HEAP_XMAX_COMMITTED \<noteq> 0 \<or> HEAP_LOCKED_UPGRADED (t_infomask tup) \<longrightarrow> (\<forall>x \<in> holders env tup. fate t x \<noteq> Running))"

text \<open>
  What the answers mean: the row may be updated when it is a row at the end of the test and nobody
  who holds it is running; it was updated or deleted by a transaction that committed, or by the own
  one, before or after the command; or somebody who holds it had not committed at some moment.
\<close>

definition update_means ::
    "xact_env \<Rightarrow> (nat \<Rightarrow> TransactionId \<Rightarrow> fate) \<Rightarrow> ItemPointerData \<Rightarrow> CommandId \<Rightarrow> test_state \<Rightarrow> test_state \<Rightarrow> TM_Result \<Rightarrow> bool" where
  "update_means env fate self cid s s' res =
     (let tup = vs_tuple s; t = vs_time s' in
      case res of
        TM_Ok \<Rightarrow> row_at env fate t tup \<and> (\<forall>x \<in> holders env tup. fate t x \<noteq> Running)
      | TM_Invisible \<Rightarrow> moment s s' (\<lambda>t. \<not> inserted env fate t tup)
          \<or> is_current env (t_xmin tup) \<and> cid \<le> HeapTupleHeaderGetCmin env tup
          \<or> (\<exists>x. deleter env tup = Some x \<and> is_current env x \<and> HeapTupleHeaderGetCmax env tup < cid)
      | TM_SelfModified \<Rightarrow> \<exists>x. deleter env tup = Some x \<and> is_current env x \<and> cid \<le> HeapTupleHeaderGetCmax env tup
      | TM_Updated \<Rightarrow> self \<noteq> t_ctid tup \<and> inserted env fate t tup \<and> (\<exists>x. deleter env tup = Some x \<and> fate t x = Committed)
      | TM_Deleted \<Rightarrow> self = t_ctid tup \<and> inserted env fate t tup \<and> (\<exists>x. deleter env tup = Some x \<and> fate t x = Committed)
      | TM_BeingModified \<Rightarrow> \<exists>x \<in> holders env tup. moment s s' (\<lambda>t. fate t x \<noteq> Committed)
      | TM_WouldBlock \<Rightarrow> False)"

lemma moment_from: "moment s1 s' P \<Longrightarrow> vs_time s \<le> vs_time s1 \<Longrightarrow> moment s s' P"
  unfolding moment_def by (meson order.trans)

lemma waited_trans: "waited s s1 \<Longrightarrow> waited s1 s2 \<Longrightarrow> waited s s2"
  unfolding waited_def by (cases s; cases s1; cases s2) simp

lemma post_conj: "post m s Q \<Longrightarrow> post m s R \<Longrightarrow> post m s (\<lambda>r s'. Q r s' \<and> R r s')"
  by (auto simp: post_def split: prod.splits)

lemma inserter_ended_tuple: "post (inserter_ended env no) s (\<lambda>r s'.
    vs_tuple s' = vs_tuple s \<or> vs_tuple s' = add_hint HEAP_XMIN_COMMITTED (vs_tuple s) \<or> vs_tuple s' = add_hint HEAP_XMIN_INVALID (vs_tuple s))"
  by (simp add: inserter_ended_def posts)

lemma xmin_hint_same:
  assumes "tup' = tup \<or> tup' = add_hint HEAP_XMIN_COMMITTED tup \<or> tup' = add_hint HEAP_XMIN_INVALID tup"
  shows "holders env tup' = holders env tup" "deleter env tup' = deleter env tup"
    "t_infomask tup' AND HEAP_XMAX_COMMITTED = 0 \<longleftrightarrow> t_infomask tup AND HEAP_XMAX_COMMITTED = 0"
  using assms by (auto simp: holders_def flag_tests)

context xact_history
begin

text \<open>A multixact that is not running has no running member; one that is has a member that had not committed.\<close>

lemma multi_asked:
  assumes q: "if r then \<exists>x \<in> M. is_current env x \<or> moment s s' (\<lambda>t. is_in_progress env t x)
       else \<forall>x \<in> M. \<not> is_current env x \<and> moment s s' (\<lambda>t. \<not> is_in_progress env t x)"
    and M: "M \<subseteq> X" and w: "waited s s'"
  shows "if r then \<exists>x \<in> M. moment s s' (\<lambda>t. fate t x \<noteq> Committed) else \<forall>x \<in> M. \<not> is_current env x \<and> fate (vs_time s') x \<noteq> Running"
proof (cases r)
  case True
  then obtain x where x: "x \<in> M" "is_current env x \<or> moment s s' (\<lambda>t. is_in_progress env t x)" using q by auto
  have "moment s s' (\<lambda>t. fate t x \<noteq> Committed)"
    using x M progress_asked(1)[of x] current_runs[of x] waited_same[OF w] by (fastforce simp: moment_def)
  then show ?thesis using True x by auto
next
  case False
  have "fate (vs_time s') x \<noteq> Running" if x: "x \<in> M" for x
  proof -
    obtain t where "t \<le> vs_time s'" "\<not> is_in_progress env t x" using q False x by (auto simp: moment_def)
    then show ?thesis using progress_asked(2)[of x t] fate_stable[of x t "vs_time s'"] M x by auto
  qed
  then show ?thesis using q False by auto
qed

lemma multi_post:
  assumes M: "M = set (map fst (multi_members env m l))" "M \<subseteq> X"
  shows "post (MultiXactIdIsRunning env m l) s (\<lambda>r s'. waited s s' \<and> (if r then \<exists>x \<in> M. moment s s' (\<lambda>t. fate t x \<noteq> Committed)
         else \<forall>x \<in> M. \<not> is_current env x \<and> fate (vs_time s') x \<noteq> Running))"
  by (rule post_mono[OF MultiXactIdIsRunning_post], erule conjE, rule conjI, assumption) (rule multi_asked, simp_all only: M(1)[symmetric] M(2))

lemma TM_Ok_means:
  assumes "inserted env fate (vs_time s') (vs_tuple s)"
    and "\<And>x. deleter env (vs_tuple s) = Some x \<Longrightarrow> fate (vs_time s') x = Aborted"
    and "\<And>x. x \<in> holders env (vs_tuple s) \<Longrightarrow> fate (vs_time s') x \<noteq> Running"
    and "row_ok env fate X (vs_time s) (vs_tuple s)"
  shows "update_means env fate self cid s s' TM_Ok"
proof -
  have "\<not> is_current env x" if "deleter env (vs_tuple s) = Some x" for x
    using assms(2)[OF that] row_deleter(1)[OF assms(4) that] current_runs[of x] by auto
  then show ?thesis using assms(1-3) by (auto simp: update_means_def row_at_def deleted_def split: option.splits)
qed

lemma holders_multi_post:
  assumes "holders_ok env fate X t tup" "t_infomask tup AND HEAP_XMAX_INVALID = 0" "t_infomask tup AND HEAP_XMAX_IS_MULTI \<noteq> 0"
    and "l = HEAP_XMAX_IS_LOCKED_ONLY (t_infomask tup)"
  shows "post (MultiXactIdIsRunning env (t_xmax tup) l) s
      (\<lambda>r s'. waited s s' \<and> (if r then \<exists>x \<in> holders env tup. moment s s' (\<lambda>t. fate t x \<noteq> Committed)
         else \<forall>x \<in> holders env tup. \<not> is_current env x \<and> fate (vs_time s') x \<noteq> Running))"
  by (rule multi_post) (use assms in \<open>simp_all add: holders_ok_def holders_def\<close>)

lemma update_own_locked:
  assumes ok: "row_ok env fate X (vs_time s) (vs_tuple s)" and hd: "holders_ok env fate X (vs_time s) (vs_tuple s)"
    and own: "\<not> HeapTupleHeaderXminFrozen (vs_tuple s)" "is_current env (t_xmin (vs_tuple s))"
    and late: "\<not> cid \<le> HeapTupleHeaderGetCmin env (vs_tuple s)" and None: "deleter env (vs_tuple s) = None"
  shows "post (update_own env cid) s (\<lambda>r s'. hinted env fate X s s' \<and> vs_snapshot s' = vs_snapshot s
      \<and> update_means env fate self cid s s' r)" (is "post _ s ?Q")
proof -
  let ?m = "t_infomask (vs_tuple s)" and ?H = "holders env (vs_tuple s)"
  have ins: "inserted env fate t (vs_tuple s)" for t using own by (simp add: inserted_def)
  note free = TM_Ok_means[OF ins _ _ ok] hinted_waited[OF ok]
  show ?thesis
  proof (cases "?m AND HEAP_XMAX_INVALID \<noteq> 0")
    case True
    then have "?H = {}" by (simp add: holders_def)
    then show ?thesis using late True hinted_refl[OF ok] None by (auto simp: update_own_def posts intro!: free(1))
  next
    case False
    then have lock: "HEAP_XMAX_IS_LOCKED_ONLY ?m" using None by (auto simp: deleter_def split: if_splits)
    show ?thesis
    proof (cases "?m AND HEAP_XMAX_IS_MULTI = 0")
      case True
      then have H: "?H = {t_xmax (vs_tuple s)}" using False by (simp add: holders_def)
      then have x: "t_xmax (vs_tuple s) \<in> X" using hd by (simp add: holders_ok_def)
      have "fate (Suc (vs_time s)) (t_xmax (vs_tuple s)) \<noteq> Running" if "\<not> is_in_progress env (vs_time s) (t_xmax (vs_tuple s))"
        using progress_asked(2)[OF x that] fate_stable[OF x, of "vs_time s" "Suc (vs_time s)"] by simp
      then show ?thesis using late False lock True None H hinted_tick[OF ok] progress_asked(1)[OF x]
        by (auto simp: update_own_def posts update_means_def[where res = TM_BeingModified] intro!: free(1) moment_start)
    next
      case multi: False
      show ?thesis
        by (use late False lock multi None waited_same in \<open>auto simp: update_own_def posts update_means_def[where res = TM_BeingModified]
            intro!: post_mono[OF holders_multi_post[OF hd]] free split: if_splits\<close>)
    qed
  qed
qed

lemma update_own_deleted:
  assumes ok: "row_ok env fate X (vs_time s) (vs_tuple s)" and hd: "holders_ok env fate X (vs_time s) (vs_tuple s)"
    and own: "\<not> HeapTupleHeaderXminFrozen (vs_tuple s)" "is_current env (t_xmin (vs_tuple s))"
    and late: "\<not> cid \<le> HeapTupleHeaderGetCmin env (vs_tuple s)" and Some: "deleter env (vs_tuple s) = Some x"
  shows "post (update_own env cid) s (\<lambda>r s'. hinted env fate X s s' \<and> vs_snapshot s' = vs_snapshot s
      \<and> update_means env fate self cid s s' r)" (is "post _ s ?Q")
proof -
  let ?m = "t_infomask (vs_tuple s)" and ?H = "holders env (vs_tuple s)"
  have ins: "inserted env fate t (vs_tuple s)" for t using own by (simp add: inserted_def)
  note d = row_deleter[OF ok Some] and x = deleter_multi[OF Some]
  have cur: "fate t x = Aborted" if "\<not> is_current env x" "vs_time s \<le> t" for t
    using d own that ended_later(2) by blast
  note free = TM_Ok_means[OF ins _ _ ok] hinted_waited[OF ok]
  show ?thesis
  proof (cases "is_current env x")
    case True
    then show ?thesis using late x Some hinted_refl[OF ok]
      by (auto simp: update_own_def posts self_modified_def update_means_def not_le Let_def)
  next
    case False
    note c = cur[OF False]
    show ?thesis
    proof (cases "?m AND HEAP_XMAX_IS_MULTI = 0")
      case True
      then have H: "?H = {x}" using x by (simp add: holders_def)
      then show ?thesis using True late x False Some c hinted_refl[OF ok] hinted_hint(3)[OF ok refl order.refl]
        by (auto simp: update_own_def posts intro!: free(1))
    next
      case multi: False
      show ?thesis
        by (use multi late x False Some c waited_same in \<open>auto simp: update_own_def posts Let_def update_means_def[where res = TM_BeingModified]
            intro!: post_mono[OF holders_multi_post[OF hd]] free split: if_splits\<close>)
    qed
  qed
qed

lemma update_own_post:
  assumes ok: "row_ok env fate X (vs_time s) (vs_tuple s)" and hd: "holders_ok env fate X (vs_time s) (vs_tuple s)"
    and own: "\<not> HeapTupleHeaderXminFrozen (vs_tuple s)" "is_current env (t_xmin (vs_tuple s))"
  shows "post (update_own env cid) s (\<lambda>r s'. hinted env fate X s s' \<and> vs_snapshot s' = vs_snapshot s
      \<and> update_means env fate self cid s s' r)"
proof (cases "cid \<le> HeapTupleHeaderGetCmin env (vs_tuple s)")
  case True
  then show ?thesis using own hinted_refl[OF ok] by (simp add: update_own_def posts update_means_def)
next
  case False
  then show ?thesis
    using update_own_locked[OF assms] update_own_deleted[OF assms] by (cases "deleter env (vs_tuple s)") blast+
qed

lemma update_xmin_post:
  assumes ok: "row_ok env fate X (vs_time s) (vs_tuple s)" and hd: "holders_ok env fate X (vs_time s) (vs_tuple s)"
  shows "post (update_xmin env cid) s (\<lambda>r s'. hinted env fate X s s' \<and> vs_snapshot s' = vs_snapshot s
      \<and> (case r of Some res \<Rightarrow> update_means env fate self cid s s' res
          | None \<Rightarrow> inserted env fate (vs_time s') (vs_tuple s) \<and> (vs_tuple s' = vs_tuple s \<or> vs_tuple s' = add_hint HEAP_XMIN_COMMITTED (vs_tuple s)
                \<or> vs_tuple s' = add_hint HEAP_XMIN_INVALID (vs_tuple s))))"
    (is "post _ s ?Q")
proof (cases "HeapTupleHeaderXminCommitted (vs_tuple s) \<or> HeapTupleHeaderXminInvalid (vs_tuple s)")
  case True
  then show ?thesis
    using hinted_refl[OF ok] row_inserter[OF ok] current_runs[of "t_xmin (vs_tuple s)"]
    by (auto simp: update_xmin_def posts update_means_def inserted_def flag_tests Let_def intro!: moment_start)
next
  case False
  then have new: "\<not> HeapTupleHeaderXminFrozen (vs_tuple s)" by (auto simp: flag_tests)
  note x = row_inserter[OF ok new]
  show ?thesis
  proof (cases "is_current env (t_xmin (vs_tuple s))")
    case True
    then show ?thesis using False not_moved[OF ok]
      by (auto simp: update_xmin_def posts intro!: post_mono[OF update_own_post[OF ok hd new]])
  next
    case other: False
    show ?thesis
    proof (cases "is_in_progress env (vs_time s) (t_xmin (vs_tuple s))")
      case True
      then show ?thesis
        using False other not_moved[OF ok] new hinted_tick[OF ok] progress_asked(1)[OF x(1)]
        by (auto simp: update_xmin_def posts update_means_def inserted_def Let_def intro!: moment_start)
    next
      case ended: False
      note ask = post_conj[OF inserter_asked_post[OF ok _ _ ended] inserter_ended_tuple]
      show ?thesis
        using False other not_moved[OF ok] new ended
        by (auto simp: update_xmin_def posts update_means_def inserted_def Let_def dest: hinted_time
            intro!: post_mono[OF ask] moment_end)
    qed
  qed
qed

lemma updated_or_deleted_means:
  assumes "inserted env fate (vs_time s') (vs_tuple s)" "deleter env (vs_tuple s) = Some x" "fate (vs_time s') x = Committed"
  shows "update_means env fate self cid s s' (updated_or_deleted self (vs_tuple s))"
  using assms by (simp add: update_means_def updated_or_deleted_def Let_def)

lemma self_modified_means:
  assumes "deleter env (vs_tuple s) = Some x" "is_current env x"
  shows "update_means env fate self cid s s' (self_modified env cid (vs_tuple s))"
  using assms by (auto simp: update_means_def self_modified_def Let_def)

lemma update_xmax_locked:
  assumes ok: "row_ok env fate X (vs_time s) (vs_tuple s)" and hd: "holders_ok env fate X (vs_time s) (vs_tuple s)"
    and ins: "\<And>t. vs_time s \<le> t \<Longrightarrow> inserted env fate t (vs_tuple s)" and None: "deleter env (vs_tuple s) = None"
  shows "post (update_xmax env self cid) s (\<lambda>r s'. hinted env fate X s s' \<and> vs_snapshot s' = vs_snapshot s
      \<and> update_means env fate self cid s s' r)" (is "post _ s ?Q")
proof (cases "t_infomask (vs_tuple s) AND HEAP_XMAX_INVALID \<noteq> 0 \<or> t_infomask (vs_tuple s) AND HEAP_XMAX_COMMITTED \<noteq> 0
    \<or> HEAP_LOCKED_UPGRADED (t_infomask (vs_tuple s))")
  case True
  have ended: "fate (vs_time s) x \<noteq> Running" if "x \<in> holders env (vs_tuple s)" for x
    using True that hd by (auto simp: holders_ok_def holders_def)
  have ok_end: "update_means env fate self cid s s TM_Ok" by (rule TM_Ok_means[OF ins _ _ ok]) (use ended None in auto)
  have "t_infomask (vs_tuple s) AND HEAP_XMAX_IS_MULTI \<noteq> 0" if "HEAP_LOCKED_UPGRADED (t_infomask (vs_tuple s))"
    using that by (simp add: flag_tests)
  then show ?thesis using True ok_end hinted_refl[OF ok] None
    by (auto simp: update_xmax_def update_multi_def posts deleter_def split: if_splits)
next
  case False
  then have lock: "HEAP_XMAX_IS_LOCKED_ONLY (t_infomask (vs_tuple s))" using None by (auto simp: deleter_def split: if_splits)
  have free: "update_means env fate self cid s s' TM_Ok"
    if "vs_time s \<le> vs_time s'" "\<And>x. x \<in> holders env (vs_tuple s) \<Longrightarrow> fate (vs_time s') x \<noteq> Running" for s'
    by (rule TM_Ok_means[OF ins _ _ ok]) (use that None in auto)
  show ?thesis
  proof (cases "t_infomask (vs_tuple s) AND HEAP_XMAX_IS_MULTI = 0")
    case True
    then have H: "holders env (vs_tuple s) = {t_xmax (vs_tuple s)}" using False by (simp add: holders_def)
    then have x: "t_xmax (vs_tuple s) \<in> X" using hd by (simp add: holders_ok_def)
    have later: "fate (Suc (Suc (vs_time s))) (t_xmax (vs_tuple s)) \<noteq> Running" if "\<not> is_in_progress env (vs_time s) (t_xmax (vs_tuple s))"
      using progress_asked(2)[OF x that] fate_stable[OF x, of "vs_time s" "Suc (Suc (vs_time s))"] by simp
    show ?thesis using False lock True None H hinted_refl[OF ok] hinted_tick[OF ok] progress_asked(1)[OF x] current_runs[OF x]
        later free hinted_hint(3)[OF ok, of "tick (tick s)"] hinted_later[OF ok, of "tick (tick s)"]
      by (auto simp: update_xmax_def posts update_means_def[where res = TM_BeingModified] intro!: moment_start)
  next
    case multi: False
    show ?thesis
      by (use False lock multi None waited_same hinted_waited[OF ok] hinted_hint(3)[OF ok] free in
          \<open>auto simp: update_xmax_def update_multi_def posts update_means_def[where res = TM_BeingModified]
           intro!: post_mono[OF holders_multi_post[OF hd]] split: if_splits\<close>)
  qed
qed

lemma update_multi_ended_post:
  assumes ok: "row_ok env fate X (vs_time s) (vs_tuple s)" and hd: "holders_ok env fate X (vs_time s) (vs_tuple s)"
    and ins: "\<And>t. vs_time s \<le> t \<Longrightarrow> inserted env fate t (vs_tuple s)" and d: "deleter env (vs_tuple s) = Some x"
    and multi: "t_infomask (vs_tuple s) AND HEAP_XMAX_IS_MULTI \<noteq> 0" and w: "waited s s1"
    and ended: "\<forall>y \<in> holders env (vs_tuple s). \<not> is_current env y \<and> fate (vs_time s1) y \<noteq> Running"
  shows "post (update_multi_ended env self x) s1 (\<lambda>r s'. hinted env fate X s s' \<and> vs_snapshot s' = vs_snapshot s
      \<and> update_means env fate self cid s s' r)" (is "post _ s1 ?Q")
proof -
  have x: "x \<in> X" "fate (vs_time s1) x \<noteq> Running" using row_deleter(1)[OF ok d] ended hd d by (auto simp: holders_ok_def)
  note c = commit_asked[OF x order.refl] and ws = waited_same[OF w]
  have all: "fate t y \<noteq> Running" if "y \<in> holders env (vs_tuple s)" "vs_time s1 \<le> t" for t y
  proof -
    have "y \<in> X" using hd that(1) by (auto simp: holders_ok_def)
    then show ?thesis using ended that fate_stable[of y "vs_time s1" t] by auto
  qed
  show ?thesis
  proof (cases "fate (vs_time s1) x")
    case Committed
    then have "fate (vs_time (tick s1)) x = Committed" using fate_stable[OF x, of "vs_time (tick s1)"] by simp
    then have "update_means env fate self cid s (tick s1) (updated_or_deleted self (vs_tuple s))"
      using ws by (intro updated_or_deleted_means[OF ins d]) simp_all
    then show ?thesis using c Committed hinted_waited[OF ok] waited_ticks(3)[OF w] ws by (simp add: update_multi_ended_def posts)
  next
    case Aborted
    have "?Q TM_Ok (hint HEAP_XMAX_INVALID s') \<and> ?Q TM_Ok s' \<and>
        ((\<exists>y \<in> holders env (vs_tuple s). moment (tick s1) s' (\<lambda>t. fate t y \<noteq> Committed)) \<longrightarrow> ?Q TM_BeingModified s')"
      if w': "waited (tick s1) s'" for s'
    proof -
      note w2 = waited_trans[OF w waited_ticks(4)[OF w']]
      have le: "vs_time s1 \<le> vs_time s'" using waited_same[OF w'] by simp
      have ab: "fate (vs_time s') x = Aborted" using fate_stable[OF x le] Aborted by simp
      have free: "update_means env fate self cid s s'' TM_Ok" if "vs_time s'' = vs_time s'" for s''
        by (rule TM_Ok_means[OF ins _ _ ok]) (use that waited_same[OF w2] ab all le d in auto)
      have mono: "moment s s' P" if "moment (tick s1) s' P" for P using moment_from[OF that] ws by simp
      show ?thesis
        using free waited_same[OF w2] ws hinted_waited[OF ok w2] hinted_hint(3)[OF ok, of s'] ab d
        by (auto simp: update_means_def[where res = TM_BeingModified] Let_def dest!: mono)
    qed
    moreover note m = holders_multi_post[OF hd deleter_multi(3)[OF d] multi, of False "tick s1"]
    ultimately show ?thesis
      using c Aborted deleter_multi(4)[OF d] ws
      by (auto simp: update_multi_ended_def posts intro!: post_mono[OF m] split: if_splits)
  qed (use x in simp)
qed

lemma update_multi_updater_post:
  assumes ok: "row_ok env fate X (vs_time s) (vs_tuple s)" and hd: "holders_ok env fate X (vs_time s) (vs_tuple s)"
    and ins: "\<And>t. vs_time s \<le> t \<Longrightarrow> inserted env fate t (vs_tuple s)" and d: "deleter env (vs_tuple s) = Some x"
    and multi: "t_infomask (vs_tuple s) AND HEAP_XMAX_IS_MULTI \<noteq> 0" and w: "waited s s1"
  shows "post (update_multi_updater env self cid x) s1 (\<lambda>r s'. hinted env fate X s s' \<and> vs_snapshot s' = vs_snapshot s
      \<and> update_means env fate self cid s s' r)" (is "post _ s1 ?Q")
proof -
  have hw: "hinted env fate X s s' \<and> vs_snapshot s' = vs_snapshot s" if "waited s s'" for s'
    using hinted_waited[OF ok that] waited_same[OF that] by simp
  note ask = holders_multi_post[OF hd deleter_multi(3)[OF d] multi, of False s1]
  have busy: "?Q TM_BeingModified s'"
    if "waited s1 s'" "\<exists>y \<in> holders env (vs_tuple s). moment s1 s' (\<lambda>t. fate t y \<noteq> Committed)" for s'
    using that(2) waited_same[OF w] hw[OF waited_trans[OF w that(1)]] by (auto simp: update_means_def Let_def dest: moment_from)
  have free: "post (update_multi_ended env self x) s' ?Q"
    if "waited s1 s'" "\<forall>y \<in> holders env (vs_tuple s). \<not> is_current env y \<and> fate (vs_time s') y \<noteq> Running" for s'
    using that update_multi_ended_post[OF ok hd ins d multi waited_trans[OF w that(1)]] by blast
  show ?thesis
    using self_modified_means[OF d] hw[OF w] waited_same[OF w] deleter_multi(4)[OF d] busy free
    by (auto simp: update_multi_updater_def posts intro!: post_mono[OF ask] split: if_splits)
qed

lemma update_multi_post:
  assumes ok: "row_ok env fate X (vs_time s) (vs_tuple s)" and hd: "holders_ok env fate X (vs_time s) (vs_tuple s)"
    and ins: "\<And>t. vs_time s \<le> t \<Longrightarrow> inserted env fate t (vs_tuple s)" and d: "deleter env (vs_tuple s) = Some x"
    and multi: "t_infomask (vs_tuple s) AND HEAP_XMAX_IS_MULTI \<noteq> 0"
  shows "post (update_multi env self cid) s (\<lambda>r s'. hinted env fate X s s' \<and> vs_snapshot s' = vs_snapshot s
      \<and> update_means env fate self cid s s' r)" (is "post _ s ?Q")
proof -
  note x = deleter_multi[OF d]
  have rest: "post (update_multi_updater env self cid x) s1 ?Q" if "waited s s1" for s1
    by (rule update_multi_updater_post[OF ok hd ins d multi that])
  note ask = holders_multi_post[OF hd x(3) multi, of False s]
  have up: "\<not> HEAP_LOCKED_UPGRADED (t_infomask (vs_tuple s))" using x(4) by (auto simp: flag_tests)
  have busy: "?Q TM_BeingModified s'" if "waited s s'" "\<exists>y \<in> holders env (vs_tuple s). moment s s' (\<lambda>t. fate t y \<noteq> Committed)" for s'
    using that waited_same[OF that(1)] hinted_waited[OF ok that(1)] by (auto simp: update_means_def Let_def)
  show ?thesis
    using up x(1)[OF multi] x(4) rest[OF waited_ticks(1)] rest busy
    by (auto simp: update_multi_def posts Let_def intro!: post_mono[OF ask] split: if_splits)
qed

lemma update_xmax_deleted:
  assumes ok: "row_ok env fate X (vs_time s) (vs_tuple s)" and hd: "holders_ok env fate X (vs_time s) (vs_tuple s)"
    and ins: "\<And>t. vs_time s \<le> t \<Longrightarrow> inserted env fate t (vs_tuple s)" and d: "deleter env (vs_tuple s) = Some x"
  shows "post (update_xmax env self cid) s (\<lambda>r s'. hinted env fate X s s' \<and> vs_snapshot s' = vs_snapshot s
      \<and> update_means env fate self cid s s' r)" (is "post _ s ?Q")
proof (cases "t_infomask (vs_tuple s) AND HEAP_XMAX_COMMITTED = 0 \<and> t_infomask (vs_tuple s) AND HEAP_XMAX_IS_MULTI \<noteq> 0")
  case True
  then show ?thesis using update_multi_post[OF ok hd ins d] deleter_multi(3)[OF d] by (simp add: update_xmax_def posts)
next
  case plain: False
  note r = row_deleter[OF ok d] and x = deleter_multi[OF d]
  show ?thesis
  proof (cases "t_infomask (vs_tuple s) AND HEAP_XMAX_COMMITTED \<noteq> 0 \<or> is_current env x \<or> is_in_progress env (vs_time s) x")
    case True
    have H: "x \<in> holders env (vs_tuple s)" using hd d by (simp add: holders_ok_def)
    show ?thesis
      using True plain x r(2) hinted_refl[OF ok] hinted_tick[OF ok] updated_or_deleted_means[OF ins d] self_modified_means[OF d]
        progress_asked(1)[OF r(1), of "vs_time s"] H
      by (auto simp: update_xmax_def posts update_means_def[where res = TM_BeingModified] intro!: moment_start)
  next
    case False
    have ended: "fate (vs_time s) x \<noteq> Running" using progress_asked(2)[OF r(1)] False by simp
    have c: "did_commit env (vs_time (tick s)) x \<longleftrightarrow> fate (vs_time s) x = Committed" by (rule commit_asked[OF r(1) ended]) simp
    have later: "fate (vs_time (tick (tick s))) x = fate (vs_time s) x" by (rule fate_stable[OF r(1) ended]) simp
    have H: "holders env (vs_tuple s) = {x}" using x plain False by (simp add: holders_def)
    have end2: "hinted env fate X s (tick (tick s))" by (rule hinted_later[OF ok]) simp_all
    show ?thesis
    proof (cases "fate (vs_time s) x")
      case Committed
      then show ?thesis
        using x c later False plain end2 hinted_hint(4)[OF ok, of "tick (tick s)"] d updated_or_deleted_means[OF ins d]
        by (auto simp: update_xmax_def posts)
    next
      case Aborted
      then show ?thesis
        using x c later False plain end2 hinted_hint(3)[OF ok, of "tick (tick s)"] d H
        by (auto simp: update_xmax_def posts intro!: TM_Ok_means[OF ins _ _ ok])
    qed (use ended in simp)
  qed
qed

lemma update_means_hinted:
  assumes ok: "row_ok env fate X (vs_time s) (vs_tuple s)" and h: "hinted env fate X s s1"
    and same: "holders env (vs_tuple s1) = holders env (vs_tuple s)" "deleter env (vs_tuple s1) = deleter env (vs_tuple s)"
    and m: "update_means env fate self cid s1 s' r"
  shows "update_means env fate self cid s s' r"
proof -
  have mh: "more_hints env fate (vs_time s1) (vs_tuple s) (vs_tuple s1)" and le: "vs_time s \<le> vs_time s1"
    using h by (simp_all add: hinted_def)
  note eq = more_hints_same[OF mh] same
  have mono: "moment s s' P" if "moment s1 s' P" for P by (rule moment_from[OF that le])
  have "inserted env fate t (vs_tuple s1) = inserted env fate t (vs_tuple s)" "deleted env fate t (vs_tuple s1) = deleted env fate t (vs_tuple s)" for t
    by (simp_all add: inserted_def deleted_def eq)
  then show ?thesis using m
    by (cases r) (auto simp: update_means_def Let_def row_at_def eq dest!: mono)
qed

lemma HeapTupleSatisfiesUpdate_post:
  assumes ok: "row_ok env fate X (vs_time s) (vs_tuple s)" and hd: "holders_ok env fate X (vs_time s) (vs_tuple s)"
  shows "post (HeapTupleSatisfiesUpdate env self cid) s (\<lambda>r s'. hinted env fate X s s' \<and> vs_snapshot s' = vs_snapshot s
      \<and> update_means env fate self cid s s' r)" (is "post _ s ?Q")
  unfolding HeapTupleSatisfiesUpdate_def post_bind
proof (rule post_mono[OF update_xmin_post[OF ok hd, of cid self]])
  fix r s1
  assume r: "hinted env fate X s s1 \<and> vs_snapshot s1 = vs_snapshot s
      \<and> (case r of Some res \<Rightarrow> update_means env fate self cid s s1 res
          | None \<Rightarrow> inserted env fate (vs_time s1) (vs_tuple s) \<and> (vs_tuple s1 = vs_tuple s \<or> vs_tuple s1 = add_hint HEAP_XMIN_COMMITTED (vs_tuple s)
                \<or> vs_tuple s1 = add_hint HEAP_XMIN_INVALID (vs_tuple s)))"
  then have ok1: "row_ok env fate X (vs_time s1) (vs_tuple s1)" and h: "hinted env fate X s s1"
    and mh: "more_hints env fate (vs_time s1) (vs_tuple s) (vs_tuple s1)" by (auto simp: hinted_def)
  show "post (case r of None \<Rightarrow> update_xmax env self cid | Some res \<Rightarrow> State_Monad.return res) s1 ?Q"
  proof (cases r)
    case None
    then have tup: "vs_tuple s1 = vs_tuple s \<or> vs_tuple s1 = add_hint HEAP_XMIN_COMMITTED (vs_tuple s) \<or> vs_tuple s1 = add_hint HEAP_XMIN_INVALID (vs_tuple s)"
      using r by simp
    note same = xmin_hint_same[OF tup]
    have up: "HEAP_LOCKED_UPGRADED (t_infomask (vs_tuple s1)) = HEAP_LOCKED_UPGRADED (t_infomask (vs_tuple s))"
      using tup by (auto simp: flag_tests)
    have "fate (vs_time s1) x \<noteq> Running" if "x \<in> X" "fate (vs_time s) x \<noteq> Running" for x
      using that fate_stable[OF that, of "vs_time s1"] hinted_time[OF h] by simp
    then have hd1: "holders_ok env fate X (vs_time s1) (vs_tuple s1)"
      using hd unfolding holders_ok_def same up by blast
    have ins: "inserted env fate t (vs_tuple s1)" if "vs_time s1 \<le> t" for t
      using at_hinted(2)[OF ok h that] r None more_hints_same[OF mh] by (auto simp: inserted_def)
    have "post (update_xmax env self cid) s1 (\<lambda>r s'. hinted env fate X s1 s' \<and> vs_snapshot s' = vs_snapshot s1
      \<and> update_means env fate self cid s1 s' r)"
      using update_xmax_locked[OF ok1 hd1 ins] update_xmax_deleted[OF ok1 hd1 ins] by (cases "deleter env (vs_tuple s1)") blast+
    from post_mono[OF this, of ?Q] show ?thesis
      using r None hinted_trans[OF ok h] update_means_hinted[OF ok h same(1,2)] by auto
  qed (use r in \<open>auto simp: posts\<close>)
qed

end

end
