(* ===== verification/VisSystem.thy ===== *)
theory VisSystem
  imports RowFates
begin

text \<open>
  The visibility tests on the running system: their questions are answered by the process array, the
  commit log and the snapshot of \<^verbatim>\<open>procarray.c\<close>, \<^verbatim>\<open>transam.c\<close> and \<^verbatim>\<open>snapmgr.c\<close>.  The locale
  \<open>running_system\<close> is a trace of the transaction system; it is a history in the sense of the tests, so
  what the tests promise holds for the rows of the running system.
\<close>

section \<open>The questions on the running system\<close>

text \<open>
  A trace gives the state of the system at every moment; \<open>bk\<close> is the asking backend at every moment.
  The questions of a test are answered by \<^verbatim>\<open>TransactionIdIsInProgress\<close>, \<^verbatim>\<open>TransactionIdDidCommit\<close> and
  \<^verbatim>\<open>XidInMVCCSnapshot\<close>; \<open>rest\<close> holds what is not part of the transaction system.
\<close>

type_synonym trace = "nat \<Rightarrow> forest \<times> shmem"

definition in_log :: "TransactionId \<Rightarrow> shmem \<Rightarrow> TransactionId \<Rightarrow> bool" where
  "in_log w s x = committed (log_status (XactCtl s)) (SubTransGetParent (SubTransCtl s)) w x"

definition system_fate :: "TransactionId \<Rightarrow> TransactionId \<Rightarrow> trace \<Rightarrow> nat \<Rightarrow> TransactionId \<Rightarrow> fate" where
  "system_fate b w \<sigma> t x = (case \<sigma> t of (g, s) \<Rightarrow>
     if before b (next_xid s) x \<and> x \<in> f_ended g then if in_log w s x then Committed else Aborted else Running)"

definition system_env :: "(nat \<Rightarrow> backend) \<Rightarrow> (TransactionId \<Rightarrow> bool) \<Rightarrow> xact_env \<Rightarrow> trace \<Rightarrow> xact_env" where
  "system_env bk cur rest \<sigma> = rest\<lparr>
     is_current := cur,
     is_in_progress := \<lambda>t x. case TransactionIdIsInProgress cur False x (bk t) (snd (\<sigma> t)) of
         Some (Inr (r, _)) \<Rightarrow> r | _ \<Rightarrow> False,
     did_commit := \<lambda>t x. case TransactionIdDidCommit (TransactionXmin (bk t)) (XactCtl (snd (\<sigma> t))) (SubTransCtl (snd (\<sigma> t))) x (fetchCache (bk t)) of
         Some (c, _) \<Rightarrow> c | None \<Rightarrow> False,
     in_snapshot := \<lambda>x snap. case XidInMVCCSnapshot (TransactionXmin (bk 0)) (SubTransCtl (snd (\<sigma> 0))) x snap of
         Some (Inr r) \<Rightarrow> r | _ \<Rightarrow> False\<rparr>"

text \<open>
  A trace of the system that starts when the ids of interest have been assigned, and what it relies
  on of the order of writes in \<^verbatim>\<open>xact.c\<close>: the log holds the
  verdict on a transaction when it leaves the process array, and a subtransaction that ends before
  its main transaction is not marked committed.
\<close>

locale running_system =
  fixes b w :: TransactionId and \<sigma> :: trace and bk :: "nat \<Rightarrow> backend" and cur :: "TransactionId \<Rightarrow> bool"
    and rest :: xact_env and X :: "TransactionId set"
  assumes start: "xact_inv b (fst (\<sigma> 0)) (snd (\<sigma> 0))"
    and steps: "\<sigma> (Suc t) = \<sigma> t \<or> xact_step b (\<sigma> t) (\<sigma> (Suc t))"
    and assigned: "x \<in> X \<Longrightarrow> before b (next_xid (snd (\<sigma> 0))) x"
    and asks: "x \<in> X \<Longrightarrow> asks_for b (fst (\<sigma> t)) cur (bk t) (snd (\<sigma> t)) x"
    and floor: "TransactionXmin (bk t) = w"
    and verdict: "x \<in> X \<Longrightarrow> before b (next_xid (snd (\<sigma> t))) x \<Longrightarrow> x \<in> f_ended (fst (\<sigma> t)) \<Longrightarrow> t \<le> t'
      \<Longrightarrow> in_log w (snd (\<sigma> t')) x = in_log w (snd (\<sigma> t)) x"
    and main_first: "x \<in> X \<Longrightarrow> before b (next_xid (snd (\<sigma> t))) x \<Longrightarrow> x \<in> f_ended (fst (\<sigma> t)) \<Longrightarrow> in_log w (snd (\<sigma> t)) x
      \<Longrightarrow> f_top (fst (\<sigma> t)) x \<in> f_ended (fst (\<sigma> t))"
begin

lemma trace_run: "t \<le> t' \<Longrightarrow> (xact_step b)\<^sup>*\<^sup>* (\<sigma> t) (\<sigma> t')"
proof (induction t' rule: dec_induct)
  case (step n)
  then show ?case using steps[of n] by (metis rtranclp.rtrancl_into_rtrancl)
qed simp

lemma trace_inv: "xact_inv b (fst (\<sigma> t)) (snd (\<sigma> t))"
  using run_inv[of b "fst (\<sigma> 0)" "snd (\<sigma> 0)" "fst (\<sigma> t)" "snd (\<sigma> t)"] trace_run[of 0 t] start by simp

lemma trace_le: "t \<le> t' \<Longrightarrow> forest_le b (next_xid (snd (\<sigma> t))) (fst (\<sigma> t)) (next_xid (snd (\<sigma> t'))) (fst (\<sigma> t'))"
  using run_inv[of b "fst (\<sigma> t)" "snd (\<sigma> t)" "fst (\<sigma> t')" "snd (\<sigma> t')"] trace_run trace_inv by simp

lemma ended_stays:
  assumes "before b (next_xid (snd (\<sigma> t))) x" "t \<le> t'"
  shows "before b (next_xid (snd (\<sigma> t'))) x" "x \<in> f_ended (fst (\<sigma> t)) \<Longrightarrow> x \<in> f_ended (fst (\<sigma> t'))"
  using trace_le[OF assms(2)] assms(1) by (auto simp: forest_le_def before_def)

lemma fate_cases:
  "system_fate b w \<sigma> t x = Running \<longleftrightarrow> \<not> (before b (next_xid (snd (\<sigma> t))) x \<and> x \<in> f_ended (fst (\<sigma> t)))"
  "system_fate b w \<sigma> t x = Committed \<longleftrightarrow> before b (next_xid (snd (\<sigma> t))) x \<and> x \<in> f_ended (fst (\<sigma> t)) \<and> in_log w (snd (\<sigma> t)) x"
  "system_fate b w \<sigma> t x = Aborted \<longleftrightarrow> before b (next_xid (snd (\<sigma> t))) x \<and> x \<in> f_ended (fst (\<sigma> t)) \<and> \<not> in_log w (snd (\<sigma> t)) x"
  by (auto simp: system_fate_def split: prod.splits)

lemma did_commit_log:
  assumes "x \<in> X"
  shows "did_commit (system_env bk cur rest \<sigma>) t x = in_log w (snd (\<sigma> t)) x"
proof -
  have a: "in_window b (TransactionXmin (bk t))" "subtrans_wf (TransactionXmin (bk t)) (SubTransCtl (snd (\<sigma> t)))"
    "cache_ok (XactCtl (snd (\<sigma> t))) (fetchCache (bk t))" "in_window b x"
    using asks[OF assms, of t] by (auto simp: asks_for_def)
  have "TransactionIdIsValid x" using window_normal[OF a(4)] by (rule valid_of_normal)
  from DidCommit_committed[OF window_normal[OF a(1)] a(2) this a(3)] show ?thesis
    by (auto simp: system_env_def in_log_def floor)
qed

lemma in_progress_answer:
  assumes "x \<in> X"
  shows "live b (fst (\<sigma> t)) (next_xid (snd (\<sigma> t))) x \<Longrightarrow> is_in_progress (system_env bk cur rest \<sigma>) t x"
    "is_in_progress (system_env bk cur rest \<sigma>) t x \<Longrightarrow> \<not> before b (next_xid (snd (\<sigma> t))) x \<or> f_top (fst (\<sigma> t)) x \<notin> f_ended (fst (\<sigma> t))"
  using in_progress_result[OF trace_inv asks[OF assms], of t] by (auto simp: system_env_def)

end

sublocale running_system \<subseteq> sys: xact_history "system_env bk cur rest \<sigma>" "system_fate b w \<sigma>" X
proof
  fix x t t'
  assume x: "x \<in> X"
  have before: "before b (next_xid (snd (\<sigma> t))) x" for t using ended_stays(1)[OF assigned[OF x]] by simp
  have live: "live b (fst (\<sigma> t)) (next_xid (snd (\<sigma> t))) x \<longleftrightarrow> x \<notin> f_ended (fst (\<sigma> t))" for t using before by (simp add: live_def)
  show "system_fate b w \<sigma> t' x = system_fate b w \<sigma> t x" if "system_fate b w \<sigma> t x \<noteq> Running" "t \<le> t'"
  proof -
    have "x \<in> f_ended (fst (\<sigma> t))" using that(1) by (simp add: fate_cases)
    moreover have "x \<in> f_ended (fst (\<sigma> t'))" using ended_stays(2)[OF before that(2)] calculation .
    ultimately show ?thesis using verdict[OF x before _ that(2)] before by (simp add: system_fate_def case_prod_unfold)
  qed
  show "is_in_progress (system_env bk cur rest \<sigma>) t x" if "system_fate b w \<sigma> t x = Running"
    using that in_progress_answer(1)[OF x] live before by (simp add: fate_cases)
  show "\<not> is_in_progress (system_env bk cur rest \<sigma>) t x \<and> did_commit (system_env bk cur rest \<sigma>) t x"
    if "system_fate b w \<sigma> t x = Committed"
    using that main_first[OF x] in_progress_answer(2)[OF x, of t] did_commit_log[OF x] by (auto simp: fate_cases)
  show "\<not> did_commit (system_env bk cur rest \<sigma>) t x" if "system_fate b w \<sigma> t x = Aborted"
    using that did_commit_log[OF x] by (simp add: fate_cases)
  show "system_fate b w \<sigma> t x = Running" if "is_current (system_env bk cur rest \<sigma>) x"
    using that asks[OF x, of t] before by (auto simp: asks_for_def system_env_def fate_cases live_def)
qed

text \<open>What a snapshot should show: a change of the own transaction by an earlier command, and a change of
  another one that had committed when the snapshot was taken.\<close>

definition change_seen ::
    "TransactionId \<Rightarrow> TransactionId \<Rightarrow> forest \<Rightarrow> TransactionId \<Rightarrow> shmem \<Rightarrow> (TransactionId \<Rightarrow> bool) \<Rightarrow> CommandId \<Rightarrow> CommandId \<Rightarrow> TransactionId \<Rightarrow> bool" where
  "change_seen b w g0 nx0 s cur now cid x \<longleftrightarrow>
     (if cur x then cid < now else before b nx0 x \<and> x \<in> f_ended g0 \<and> in_log w s x)"

context running_system
begin

text \<open>A snapshot taken before the trace began classifies the ids by what had ended when it was taken.\<close>

lemma snapshot_classifies:
  assumes snap: "snapshot_of b g0 nx0 excl snap" and g0: "forest_ok b g0 nx0 la0"
    and run: "forest_le b nx0 g0 (next_xid (snd (\<sigma> 0))) (fst (\<sigma> 0))" and low: "xid_pos b w \<le> xid_pos b (snap_xmin snap)"
    and x: "x \<in> X" "before b nx0 x \<Longrightarrow> f_top g0 x \<notin> excl"
    and main: "before b nx0 x \<Longrightarrow> x \<in> f_ended g0 \<Longrightarrow> in_log w (snd (\<sigma> 0)) x \<Longrightarrow> f_top g0 x \<in> f_ended g0"
  shows "\<not> in_snapshot (system_env bk cur rest \<sigma>) x snap \<Longrightarrow> before b nx0 x \<and> x \<in> f_ended g0"
    "before b nx0 x \<Longrightarrow> x \<in> f_ended g0 \<Longrightarrow> in_log w (snd (\<sigma> 0)) x \<Longrightarrow> \<not> in_snapshot (system_env bk cur rest \<sigma>) x snap"
proof -
  have a: "in_window b x" "x \<notin> f_unlinked (fst (\<sigma> 0))" "in_window b w"
    using asks[OF x(1), of 0] by (auto simp: asks_for_def floor)
  have i: "forest_ok b (fst (\<sigma> 0)) (next_xid (snd (\<sigma> 0))) (latest_xid (snd (\<sigma> 0)))"
    "links_ok b (fst (\<sigma> 0)) (next_xid (snd (\<sigma> 0))) (SubTransGetParent (SubTransCtl (snd (\<sigma> 0))))"
    using start by (simp_all add: xact_inv_def)
  obtain r where r: "XidInMVCCSnapshot w (SubTransCtl (snd (\<sigma> 0))) x snap = Some (Inr r)"
    "live b g0 nx0 x \<or> \<not> before b nx0 x \<longrightarrow> r" "r \<longrightarrow> \<not> before b nx0 x \<or> f_top g0 x \<notin> f_ended g0"
    using in_snapshot_iff[OF snap g0 i run a(1) _ a(3) low] a(2) x(2) by blast
  then have "in_snapshot (system_env bk cur rest \<sigma>) x snap = r" by (simp add: system_env_def floor)
  then show "\<not> in_snapshot (system_env bk cur rest \<sigma>) x snap \<Longrightarrow> before b nx0 x \<and> x \<in> f_ended g0"
    "before b nx0 x \<Longrightarrow> x \<in> f_ended g0 \<Longrightarrow> in_log w (snd (\<sigma> 0)) x \<Longrightarrow> \<not> in_snapshot (system_env bk cur rest \<sigma>) x snap"
    using r(2,3) main by (auto simp: live_def)
qed

lemma history: "xact_history (system_env bk cur rest \<sigma>) (system_fate b w \<sigma>) X"
  by (rule sys.xact_history_axioms)

lemma ended_at_start:
  assumes "x \<in> X" "before b nx0 x" "x \<in> f_ended g0" "forest_le b nx0 g0 (next_xid (snd (\<sigma> 0))) (fst (\<sigma> 0))"
  shows "system_fate b w \<sigma> t x = (if in_log w (snd (\<sigma> 0)) x then Committed else Aborted)"
proof -
  have "x \<in> f_ended (fst (\<sigma> 0))" using assms by (simp add: forest_le_def)
  then have "system_fate b w \<sigma> 0 x = (if in_log w (snd (\<sigma> 0)) x then Committed else Aborted)"
    using assigned[OF assms(1)] by (simp add: system_fate_def case_prod_unfold)
  then show ?thesis using sys.fate_stable[OF assms(1), of 0 t] by (simp split: if_splits)
qed

lemma snapshot_seen:
  assumes snap: "snapshot_of b g0 nx0 excl snap" and g0: "forest_ok b g0 nx0 la0"
    and run: "forest_le b nx0 g0 (next_xid (snd (\<sigma> 0))) (fst (\<sigma> 0))" and low: "xid_pos b w \<le> xid_pos b (snap_xmin snap)"
    and excl: "\<forall>x \<in> X. \<not> cur x \<longrightarrow> f_top g0 x \<notin> excl"
    and main: "\<forall>x \<in> X. before b nx0 x \<and> x \<in> f_ended g0 \<and> in_log w (snd (\<sigma> 0)) x \<longrightarrow> f_top g0 x \<in> f_ended g0"
  shows "snapshot_ok (system_env bk cur rest \<sigma>) (system_fate b w \<sigma>) X t snap"
    "x \<in> X \<Longrightarrow> sees (system_env bk cur rest \<sigma>) (system_fate b w \<sigma>) t snap cid x
       = change_seen b w g0 nx0 (snd (\<sigma> 0)) cur (curcid snap) cid x"
proof -
  have cur: "is_current (system_env bk cur rest \<sigma>) = cur" by (simp add: system_env_def)
  note cls = snapshot_classifies[OF snap g0 run low] and ended = ended_at_start[OF _ _ _ run]
  have out: "before b nx0 x \<and> x \<in> f_ended g0" if "x \<in> X" "\<not> cur x" "\<not> in_snapshot (system_env bk cur rest \<sigma>) x snap" for x
    using cls(1)[OF that(1) _ _ that(3)] excl main that by blast
  show "snapshot_ok (system_env bk cur rest \<sigma>) (system_fate b w \<sigma>) X t snap"
    unfolding snapshot_ok_def cur by (intro ballI impI) (use out ended in simp)
  show "sees (system_env bk cur rest \<sigma>) (system_fate b w \<sigma>) t snap cid x
       = change_seen b w g0 nx0 (snd (\<sigma> 0)) cur (curcid snap) cid x" if "x \<in> X"
    unfolding sees_def change_seen_def cur
    using out[OF that] ended[OF that] cls(2)[OF that] excl main that by (auto split: if_splits)
qed

end

section \<open>A small history\<close>

text \<open>Transaction 9 has committed; transaction 10 with its subtransactions 11 and 12 runs at the first
  moment and has aborted at the next.\<close>

definition sample_log :: clog_ctl where
  "sample_log = TransactionIdSetTreeStatus False 9 [] TRANSACTION_STATUS_COMMITTED 0 empty_clog"

definition sample_state :: shmem where
  "sample_state = sample_shmem\<lparr>XactCtl := sample_log\<rparr>"

definition sample_trace :: trace where
  "sample_trace t = (if t = 0 then (sample_forest, sample_state)
     else (forest_end {10, 11, 12} sample_forest, ProcArrayEndTransactionInternal 1 (TransactionIdLatest 10 [11, 12]) sample_state))"

definition sample_rest :: xact_env where
  "sample_rest = \<lparr>is_current = \<lambda>_. False, is_in_progress = \<lambda>_ _. False, did_commit = \<lambda>_ _. False, in_snapshot = \<lambda>_ _. False,
     commit_lsn = \<lambda>_. 0, multi_members = \<lambda>_ _. [], comboCids = \<lambda>_. \<lparr>combo_cmin = 0, combo_cmax = 0\<rparr>, removable = \<lambda>_. False,
     resolve_cids = \<lambda>_. None, BufferIsPermanent = True, XLogNeedsFlush = \<lambda>_. False, BufferGetLSNAtomic = 0\<rparr>"

lemma sample_log_status: "log_status sample_log x = (if x = 9 then TRANSACTION_STATUS_COMMITTED else log_status empty_clog x)"
proof (cases "TransactionIdIsNormal x")
  case True
  have "TransactionIdIsValid 9" "final_status TRANSACTION_STATUS_COMMITTED" by code_simp+
  then show ?thesis using True SetTreeStatus_status[of 9 TRANSACTION_STATUS_COMMITTED False "[]" 0 empty_clog x]
    by (simp add: sample_log_def log_status_def)
next
  case False
  then show ?thesis by (auto simp: log_status_def TransactionIdIsNormal_def FirstNormalTransactionId_def)
qed

lemma sample_state_sel [simp]:
  "next_xid sample_state = 13" "latest_xid sample_state = 9" "SubTransCtl sample_state = SubTransCtl sample_shmem"
  "XactCtl sample_state = sample_log" "pgprocnos sample_state = [1, 4]" "allProcs sample_state = allProcs sample_shmem"
  "TransamVariables sample_state = TransamVariables sample_shmem"
  by (simp_all add: sample_state_def sample_shmem_procs)

lemma sample_state_inv: "xact_inv 3 sample_forest sample_state"
proof -
  have "xact_step 3 (sample_forest, sample_shmem) (sample_forest, sample_state)"
    unfolding sample_state_def sample_log_def
    using xact_step.status[of 3 sample_forest sample_shmem False 9 "[]" TRANSACTION_STATUS_COMMITTED 0] by (simp add: sample_shmem_def)
  from run_inv[OF r_into_rtranclp[of "xact_step 3", OF this] sample_inv] show ?thesis by blast
qed

lemma sample_state_finish:
  "xact_step 3 (sample_forest, sample_state) (forest_end {10, 11, 12} sample_forest,
     ProcArrayEndTransactionInternal 1 (TransactionIdLatest 10 [11, 12]) sample_state)"
proof -
  have tr: "tree 3 sample_forest (next_xid sample_state) 10 = {10, 11, 12}" by (simp add: sample_tree)
  have "1 \<in> set (pgprocnos sample_state)" by simp
  moreover have "count_ok (TransamVariables sample_state)" by (simp add: count_ok_def sample_shmem_def sample_tv_def)
  moreover have "TransactionIdIsValid 10" by (simp add: TransactionIdIsValid_def InvalidTransactionId_def)
  moreover have "10 = proc_xid (allProcs sample_state 1)" by (simp add: sample_shmem_simps)
  moreover have "set [11, 12] = tree 3 sample_forest (next_xid sample_state) 10 - {10}" unfolding tr by auto
  ultimately have "xact_step 3 (sample_forest, sample_state)
      (forest_end (tree 3 sample_forest (next_xid sample_state) 10) sample_forest,
       ProcArrayEndTransactionInternal 1 (TransactionIdLatest 10 [11, 12]) sample_state)"
    by (rule xact_step.finish)
  then show ?thesis unfolding tr .
qed

lemma sample_in_log: "in_log 3 s x \<longleftrightarrow> x = 9" if "XactCtl s = sample_log" "x \<in> {9, 10}"
proof -
  have "log_status empty_clog 10 = 0" by (simp add: TRANSACTION_STATUS_IN_PROGRESS_def log_status_def TransactionIdIsNormal_def FirstNormalTransactionId_def)
  then show ?thesis using that unfolding in_log_def
    by (subst committed_unfold) (auto simp: sample_log_status TRANSACTION_STATUS_COMMITTED_def TRANSACTION_STATUS_SUB_COMMITTED_def)
qed

lemma end_sel [simp]:
  "XactCtl (ProcArrayEndTransactionInternal p l s) = XactCtl s" "SubTransCtl (ProcArrayEndTransactionInternal p l s) = SubTransCtl s"
  "pgprocnos (ProcArrayEndTransactionInternal p l s) = pgprocnos s"
  "nextXid (TransamVariables (ProcArrayEndTransactionInternal p l s)) = nextXid (TransamVariables s)"
  by (simp_all add: ProcArrayEndTransactionInternal_def Let_def clear_subxids_def clear_vacuum_flags_def upd_proc_def MaintainLatestCompletedXid_def)

lemma sample_trace_sel:
  "next_xid (snd (sample_trace t)) = 13" "XactCtl (snd (sample_trace t)) = sample_log"
  "SubTransCtl (snd (sample_trace t)) = SubTransCtl sample_shmem" "pgprocnos (snd (sample_trace t)) = [1, 4]"
  "f_ended (fst (sample_trace t)) = (if t = 0 then {3, 4, 5, 6, 7, 8, 9} else {3, 4, 5, 6, 7, 8, 9, 10, 11, 12})"
  "f_top (fst (sample_trace t)) = f_top sample_forest" "f_unlinked (fst (sample_trace t)) = {}"
  by (auto simp: sample_trace_def forest_end_def sample_forest_def)

lemma sample_asks:
  assumes "x \<in> {9, 10}"
  shows "asks_for 3 (fst (sample_trace t)) (\<lambda>_. False) sample_backend (snd (sample_trace t)) x"
proof -
  have n: "TransactionIdIsNormal 11" "TransactionIdIsNormal 12" "TransactionIdPrecedes 10 11" "TransactionIdPrecedes 11 12"
    "\<not> TransactionIdPrecedes 10 3" "TransactionIdIsNormal 10"
    by code_simp+
  have w: "in_window 3 9" "in_window 3 10"
    by (simp_all add: in_window_def xid_pos_def TransactionIdIsNormal_def FirstNormalTransactionId_def)
  have "subtrans_wf 3 (SubTransCtl sample_shmem)" using n by (simp add: sample_shmem_def subtrans_wf_SetParent)
  moreover have "log_status empty_clog 10 = 0" using n by (simp add: TRANSACTION_STATUS_IN_PROGRESS_def log_status_def)
  then have "\<not> rolled_back (log_status sample_log) (SubTransGetParent (SubTransCtl sample_shmem)) 3 10"
    by (subst rolled_back_unfold) (simp add: sample_log_status TRANSACTION_STATUS_ABORTED_def TRANSACTION_STATUS_SUB_COMMITTED_def)
  moreover have "t = 0 \<Longrightarrow> proc_xid (allProcs (snd (sample_trace t)) 4) = 0" by (simp add: sample_trace_def sample_shmem_simps)
  ultimately show ?thesis using assms n w window_3
    by (auto simp: asks_for_def sample_trace_sel live_def before_sample) (simp_all add: sample_forest_def)
qed

interpretation sample: running_system 3 3 sample_trace "\<lambda>_. sample_backend" "\<lambda>_. False" sample_rest "{9, 10}"
proof
  show "xact_inv 3 (fst (sample_trace 0)) (snd (sample_trace 0))" by (simp add: sample_trace_def sample_state_inv)
  show "sample_trace (Suc t) = sample_trace t \<or> xact_step 3 (sample_trace t) (sample_trace (Suc t))" for t
    using sample_state_finish by (simp add: sample_trace_def)
qed (auto simp: sample_trace_sel sample_asks before_sample sample_in_log, simp_all add: sample_forest_def split: if_splits)

section \<open>Properties\<close>


definition sample_row :: HeapTupleHeaderData where
  "sample_row = \<lparr>t_xmin = 9, t_xmax = 10, t_field3 = 0, t_ctid = \<lparr>ip_blkid = 0, ip_posid = 1\<rparr>, t_infomask2 = 0, t_infomask = 0\<rparr>"

lemma sample_row_deleter [simp]: "deleter env sample_row = Some 10" "\<not> HeapTupleHeaderXminFrozen sample_row"
  by (simp_all add: sample_row_def deleter_def flag_tests)

lemma sample_row_ok:
  "row_ok (system_env (\<lambda>_. sample_backend) (\<lambda>_. False) sample_rest sample_trace) (system_fate 3 3 sample_trace) {9, 10} 0 sample_row"
  unfolding row_ok_def by (simp_all add: flag_tests) (simp_all add: sample_row_def system_env_def)

lemma sample_back:
  assumes "GetSnapshotData False 5 blank_snapshot sample_backend sample_state = (snap, bk1, s1)"
  shows "(xact_step 3)\<^sup>*\<^sup>* (sample_forest, s1) (sample_trace 0)"
proof -
  have ok: "procarray_ok sample_state" using sample_state_inv by (simp add: xact_inv_def)
  have "s1 = sample_state \<or> (\<exists>m. s1 = upd_proc (MyProc sample_backend) (\<lambda>p. p\<lparr>proc_xmin := m\<rparr>) sample_state)"
    using assms by (auto simp: GetSnapshotData_def GetSnapshotDataReuse_def Let_def split: if_splits option.splits)
  then have "xact_step 3 (sample_forest, s1) (sample_forest, sample_state)"
    using ok by (auto intro!: xact_step.local)
  then show ?thesis by (simp add: sample_trace_def r_into_rtranclp)
qed


text \<open>
  C4. What vacuum removes nobody can see.  If \<^verbatim>\<open>HeapTupleSatisfiesVacuum\<close> declares a row dead for a
  horizon \<open>OldestXmin\<close>, then \<^verbatim>\<open>HeapTupleSatisfiesMVCC\<close> answers no on that row, at that moment or any
  later one and whatever hints have been added since, in every backend and for every complete
  snapshot whose \<^verbatim>\<open>xmin\<close> is not before the horizon.
\<close>

theorem HeapTupleSatisfiesVacuum_safe:
  assumes "xact_history env fate X" "row_ok env fate X (vs_time s) (vs_tuple s)"
    and "run_state (HeapTupleSatisfiesVacuum env OldestXmin) s = (HEAPTUPLE_DEAD, s')"
    and "xact_history env' fate X" "multi_members env' = multi_members env"
    and "more_hints env fate (vs_time u) (vs_tuple s') (vs_tuple u)" "vs_time s' \<le> vs_time u"
    and "row_ok env' fate X (vs_time u) (vs_tuple u)" "snapshot_ok env' fate X (vs_time u) (vs_snapshot u)"
    and "\<And>x snap. in_snapshot env' x snap \<Longrightarrow> XidInMVCCSnapshot w ctl x snap = Some (Inr True)"
    and "\<And>x. x \<in> X \<Longrightarrow> in_window b x" "in_window b OldestXmin" "in_window b (snap_xmin (vs_snapshot u))"
    and "xid_pos b OldestXmin \<le> xid_pos b (snap_xmin (vs_snapshot u))"
  shows "\<not> fst (run_state (HeapTupleSatisfiesMVCC env') u)"
proof -
  have dead: "hinted env fate X s s'" "\<not> HeapTupleHeaderXminFrozen (vs_tuple s) \<and> fate (vs_time s') (t_xmin (vs_tuple s)) = Aborted
      \<or> (\<exists>x. deleter env (vs_tuple s) = Some x \<and> fate (vs_time s') x = Committed \<and> TransactionIdPrecedes x OldestXmin)"
    using xact_history.Vacuum_dead_post[OF assms(1,2), of OldestXmin] assms(3) by (auto simp: post_def)
  have m: "more_hints env fate (vs_time s') (vs_tuple s) (vs_tuple s')" using dead(1) by (simp add: hinted_def)
  note same = xact_history.more_hints_same[OF assms(1) m] xact_history.more_hints_same[OF assms(1,6)]
  have env: "deleter env' = deleter env"
    using assms(5) by (auto simp: deleter_def HeapTupleGetUpdateXid_def MultiXactIdGetUpdateXid_def)
  have "\<not> mvcc_visible env' fate (vs_time u) (vs_snapshot u) (vs_tuple u)"
  proof (cases "\<exists>x. deleter env (vs_tuple s) = Some x \<and> fate (vs_time s') x = Committed \<and> TransactionIdPrecedes x OldestXmin")
    case True
    then obtain x where x: "deleter env (vs_tuple s) = Some x" "fate (vs_time s') x = Committed" "TransactionIdPrecedes x OldestXmin" by auto
    note X = xact_history.row_deleter(1)[OF assms(1,2) x(1)]
    have later: "fate (vs_time u) x = Committed" by (rule xact_history.ended_later(1)[OF assms(1) X x(2) assms(7)])
    have d: "deleter env' (vs_tuple u) = Some x" using m assms(6) x later unfolding env more_hints_def by auto
    have "\<not> is_current env' x" using xact_history.current_runs[OF assms(4) X] later by fastforce
    moreover have "TransactionIdPrecedes x (snap_xmin (vs_snapshot u))"
      using x(3) assms(11)[OF X] assms(12-14) by (simp add: Precedes_window)
    then have "\<not> in_snapshot env' x (vs_snapshot u)" using assms(10)[of x "vs_snapshot u"] by (auto simp: XidInMVCCSnapshot_def)
    ultimately show ?thesis using d later by (simp add: mvcc_visible_def delete_seen_def sees_def)
  next
    case False
    then have f: "\<not> HeapTupleHeaderXminFrozen (vs_tuple u)" "fate (vs_time s') (t_xmin (vs_tuple u)) = Aborted" using dead(2) by (auto simp: same)
    note X = xact_history.row_inserter(1)[OF assms(4,8) f(1)]
    have "fate (vs_time u) (t_xmin (vs_tuple u)) = Aborted" by (rule xact_history.ended_later(2)[OF assms(1) X f(2) assms(7)])
    then show ?thesis using f(1) xact_history.aborted_unseen[OF assms(4) X] by (simp add: mvcc_visible_def insert_seen_def)
  qed
  then show ?thesis using xact_history.HeapTupleSatisfiesMVCC_post[OF assms(4,8,9)] by (auto simp: post_def split: prod.splits)
qed

definition sample_dead :: HeapTupleHeaderData where
  "sample_dead = sample_row\<lparr>t_xmax := 9, t_infomask := HEAP_XMIN_COMMITTED OR HEAP_XMAX_COMMITTED\<rparr>"

definition sample_snapshot :: SnapshotData where
  "sample_snapshot = blank_snapshot\<lparr>snap_xmin := 10, snap_xmax := 13, xip := [10]\<rparr>"

definition sample_env :: xact_env where
  "sample_env = system_env (\<lambda>_. sample_backend) (\<lambda>_. False) sample_rest sample_trace"

definition sample_test :: "HeapTupleHeaderData \<Rightarrow> test_state" where
  "sample_test tup = \<lparr>vs_time = 0, vs_tuple = tup, vs_dirty = False, vs_snapshot = sample_snapshot\<rparr>"

lemma sample_test_sel [simp]: "vs_time (sample_test tup) = 0" "vs_tuple (sample_test tup) = tup" "vs_snapshot (sample_test tup) = sample_snapshot"
  by (simp_all add: sample_test_def)

lemma sample_history: "xact_history sample_env (system_fate 3 3 sample_trace) {9, 10}"
  unfolding sample_env_def by (rule sample.history)

lemma sample_env_sel: "is_current sample_env x = False" "multi_members sample_env m l = []"
  "in_snapshot sample_env x snap \<longleftrightarrow> XidInMVCCSnapshot 3 (SubTransCtl (snd (sample_trace 0))) x snap = Some (Inr True)"
  by (simp_all add: sample_env_def system_env_def sample_rest_def split: option.splits sum.splits)

lemma sample_fates: "system_fate 3 3 sample_trace 0 9 = Committed"
  by (simp add: system_fate_def sample_trace_def before_sample sample_in_log) (simp add: sample_forest_def)

lemma sample_snapshot_ok: "snapshot_ok sample_env (system_fate 3 3 sample_trace) {9, 10} 0 sample_snapshot"
proof -
  have "\<not> TransactionIdPrecedes 10 10" "\<not> TransactionIdFollowsOrEquals 10 13" "pg_lfind32 10 [10]" "\<not> pg_lfind32 10 []" by code_simp+
  then show ?thesis
    by (simp add: snapshot_ok_def sample_fates sample_env_sel XidInMVCCSnapshot_def sample_snapshot_def blank_snapshot_def)
qed

lemma sample_dead_bits: "bit (t_infomask sample_dead) n \<longleftrightarrow> n = 8 \<or> n = 10"
  by (auto simp: sample_dead_def bit16_iff[of _ n] upt_16 flag_defs bit_simps)

theorem HeapTupleSatisfiesVacuum_safe_witness:
  "fst (run_state (HeapTupleSatisfiesVacuum sample_env 10) (sample_test sample_dead)) = HEAPTUPLE_DEAD
     \<and> \<not> fst (run_state (HeapTupleSatisfiesMVCC sample_env) (sample_test sample_dead))"
proof -
  let ?s = "sample_test sample_dead" and ?fate = "system_fate 3 3 sample_trace"
  have row: "deleter sample_env sample_dead = Some 9" "t_xmin sample_dead = 9" "t_xmax sample_dead = 9"
    by (simp_all add: deleter_def flag_tests sample_dead_bits) (simp_all add: sample_dead_def sample_row_def)
  have ok: "row_ok sample_env ?fate {9, 10} 0 sample_dead"
    by (simp add: row_ok_def row flag_tests sample_dead_bits sample_env_sel sample_fates)
  have "TransactionIdPrecedes 9 10" by code_simp
  then have r: "run_state (HeapTupleSatisfiesVacuum sample_env 10) ?s = (HEAPTUPLE_DEAD, ?s)"
    by (simp add: HeapTupleSatisfiesVacuum_def HeapTupleSatisfiesVacuumHorizon_def vacuum_xmin_def vacuum_xmax_def vis_run
        flag_tests sample_dead_bits row)
  have w: "in_window 3 9" "in_window 3 10" "xid_pos 3 10 \<le> xid_pos 3 (snap_xmin sample_snapshot)" "snap_xmin sample_snapshot = 10"
    by (simp_all add: in_window_def xid_pos_def TransactionIdIsNormal_def FirstNormalTransactionId_def sample_snapshot_def)
  have "\<not> fst (run_state (HeapTupleSatisfiesMVCC sample_env) ?s)"
    by (rule HeapTupleSatisfiesVacuum_safe[OF sample_history _ r sample_history refl, where b = 3 and w = 3 and ctl = "SubTransCtl (snd (sample_trace 0))"])
      (use ok sample_snapshot_ok w in \<open>auto simp: more_hints_refl sample_env_sel\<close>)
  then show ?thesis using r by simp
qed

text \<open>
  C16. \<^verbatim>\<open>HeapTupleSatisfiesSelf\<close> is atomic.  Although it asks several questions while transactions end, its
  answer is the state of the row at one moment between its start and its end: the insertion was
  committed (or own, or frozen) and no deletion was.  The hints it leaves are true.
\<close>

theorem HeapTupleSatisfiesSelf_atomic:
  assumes "xact_history env fate X" "row_ok env fate X (vs_time s) (vs_tuple s)"
  shows "\<exists>r s' t. run_state (HeapTupleSatisfiesSelf env) s = (r, s') \<and> vs_time s \<le> t \<and> t \<le> vs_time s'
     \<and> r = row_at env fate t (vs_tuple s) \<and> hinted env fate X s s'"
  using xact_history.HeapTupleSatisfiesSelf_post[OF assms] by (auto simp: post_def moment_def split: prod.splits)

lemma sample_row_ok_env: "row_ok sample_env (system_fate 3 3 sample_trace) {9, 10} 0 sample_row"
  unfolding sample_env_def by (rule sample_row_ok)

theorem HeapTupleSatisfiesSelf_atomic_witness:
  "\<exists>r s' t. run_state (HeapTupleSatisfiesSelf sample_env) (sample_test sample_row) = (r, s') \<and> t \<le> vs_time s'
     \<and> r = row_at sample_env (system_fate 3 3 sample_trace) t sample_row"
  using HeapTupleSatisfiesSelf_atomic[OF sample_history, of "sample_test sample_row"] sample_row_ok_env by auto

text \<open>
  C15. What \<^verbatim>\<open>HeapTupleSatisfiesUpdate\<close> reports.  \<^verbatim>\<open>TM_Ok\<close>: at the end of the test the row is there, and no
  transaction that deleted or locked it is running.  \<^verbatim>\<open>TM_Updated\<close> and \<^verbatim>\<open>TM_Deleted\<close>: the transaction that
  updated or deleted the row has committed.  \<^verbatim>\<open>TM_SelfModified\<close>: the own transaction did it, by this
  command or a later one.  \<^verbatim>\<open>TM_Invisible\<close>: the row was not inserted, or inserted or deleted on the wrong
  side of the command.  \<^verbatim>\<open>TM_BeingModified\<close>: somebody who holds the row had not committed.
\<close>

theorem HeapTupleSatisfiesUpdate_meaning:
  assumes "xact_history env fate X" "row_ok env fate X (vs_time s) (vs_tuple s)" "holders_ok env fate X (vs_time s) (vs_tuple s)"
  shows "\<exists>r s'. run_state (HeapTupleSatisfiesUpdate env self cid) s = (r, s') \<and> update_means env fate self cid s s' r
     \<and> hinted env fate X s s'"
  using xact_history.HeapTupleSatisfiesUpdate_post[OF assms, of self cid] by (auto simp: post_def split: prod.splits)

theorem HeapTupleSatisfiesUpdate_meaning_witness:
  "\<exists>r s'. run_state (HeapTupleSatisfiesUpdate sample_env (t_ctid sample_row) 7) (sample_test sample_row) = (r, s')
     \<and> update_means sample_env (system_fate 3 3 sample_trace) (t_ctid sample_row) 7 (sample_test sample_row) s' r"
proof -
  have "holders sample_env sample_row = {10}" by (simp add: holders_def flag_tests) (simp add: sample_row_def)
  then have "holders_ok sample_env (system_fate 3 3 sample_trace) {9, 10} 0 sample_row"
    by (simp add: holders_ok_def flag_tests) (simp add: sample_row_def)
  then show ?thesis
    using HeapTupleSatisfiesUpdate_meaning[OF sample_history, of "sample_test sample_row" "t_ctid sample_row" 7] sample_row_ok_env by auto
qed

end
