(* ===== verification/Xact.thy ===== *)
theory Xact
  imports Horizons
begin

text \<open>
  The transaction manager of a session, \<^verbatim>\<open>src/backend/access/transam/xact.c\<close>: the stack of transaction
  states, the block state machine behind \<^verbatim>\<open>BEGIN\<close>, \<^verbatim>\<open>COMMIT\<close>, \<^verbatim>\<open>ROLLBACK\<close>, \<^verbatim>\<open>PREPARE TRANSACTION\<close> and
  the savepoint commands, the assignment of transaction ids, and the recording of commits and aborts
  in the shared structures of the other theories.  The last sections model how a client drives it:
  \<^verbatim>\<open>exec_simple_query\<close> of \<^verbatim>\<open>tcop/postgres.c\<close> and the transaction statements of \<^verbatim>\<open>tcop/utility.c\<close>.
\<close>

section \<open>States\<close>

datatype TransState = TRANS_DEFAULT | TRANS_START | TRANS_INPROGRESS | TRANS_COMMIT | TRANS_ABORT | TRANS_PREPARE

datatype TBlockState =
    TBLOCK_DEFAULT | TBLOCK_STARTED
  | TBLOCK_BEGIN | TBLOCK_INPROGRESS | TBLOCK_IMPLICIT_INPROGRESS | TBLOCK_PARALLEL_INPROGRESS
  | TBLOCK_END | TBLOCK_ABORT | TBLOCK_ABORT_END | TBLOCK_ABORT_PENDING | TBLOCK_PREPARE
  | TBLOCK_SUBBEGIN | TBLOCK_SUBINPROGRESS | TBLOCK_SUBRELEASE | TBLOCK_SUBCOMMIT | TBLOCK_SUBABORT
  | TBLOCK_SUBABORT_END | TBLOCK_SUBABORT_PENDING | TBLOCK_SUBRESTART | TBLOCK_SUBABORT_RESTART

definition TopSubTransactionId :: SubTransactionId where "TopSubTransactionId = 1"
definition FirstCommandId :: CommandId where "FirstCommandId = 0"
definition InvalidFullTransactionId :: FullTransactionId where
  "InvalidFullTransactionId = \<lparr>fxid_value = 0\<rparr>"
definition XACT_READ_COMMITTED :: int where "XACT_READ_COMMITTED = 1"
definition MaxAllocSize :: nat where "MaxAllocSize = 0x3fffffff"

definition XACT_FLAGS_ACCESSEDTEMPNAMESPACE :: uint32 where "XACT_FLAGS_ACCESSEDTEMPNAMESPACE = 1"
definition XACT_FLAGS_NEEDIMMEDIATECOMMIT :: uint32 where "XACT_FLAGS_NEEDIMMEDIATECOMMIT = 4"
definition XACT_FLAGS_PIPELINING :: uint32 where "XACT_FLAGS_PIPELINING = 8"

text \<open>
  One level of the stack.  \<^verbatim>\<open>childXids\<close> has \<^verbatim>\<open>nChildXids\<close> entries; of the resource owner only whether it
  exists matters here.  The memory context, the GUC nesting level and the saved user are not modelled.
\<close>

record TransactionStateData =
  fullTransactionId :: FullTransactionId
  subTransactionId :: SubTransactionId
  xact_name :: "string option"
  savepointLevel :: int
  state :: TransState
  blockState :: TBlockState
  nestingLevel :: nat
  curTransactionOwner :: bool  \<comment> \<open>not NULL\<close>
  childXids :: "TransactionId list"
  maxChildXids :: nat
  prevXactReadOnly :: bool
  startedInRecovery :: bool
  didLogXid :: bool
  parallelModeLevel :: int
  parallelChildXact :: bool
  chain :: bool
  topXidLogged :: bool

text \<open>Log records written for transactions, and warnings.\<close>

datatype xact_record =
    XLOG_XACT_ASSIGNMENT TransactionId "TransactionId list"
  | XLOG_XACT_COMMIT TransactionId "TransactionId list"
  | XLOG_XACT_ABORT TransactionId "TransactionId list"
  | XLOG_INVALIDATIONS

datatype xact_warning =
    WhileInState string TransState
  | ParallelModeLevelIs int
  | AlreadyInTransaction
  | NoTransactionInProgress
  | OnlyInTransactionBlock string

text \<open>
  The session: \<^verbatim>\<open>CurrentTransactionState\<close> is the first entry of \<open>xstack\<close>, \<^verbatim>\<open>TopTransactionStateData\<close> the
  last one and each entry is the child of the next.  \<open>xlog\<close> collects the records of this session,
  \<open>shared\<close> is the shared memory.
\<close>

record session =
  xstack :: "TransactionStateData list"
  XactTopFullTransactionId :: FullTransactionId
  ParallelCurrentXids :: "TransactionId list"
  currentSubTransactionId :: SubTransactionId
  currentCommandId :: CommandId
  currentCommandIdUsed :: bool
  unreportedXids :: "TransactionId list"
  XactReadOnly :: bool
  XactDeferrable :: bool
  XactIsoLevel :: int
  forceSyncCommit :: bool
  MyXactFlags :: uint32
  prepareGID :: "string option"
  XactLastRecEnd :: XLogRecPtr
  XactLastCommitEnd :: XLogRecPtr
  nextLocalTransactionId :: LocalTransactionId
  xact_started :: bool
  xlog :: "xact_record list"
  warnings :: "xact_warning list"
  bkend :: backend
  shared :: shmem

text \<open>
  How an operation ends: it returns, it raises an error, or it never returns.  Like the jump of
  \<^verbatim>\<open>ereport\<close>, an error keeps the state reached so far.
\<close>

datatype elevel = ERROR | FATAL | PANIC

datatype xact_error =
    UnexpectedBlockState TBlockState
  | UnexpectedTransState TransState
  | PopWithNoParent
  | DuringParallelOperation
  | RequiresTransactionBlock string
  | ActiveTransaction string
  | InsideSubtransaction string
  | InsidePipeline string
  | FromFunction string
  | CannotPreventChain
  | NoSuchSavepoint string
  | NoSuchSavepointInLevel string
  | TooManyCommands
  | TooManySubtransactions
  | TooManyCommittedChildren
  | DeletedFilesButNoXid
  | AbortOfCommitted TransactionId
  | PreparedTemporaryObjects
  | PreparedExportedSnapshots
  | InFailedTransaction
  | ModifyInParallelWorker
  | XidAssignment pg_error
  | Subsystem nat

datatype outcome = Done | Raised elevel xact_error | Stuck

type_synonym xact = "session \<Rightarrow> outcome \<times> session"

primrec steps :: "xact list \<Rightarrow> xact" where
  "steps [] s = (Done, s)"
| "steps (m # ms) s = (case m s of (out, s') \<Rightarrow> if out = Done then steps ms s' else (out, s'))"

definition upd :: "(session \<Rightarrow> session) \<Rightarrow> xact" where
  "upd f s = (Done, f s)"

definition raise :: "elevel \<Rightarrow> xact_error \<Rightarrow> xact" where
  "raise l e s = (Raised l e, s)"

definition warn_if :: "(session \<Rightarrow> bool) \<Rightarrow> (session \<Rightarrow> xact_warning) \<Rightarrow> xact" where
  "warn_if c w s = (Done, if c s then s\<lparr>warnings := warnings s @ [w s]\<rparr> else s)"

abbreviation only_if :: "(session \<Rightarrow> bool) \<Rightarrow> xact \<Rightarrow> xact" where
  "only_if c m \<equiv> \<lambda>s. if c s then m s else (Done, s)"

text \<open>
  What the session depends on.  \<open>hook\<close> stands for the other subsystems that are called at the given
  places and may raise an error; the subsystems that the code calls once the end of a transaction is
  recorded must not fail and are left out.  \<open>rec_end\<close> is the end of the log after a record is inserted;
  \<open>others\<close> is what other processes do while a lock is released, and \<open>lock_free\<close> whether
  \<^verbatim>\<open>ProcArrayLock\<close> is free when the transaction ends.
\<close>

datatype xact_hook = AtStart | PreCommit | PrePrepare | TwoPhase | AtSubStart | PreCommitSub | AtCCI

record xact_conf =
  IsParallelWorker :: bool
  IsBootstrapProcessingMode :: bool
  RecoveryInProgress :: bool
  IsUnderPostmaster :: bool
  DefaultXactReadOnly :: bool
  DefaultXactDeferrable :: bool
  DefaultXactIsoLevel :: int
  XLogLogicalInfoActive :: bool
  XLogStandbyInfoActive :: bool
  synchronous_commit :: bool  \<comment> \<open>above \<^verbatim>\<open>SYNCHRONOUS_COMMIT_OFF\<close>\<close>
  XactHasExportedSnapshots :: bool
  nrels :: nat
  ndroppedstats :: nat
  nmsgs :: nat
  rec_end :: "session \<Rightarrow> XLogRecPtr"
  lock_free :: bool
  others :: "shmem \<Rightarrow> shmem"
  hook :: "xact_hook \<Rightarrow> xact"

section \<open>Access to the stack\<close>

definition current :: "session \<Rightarrow> TransactionStateData" where
  "current s = hd (xstack s)"

definition top_state :: "session \<Rightarrow> TransactionStateData" where
  "top_state s = last (xstack s)"

definition upd_level :: "nat \<Rightarrow> (TransactionStateData \<Rightarrow> TransactionStateData) \<Rightarrow> session \<Rightarrow> session" where
  "upd_level i f s = s\<lparr>xstack := (xstack s)[i := f (xstack s ! i)]\<rparr>"

abbreviation upd_current :: "(TransactionStateData \<Rightarrow> TransactionStateData) \<Rightarrow> session \<Rightarrow> session" where
  "upd_current \<equiv> upd_level 0"

definition upd_top :: "(TransactionStateData \<Rightarrow> TransactionStateData) \<Rightarrow> session \<Rightarrow> session" where
  "upd_top f s = upd_level (length (xstack s) - 1) f s"

definition set_block :: "TBlockState \<Rightarrow> xact" where
  "set_block b = upd (upd_current (\<lambda>x. x\<lparr>blockState := b\<rparr>))"

definition insert_record :: "xact_conf \<Rightarrow> xact_record \<Rightarrow> session \<Rightarrow> session" where
  "insert_record conf r s = s\<lparr>xlog := xlog s @ [r], XactLastRecEnd := rec_end conf s\<rparr>"

definition IsTransactionState :: "session \<Rightarrow> bool" where
  "IsTransactionState s \<longleftrightarrow> state (current s) = TRANS_INPROGRESS"

definition IsAbortedTransactionBlockState :: "session \<Rightarrow> bool" where
  "IsAbortedTransactionBlockState s \<longleftrightarrow>
     blockState (current s) = TBLOCK_ABORT \<or> blockState (current s) = TBLOCK_SUBABORT"

definition IsInParallelMode :: "session \<Rightarrow> bool" where
  "IsInParallelMode s \<longleftrightarrow> parallelModeLevel (current s) \<noteq> 0 \<or> parallelChildXact (current s)"

definition IsTransactionBlock :: "session \<Rightarrow> bool" where
  "IsTransactionBlock s \<longleftrightarrow>
     \<not> (blockState (current s) = TBLOCK_DEFAULT \<or> blockState (current s) = TBLOCK_STARTED)"

definition IsTransactionOrTransactionBlock :: "session \<Rightarrow> bool" where
  "IsTransactionOrTransactionBlock s \<longleftrightarrow> blockState (current s) \<noteq> TBLOCK_DEFAULT"

definition IsSubTransaction :: "session \<Rightarrow> bool" where
  "IsSubTransaction s \<longleftrightarrow> nestingLevel (current s) \<ge> 2"

definition GetTopTransactionIdIfAny :: "session \<Rightarrow> TransactionId" where
  "GetTopTransactionIdIfAny s = XidFromFullTransactionId (XactTopFullTransactionId s)"

definition GetCurrentTransactionIdIfAny :: "session \<Rightarrow> TransactionId" where
  "GetCurrentTransactionIdIfAny s = XidFromFullTransactionId (fullTransactionId (current s))"

fun TransactionBlockStatusCode :: "TBlockState \<Rightarrow> char" where
  "TransactionBlockStatusCode b =
     (if b \<in> {TBLOCK_DEFAULT, TBLOCK_STARTED} then CHR ''I''
      else if b \<in> {TBLOCK_BEGIN, TBLOCK_SUBBEGIN, TBLOCK_INPROGRESS, TBLOCK_IMPLICIT_INPROGRESS,
        TBLOCK_PARALLEL_INPROGRESS, TBLOCK_SUBINPROGRESS, TBLOCK_END, TBLOCK_SUBRELEASE, TBLOCK_SUBCOMMIT,
        TBLOCK_PREPARE} then CHR ''T''
      else CHR ''E'')"

definition SubTransactionIsActive :: "SubTransactionId \<Rightarrow> session \<Rightarrow> bool" where
  "SubTransactionIsActive subxid s =
     list_ex (\<lambda>x. state x \<noteq> TRANS_ABORT \<and> subTransactionId x = subxid) (xstack s)"

definition MarkCurrentTransactionIdLoggedIfAny :: "session \<Rightarrow> session" where
  "MarkCurrentTransactionIdLoggedIfAny s =
     (if FullTransactionIdIsValid (fullTransactionId (current s))
      then upd_current (\<lambda>x. x\<lparr>didLogXid := True\<rparr>) s else s)"

definition IsSubxactTopXidLogPending :: "xact_conf \<Rightarrow> session \<Rightarrow> bool" where
  "IsSubxactTopXidLogPending conf s \<longleftrightarrow>
     \<not> topXidLogged (current s) \<and> XLogLogicalInfoActive conf \<and> IsTransactionState s \<and> IsSubTransaction s
     \<and> TransactionIdIsValid (GetCurrentTransactionIdIfAny s)"

definition MarkSubxactTopXidLogged :: "session \<Rightarrow> session" where
  "MarkSubxactTopXidLogged = upd_current (\<lambda>x. x\<lparr>topXidLogged := True\<rparr>)"

definition EnterParallelMode :: "session \<Rightarrow> session" where
  "EnterParallelMode = upd_current (\<lambda>x. x\<lparr>parallelModeLevel := parallelModeLevel x + 1\<rparr>)"

definition ExitParallelMode :: "session \<Rightarrow> session" where
  "ExitParallelMode = upd_current (\<lambda>x. x\<lparr>parallelModeLevel := parallelModeLevel x - 1\<rparr>)"

section \<open>Assigning transaction ids\<close>

definition GetNextLocalTransactionId :: "LocalTransactionId \<Rightarrow> LocalTransactionId \<times> LocalTransactionId" where
  "GetNextLocalTransactionId n =
     (if n \<noteq> InvalidLocalTransactionId then (n, n + 1) else (n + 1, n + 2))"

text \<open>
  \<^verbatim>\<open>AssignTransactionId\<close> for the level \<open>i\<close> of the stack, once its parents have ids.  The predicate lock
  manager and the lock table, which are told the new id, are not modelled.
\<close>

definition report_xid :: "xact_conf \<Rightarrow> bool \<Rightarrow> TransactionId \<Rightarrow> session \<Rightarrow> session" where
  "report_xid conf log_unknown_top xid s =
     (let s = s\<lparr>unreportedXids := unreportedXids s @ [xid]\<rparr>
      in if length (unreportedXids s) \<ge> PGPROC_MAX_CACHED_SUBXIDS \<or> log_unknown_top
         then upd_top (\<lambda>x. x\<lparr>didLogXid := True\<rparr>)
                ((insert_record conf (XLOG_XACT_ASSIGNMENT (GetTopTransactionIdIfAny s) (unreportedXids s)) s)
                   \<lparr>unreportedXids := []\<rparr>)
         else s)"

definition assign_level :: "xact_conf \<Rightarrow> nat \<Rightarrow> xact" where
  "assign_level conf i s =
     (if IsInParallelMode s \<or> IsParallelWorker conf then (Raised ERROR DuringParallelOperation, s)
      else let isSubXact = (i + 1 < length (xstack s));
               log_unknown_top = (isSubXact \<and> XLogLogicalInfoActive conf \<and> \<not> didLogXid (top_state s))
           in case snd (GetNewTransactionId (IsInParallelMode s) (IsBootstrapProcessingMode conf)
                     (RecoveryInProgress conf) (IsUnderPostmaster conf) (others conf) (MyProc (bkend s))
                     isSubXact (shared s)) of
                Inl err \<Rightarrow> (Raised ERROR (XidAssignment err), s)
              | Inr (full, sh) \<Rightarrow>
                  let s = upd_level i (\<lambda>x. x\<lparr>fullTransactionId := full\<rparr>) (s\<lparr>shared := sh\<rparr>);
                      s = (if isSubXact
                           then s\<lparr>shared := (shared s)\<lparr>SubTransCtl := SubTransSetParent (XidFromFullTransactionId full)
                                    (XidFromFullTransactionId (fullTransactionId (xstack s ! (i + 1)))) (SubTransCtl (shared s))\<rparr>\<rparr>
                           else s\<lparr>XactTopFullTransactionId := full\<rparr>)
                  in (Done, if isSubXact \<and> XLogStandbyInfoActive conf
                            then report_xid conf log_unknown_top (XidFromFullTransactionId full) s else s))"

text \<open>The ancestors without an id get theirs first, from the outermost one on.\<close>

definition AssignTransactionId :: "xact_conf \<Rightarrow> nat \<Rightarrow> xact" where
  "AssignTransactionId conf i s =
     (if IsInParallelMode s \<or> IsParallelWorker conf then (Raised ERROR DuringParallelOperation, s)
      else let n = length (takeWhile (\<lambda>x. \<not> FullTransactionIdIsValid (fullTransactionId x)) (drop (i + 1) (xstack s)))
           in steps (map (assign_level conf) (rev [i..<i + 1 + n])) s)"

definition GetTopTransactionId :: "xact_conf \<Rightarrow> xact" where
  "GetTopTransactionId conf s =
     (if \<not> FullTransactionIdIsValid (XactTopFullTransactionId s)
      then AssignTransactionId conf (length (xstack s) - 1) s else (Done, s))"

definition GetCurrentTransactionId :: "xact_conf \<Rightarrow> xact" where
  "GetCurrentTransactionId conf s =
     (if \<not> FullTransactionIdIsValid (fullTransactionId (current s)) then AssignTransactionId conf 0 s else (Done, s))"

definition GetCurrentCommandId :: "xact_conf \<Rightarrow> bool \<Rightarrow> xact" where
  "GetCurrentCommandId conf used s =
     (if used then if IsParallelWorker conf then (Raised ERROR ModifyInParallelWorker, s)
                   else (Done, s\<lparr>currentCommandIdUsed := True\<rparr>)
      else (Done, s))"

section \<open>Is this transaction id mine?\<close>

text \<open>The two binary searches differ in the order of the array: numeric, or \<^verbatim>\<open>TransactionIdPrecedes\<close>.\<close>

function xid_bsearch :: "(TransactionId \<Rightarrow> TransactionId \<Rightarrow> bool) \<Rightarrow> TransactionId list \<Rightarrow> TransactionId \<Rightarrow> int \<Rightarrow> int \<Rightarrow> bool" where
  "xid_bsearch lt xids xid low high =
     (if low \<le> high
      then let middle = low + (high - low) div 2;
               probe = xids ! nat middle
           in if probe = xid then True
              else if lt probe xid then xid_bsearch lt xids xid (middle + 1) high
              else xid_bsearch lt xids xid low (middle - 1)
      else False)"
  by pat_completeness auto
termination by (relation "measure (\<lambda>(_, _, _, low, high). nat (high - low + 1))") auto

declare xid_bsearch.simps [simp del]

definition level_has_xid :: "TransactionId \<Rightarrow> TransactionStateData \<Rightarrow> bool" where
  "level_has_xid xid x =
     (if state x = TRANS_ABORT then False
      else if \<not> FullTransactionIdIsValid (fullTransactionId x) then False
      else if xid = XidFromFullTransactionId (fullTransactionId x) then True
      else xid_bsearch TransactionIdPrecedes (childXids x) xid 0 (int (length (childXids x)) - 1))"

definition TransactionIdIsCurrentTransactionId :: "TransactionId \<Rightarrow> session \<Rightarrow> bool" where
  "TransactionIdIsCurrentTransactionId xid s =
     (if \<not> TransactionIdIsNormal xid then False
      else if xid = GetTopTransactionIdIfAny s then True
      else if ParallelCurrentXids s \<noteq> []
      then xid_bsearch (<) (ParallelCurrentXids s) xid 0 (int (length (ParallelCurrentXids s)) - 1)
      else list_ex (level_has_xid xid) (xstack s))"

section \<open>Commands\<close>

definition CommandCounterIncrement :: "xact_conf \<Rightarrow> xact" where
  "CommandCounterIncrement conf s =
     (if currentCommandIdUsed s
      then if IsInParallelMode s \<or> IsParallelWorker conf then (Raised ERROR DuringParallelOperation, s)
           else if currentCommandId s + 1 = InvalidCommandId then (Raised ERROR TooManyCommands, s)
           else hook conf AtCCI (s\<lparr>currentCommandId := currentCommandId s + 1, currentCommandIdUsed := False\<rparr>)
      else (Done, s))"

section \<open>Recording the end of a transaction\<close>

definition DELAY_CHKPT_START :: nat where "DELAY_CHKPT_START = 0"  \<comment> \<open>the position of the bit\<close>

definition upd_my_proc :: "(PGPROC \<Rightarrow> PGPROC) \<Rightarrow> session \<Rightarrow> session" where
  "upd_my_proc f s = s\<lparr>shared := upd_proc (MyProc (bkend s)) f (shared s)\<rparr>"

definition xactGetCommittedChildren :: "session \<Rightarrow> TransactionId list" where
  "xactGetCommittedChildren s = childXids (current s)"

text \<open>
  \<^verbatim>\<open>RecordTransactionCommit\<close> returns the latest id of the transaction tree.  Replication origins, commit
  timestamps and the wait for synchronous standbys are not modelled.
\<close>

definition commit_tree :: "xact_conf \<Rightarrow> bool \<Rightarrow> TransactionId \<Rightarrow> TransactionId list \<Rightarrow> session \<Rightarrow> session" where
  "commit_tree conf wrote_xlog xid children s =
     s\<lparr>shared := (shared s)\<lparr>XactCtl :=
         (if wrote_xlog \<and> synchronous_commit conf \<or> forceSyncCommit s \<or> nrels conf > 0
          then TransactionIdCommitTree False xid children
          else TransactionIdAsyncCommitTree False xid children (XactLastRecEnd s)) (XactCtl (shared s))\<rparr>\<rparr>"

definition RecordTransactionCommit :: "xact_conf \<Rightarrow> session \<Rightarrow> outcome \<times> TransactionId \<times> session" where
  "RecordTransactionCommit conf s =
     (let xid = GetTopTransactionIdIfAny s;
          children = xactGetCommittedChildren s;
          wrote_xlog = (XactLastRecEnd s \<noteq> InvalidXLogRecPtr);
          finish = (\<lambda>s. (Done, TransactionIdLatest xid children,
                     s\<lparr>XactLastCommitEnd := XactLastRecEnd s, XactLastRecEnd := InvalidXLogRecPtr\<rparr>))
      in if \<not> TransactionIdIsValid xid
         then if nrels conf \<noteq> 0 \<or> ndroppedstats conf \<noteq> 0 then (Raised ERROR DeletedFilesButNoXid, InvalidTransactionId, s)
              else if XLogStandbyInfoActive conf \<and> nmsgs conf \<noteq> 0 then finish (insert_record conf XLOG_INVALIDATIONS s)
              else if \<not> wrote_xlog then (Done, InvalidTransactionId, s)
              else finish s
         else let s = upd_my_proc (\<lambda>p. p\<lparr>delayChkptFlags := set_bit DELAY_CHKPT_START (delayChkptFlags p)\<rparr>) s;
                  s = insert_record conf (XLOG_XACT_COMMIT xid children) s;
                  s = commit_tree conf wrote_xlog xid children s
              in finish (upd_my_proc (\<lambda>p. p\<lparr>delayChkptFlags := unset_bit DELAY_CHKPT_START (delayChkptFlags p)\<rparr>) s))"

definition RecordTransactionAbort :: "xact_conf \<Rightarrow> bool \<Rightarrow> session \<Rightarrow> outcome \<times> TransactionId \<times> session" where
  "RecordTransactionAbort conf isSubXact s =
     (let xid = GetCurrentTransactionIdIfAny s;
          children = xactGetCommittedChildren s;
          forget_end = (\<lambda>s. if isSubXact then s else s\<lparr>XactLastRecEnd := InvalidXLogRecPtr\<rparr>)
      in if \<not> TransactionIdIsValid xid then (Done, InvalidTransactionId, forget_end s)
         else case TransactionIdDidCommit (TransactionXmin (bkend s)) (XactCtl (shared s)) (SubTransCtl (shared s)) xid
                     (fetchCache (bkend s)) of
                None \<Rightarrow> (Stuck, InvalidTransactionId, s)
              | Some (did, cache) \<Rightarrow>
                  let s = s\<lparr>bkend := (bkend s)\<lparr>fetchCache := cache\<rparr>\<rparr>
                  in if did then (Raised PANIC (AbortOfCommitted xid), InvalidTransactionId, s)
                     else let s = insert_record conf (XLOG_XACT_ABORT xid children) s;
                              s = s\<lparr>shared := (shared s)\<lparr>XactCtl := TransactionIdAbortTree False xid children (XactCtl (shared s))\<rparr>\<rparr>;
                              latestXid = TransactionIdLatest xid children;
                              s = (if isSubXact
                                   then s\<lparr>shared := fst (XidCacheRemoveRunningXids (MyProc (bkend s)) xid children latestXid (shared s))\<rparr>
                                   else s)
                          in (Done, latestXid, forget_end s))"

definition end_in_procarray :: "xact_conf \<Rightarrow> outcome \<times> TransactionId \<times> session \<Rightarrow> outcome \<times> session" where
  "end_in_procarray conf r =
     (case r of (out, latestXid, s) \<Rightarrow>
        if out \<noteq> Done then (out, s)
        else case ProcArrayEndTransaction (lock_free conf) (others conf) (MyProc (bkend s)) latestXid (shared s) of
               None \<Rightarrow> (Stuck, s)
             | Some sh \<Rightarrow> (Done, s\<lparr>shared := sh\<rparr>))"

section \<open>Main transactions\<close>

definition start_fields :: "xact_conf \<Rightarrow> TransactionStateData \<Rightarrow> TransactionStateData" where
  "start_fields conf x = x\<lparr>state := TRANS_START, fullTransactionId := InvalidFullTransactionId, nestingLevel := 1,
     childXids := [], maxChildXids := 0, startedInRecovery := RecoveryInProgress conf,
     subTransactionId := TopSubTransactionId, didLogXid := False, curTransactionOwner := True\<rparr>"

definition start_session :: "xact_conf \<Rightarrow> session \<Rightarrow> session" where
  "start_session conf s =
     (let (vxid, nx) = GetNextLocalTransactionId (nextLocalTransactionId s)
      in upd_my_proc (\<lambda>p. p\<lparr>lxid := vxid\<rparr>) (s\<lparr>xstack := [start_fields conf (top_state s)],
           XactReadOnly := RecoveryInProgress conf \<or> DefaultXactReadOnly conf,
           XactDeferrable := DefaultXactDeferrable conf, XactIsoLevel := DefaultXactIsoLevel conf,
           forceSyncCommit := False, MyXactFlags := 0, currentSubTransactionId := TopSubTransactionId,
           currentCommandId := FirstCommandId, currentCommandIdUsed := False, unreportedXids := [],
           nextLocalTransactionId := nx\<rparr>))"

definition StartTransaction :: "xact_conf \<Rightarrow> xact" where
  "StartTransaction conf =
     steps [upd (start_session conf), hook conf AtStart, upd (upd_current (\<lambda>x. x\<lparr>state := TRANS_INPROGRESS\<rparr>))]"

text \<open>What the three ways to end a transaction reset.\<close>

definition reset_fields :: "session \<Rightarrow> session" where
  "reset_fields s = upd_current (\<lambda>x. x\<lparr>curTransactionOwner := False, fullTransactionId := InvalidFullTransactionId,
       subTransactionId := InvalidSubTransactionId, nestingLevel := 0, childXids := [], maxChildXids := 0,
       state := TRANS_DEFAULT\<rparr>)
     (s\<lparr>XactTopFullTransactionId := InvalidFullTransactionId, ParallelCurrentXids := []\<rparr>)"

definition CommitTransaction :: "xact_conf \<Rightarrow> xact" where
  "CommitTransaction conf s =
     (let is_parallel_worker = (blockState (current s) = TBLOCK_PARALLEL_INPROGRESS)
      in steps [only_if (\<lambda>s. is_parallel_worker) (upd EnterParallelMode),
           warn_if (\<lambda>s. state (current s) \<noteq> TRANS_INPROGRESS) (\<lambda>s. WhileInState ''CommitTransaction'' (state (current s))),
           hook conf PreCommit,
           warn_if (\<lambda>s. parallelModeLevel (current s) \<noteq> (if is_parallel_worker then 1 else 0))
             (\<lambda>s. ParallelModeLevelIs (parallelModeLevel (current s))),
           upd (upd_current (\<lambda>x. x\<lparr>state := TRANS_COMMIT, parallelModeLevel := 0, parallelChildXact := False\<rparr>)),
           (\<lambda>s. end_in_procarray conf (if \<not> is_parallel_worker then RecordTransactionCommit conf s
                                       else (Done, InvalidTransactionId, s))),
           upd reset_fields] s)"

definition PrepareTransaction :: "xact_conf \<Rightarrow> xact" where
  "PrepareTransaction conf =
     steps [GetCurrentTransactionId conf,
       warn_if (\<lambda>s. state (current s) \<noteq> TRANS_INPROGRESS) (\<lambda>s. WhileInState ''PrepareTransaction'' (state (current s))),
       hook conf PrePrepare,
       only_if (\<lambda>s. MyXactFlags s AND XACT_FLAGS_ACCESSEDTEMPNAMESPACE \<noteq> 0) (raise ERROR PreparedTemporaryObjects),
       only_if (\<lambda>s. XactHasExportedSnapshots conf) (raise ERROR PreparedExportedSnapshots),
       upd (upd_current (\<lambda>x. x\<lparr>state := TRANS_PREPARE\<rparr>)),
       hook conf TwoPhase,
       upd (\<lambda>s. s\<lparr>prepareGID := None, XactLastRecEnd := InvalidXLogRecPtr,
                 shared := ProcArrayClearTransaction (MyProc (bkend s)) (shared s)\<rparr>),
       upd reset_fields]"

definition AbortTransaction :: "xact_conf \<Rightarrow> xact" where
  "AbortTransaction conf s =
     (let is_parallel_worker = (blockState (current s) = TBLOCK_PARALLEL_INPROGRESS)
      in steps [warn_if (\<lambda>s. state (current s) \<noteq> TRANS_INPROGRESS \<and> state (current s) \<noteq> TRANS_PREPARE)
             (\<lambda>s. WhileInState ''AbortTransaction'' (state (current s))),
           upd (upd_current (\<lambda>x. x\<lparr>state := TRANS_ABORT, parallelModeLevel := 0, parallelChildXact := False\<rparr>)),
           (\<lambda>s. end_in_procarray conf (if \<not> is_parallel_worker then RecordTransactionAbort conf False s
                                       else (Done, InvalidTransactionId, s)))] s)"

definition CleanupTransaction :: xact where
  "CleanupTransaction =
     steps [only_if (\<lambda>s. state (current s) \<noteq> TRANS_ABORT) (\<lambda>s. raise FATAL (UnexpectedTransState (state (current s))) s),
       upd reset_fields,
       upd (upd_current (\<lambda>x. x\<lparr>parallelModeLevel := 0, parallelChildXact := False\<rparr>))]"

section \<open>Subtransactions\<close>

definition PushTransaction :: xact where
  "PushTransaction s =
     (let p = current s; subid = currentSubTransactionId s + 1
      in if subid = InvalidSubTransactionId then (Raised ERROR TooManySubtransactions, s)
         else (Done, s\<lparr>currentSubTransactionId := subid,
           xstack := \<lparr>fullTransactionId = InvalidFullTransactionId, subTransactionId = subid, xact_name = None,
             savepointLevel = savepointLevel p, state = TRANS_DEFAULT, blockState = TBLOCK_SUBBEGIN,
             nestingLevel = nestingLevel p + 1, curTransactionOwner = False, childXids = [], maxChildXids = 0,
             prevXactReadOnly = XactReadOnly s, startedInRecovery = startedInRecovery p, didLogXid = False,
             parallelModeLevel = 0, parallelChildXact = (parallelModeLevel p \<noteq> 0 \<or> parallelChildXact p),
             chain = False, topXidLogged = False\<rparr> # xstack s\<rparr>))"

definition PopTransaction :: xact where
  "PopTransaction =
     steps [warn_if (\<lambda>s. state (current s) \<noteq> TRANS_DEFAULT) (\<lambda>s. WhileInState ''PopTransaction'' (state (current s))),
       only_if (\<lambda>s. length (xstack s) = 1) (raise FATAL PopWithNoParent),
       upd (\<lambda>s. s\<lparr>xstack := tl (xstack s)\<rparr>)]"

definition StartSubTransaction :: "xact_conf \<Rightarrow> xact" where
  "StartSubTransaction conf =
     steps [warn_if (\<lambda>s. state (current s) \<noteq> TRANS_DEFAULT) (\<lambda>s. WhileInState ''StartSubTransaction'' (state (current s))),
       upd (upd_current (\<lambda>x. x\<lparr>state := TRANS_INPROGRESS, curTransactionOwner := True\<rparr>)),
       hook conf AtSubStart]"

definition AtSubCommit_childXids :: xact where
  "AtSubCommit_childXids s =
     (let x = xstack s ! 0; p = xstack s ! 1;
          new_nChildXids = length (childXids p) + length (childXids x) + 1;
          new_maxChildXids = min (new_nChildXids * 2) (MaxAllocSize div 4)
      in if maxChildXids p < new_nChildXids \<and> new_maxChildXids < new_nChildXids
         then (Raised ERROR TooManyCommittedChildren, s)
         else (Done, upd_level 0 (\<lambda>x. x\<lparr>childXids := [], maxChildXids := 0\<rparr>)
                (upd_level 1 (\<lambda>p. p\<lparr>childXids := childXids p @ [XidFromFullTransactionId (fullTransactionId x)] @ childXids x,
                    maxChildXids := (if maxChildXids p < new_nChildXids then new_maxChildXids else maxChildXids p)\<rparr>) s)))"

definition CommitSubTransaction :: "xact_conf \<Rightarrow> xact" where
  "CommitSubTransaction conf =
     steps [warn_if (\<lambda>s. state (current s) \<noteq> TRANS_INPROGRESS) (\<lambda>s. WhileInState ''CommitSubTransaction'' (state (current s))),
       hook conf PreCommitSub,
       warn_if (\<lambda>s. parallelModeLevel (current s) \<noteq> 0) (\<lambda>s. ParallelModeLevelIs (parallelModeLevel (current s))),
       upd (upd_current (\<lambda>x. x\<lparr>parallelModeLevel := 0, state := TRANS_COMMIT\<rparr>)),
       CommandCounterIncrement conf,
       only_if (\<lambda>s. FullTransactionIdIsValid (fullTransactionId (current s))) AtSubCommit_childXids,
       upd (\<lambda>s. upd_current (\<lambda>x. x\<lparr>curTransactionOwner := False, state := TRANS_DEFAULT\<rparr>)
                  (s\<lparr>XactReadOnly := prevXactReadOnly (current s)\<rparr>)),
       PopTransaction]"

definition AtSubAbort_childXids :: "session \<Rightarrow> session" where
  "AtSubAbort_childXids = upd_current (\<lambda>x. x\<lparr>childXids := [], maxChildXids := 0\<rparr>)"

definition AbortSubTransaction :: "xact_conf \<Rightarrow> xact" where
  "AbortSubTransaction conf =
     steps [warn_if (\<lambda>s. state (current s) \<noteq> TRANS_INPROGRESS) (\<lambda>s. WhileInState ''AbortSubTransaction'' (state (current s))),
       upd (upd_current (\<lambda>x. x\<lparr>state := TRANS_ABORT, parallelModeLevel := 0\<rparr>)),
       only_if (\<lambda>s. curTransactionOwner (current s))
         (\<lambda>s. case RecordTransactionAbort conf True s of (out, _, s) \<Rightarrow>
                if out \<noteq> Done then (out, s)
                else (Done, if FullTransactionIdIsValid (fullTransactionId (current s)) then AtSubAbort_childXids s else s)),
       upd (\<lambda>s. s\<lparr>XactReadOnly := prevXactReadOnly (current s)\<rparr>)]"

definition CleanupSubTransaction :: xact where
  "CleanupSubTransaction =
     steps [warn_if (\<lambda>s. state (current s) \<noteq> TRANS_ABORT) (\<lambda>s. WhileInState ''CleanupSubTransaction'' (state (current s))),
       upd (upd_current (\<lambda>x. x\<lparr>curTransactionOwner := False, state := TRANS_DEFAULT\<rparr>)),
       PopTransaction]"

section \<open>Savepoints\<close>

text \<open>A block state that the code does not expect ends the session.\<close>

definition unexpected :: "elevel \<Rightarrow> xact" where
  "unexpected l s = (Raised l (UnexpectedBlockState (blockState (current s))), s)"

definition set_name :: "string option \<Rightarrow> session \<Rightarrow> session" where
  "set_name nm s = (if nm \<noteq> None then upd_current (\<lambda>x. x\<lparr>xact_name := nm\<rparr>) s else s)"

definition DefineSavepoint :: "xact_conf \<Rightarrow> string option \<Rightarrow> xact" where
  "DefineSavepoint conf nm s =
     (if IsInParallelMode s \<or> IsParallelWorker conf then (Raised ERROR DuringParallelOperation, s)
      else if blockState (current s) \<in> {TBLOCK_INPROGRESS, TBLOCK_SUBINPROGRESS}
      then steps [PushTransaction, upd (set_name nm)] s
      else if blockState (current s) = TBLOCK_IMPLICIT_INPROGRESS
      then (Raised ERROR (RequiresTransactionBlock ''SAVEPOINT''), s)
      else unexpected FATAL s)"

text \<open>The level of the stack that has the given name.\<close>

fun savepoint_index :: "string \<Rightarrow> TransactionStateData list \<Rightarrow> nat option" where
  "savepoint_index nm [] = None"
| "savepoint_index nm (x # xs) =
     (if xact_name x = Some nm then Some 0 else map_option Suc (savepoint_index nm xs))"

definition find_savepoint :: "string \<Rightarrow> session \<Rightarrow> xact_error + nat" where
  "find_savepoint nm s =
     (case savepoint_index nm (xstack s) of
        None \<Rightarrow> Inl (NoSuchSavepoint nm)
      | Some i \<Rightarrow> if savepointLevel (xstack s ! i) \<noteq> savepointLevel (current s) then Inl (NoSuchSavepointInLevel nm)
                  else Inr i)"

definition ReleaseSavepoint :: "xact_conf \<Rightarrow> string \<Rightarrow> xact" where
  "ReleaseSavepoint conf nm s =
     (if IsInParallelMode s \<or> IsParallelWorker conf then (Raised ERROR DuringParallelOperation, s)
      else if blockState (current s) = TBLOCK_INPROGRESS then (Raised ERROR (NoSuchSavepoint nm), s)
      else if blockState (current s) = TBLOCK_IMPLICIT_INPROGRESS
      then (Raised ERROR (RequiresTransactionBlock ''RELEASE SAVEPOINT''), s)
      else if blockState (current s) = TBLOCK_SUBINPROGRESS
      then case find_savepoint nm s of
             Inl e \<Rightarrow> (Raised ERROR e, s)
           | Inr i \<Rightarrow> (Done, s\<lparr>xstack := map (\<lambda>x. x\<lparr>blockState := TBLOCK_SUBRELEASE\<rparr>) (take (i + 1) (xstack s))
                                         @ drop (i + 1) (xstack s)\<rparr>)
      else unexpected FATAL s)"

text \<open>
  The loops that mark the levels from the current one outwards: \<open>f\<close> gives the new block state of a
  level, or None where the code ends the session; then the levels before it have been marked.
\<close>

fun mark_levels :: "(TBlockState \<Rightarrow> TBlockState option) list \<Rightarrow> TransactionStateData list
    \<Rightarrow> TBlockState option \<times> TransactionStateData list" where
  "mark_levels (f # fs) (x # xs) =
     (case f (blockState x) of
        None \<Rightarrow> (Some (blockState x), x # xs)
      | Some b \<Rightarrow> (case mark_levels fs xs of (err, ys) \<Rightarrow> (err, x\<lparr>blockState := b\<rparr> # ys)))"
| "mark_levels fs xs = (None, xs)"

definition mark_stack :: "(TBlockState \<Rightarrow> TBlockState option) list \<Rightarrow> xact" where
  "mark_stack fs s =
     (case mark_levels fs (xstack s) of (err, ys) \<Rightarrow>
        (case err of None \<Rightarrow> Done | Some b \<Rightarrow> Raised FATAL (UnexpectedBlockState b), s\<lparr>xstack := ys\<rparr>))"

definition mark_abort :: "TBlockState \<Rightarrow> TBlockState \<Rightarrow> TBlockState \<Rightarrow> TBlockState \<Rightarrow> TBlockState \<Rightarrow> TBlockState option" where
  "mark_abort active active' failed failed' b =
     (if b = active then Some active' else if b = failed then Some failed' else None)"

definition RollbackToSavepoint :: "xact_conf \<Rightarrow> string \<Rightarrow> xact" where
  "RollbackToSavepoint conf nm s =
     (if IsInParallelMode s \<or> IsParallelWorker conf then (Raised ERROR DuringParallelOperation, s)
      else if blockState (current s) \<in> {TBLOCK_INPROGRESS, TBLOCK_ABORT} then (Raised ERROR (NoSuchSavepoint nm), s)
      else if blockState (current s) = TBLOCK_IMPLICIT_INPROGRESS
      then (Raised ERROR (RequiresTransactionBlock ''ROLLBACK TO SAVEPOINT''), s)
      else if blockState (current s) \<in> {TBLOCK_SUBINPROGRESS, TBLOCK_SUBABORT}
      then case find_savepoint nm s of
             Inl e \<Rightarrow> (Raised ERROR e, s)
           | Inr i \<Rightarrow> mark_stack
                (replicate i (mark_abort TBLOCK_SUBINPROGRESS TBLOCK_SUBABORT_PENDING TBLOCK_SUBABORT TBLOCK_SUBABORT_END)
                 @ [mark_abort TBLOCK_SUBINPROGRESS TBLOCK_SUBRESTART TBLOCK_SUBABORT TBLOCK_SUBABORT_RESTART]) s
      else unexpected FATAL s)"

section \<open>Transaction blocks\<close>

definition StartTransactionCommand :: "xact_conf \<Rightarrow> xact" where
  "StartTransactionCommand conf s =
     (if blockState (current s) = TBLOCK_DEFAULT then steps [StartTransaction conf, set_block TBLOCK_STARTED] s
      else if blockState (current s) \<in> {TBLOCK_INPROGRESS, TBLOCK_IMPLICIT_INPROGRESS, TBLOCK_SUBINPROGRESS,
                TBLOCK_ABORT, TBLOCK_SUBABORT} then (Done, s)
      else unexpected ERROR s)"

text \<open>\<^verbatim>\<open>COMMIT AND CHAIN\<close> and \<^verbatim>\<open>ROLLBACK AND CHAIN\<close>: \<open>s0\<close> is the state with the characteristics to keep.\<close>

definition RestoreTransactionCharacteristics :: "session \<Rightarrow> session \<Rightarrow> session" where
  "RestoreTransactionCharacteristics s0 s =
     s\<lparr>XactIsoLevel := XactIsoLevel s0, XactReadOnly := XactReadOnly s0, XactDeferrable := XactDeferrable s0\<rparr>"

definition end_or_chain :: "xact_conf \<Rightarrow> session \<Rightarrow> xact" where
  "end_or_chain conf s0 =
     steps [set_block TBLOCK_DEFAULT,
       only_if (\<lambda>s. chain (current s))
         (steps [StartTransaction conf, set_block TBLOCK_INPROGRESS, upd (upd_current (\<lambda>x. x\<lparr>chain := False\<rparr>)),
            upd (RestoreTransactionCharacteristics s0)])]"

partial_function (option) commit_sub_loop :: "xact_conf \<Rightarrow> TBlockState \<Rightarrow> session \<Rightarrow> (outcome \<times> session) option" where
  "commit_sub_loop conf b s =
     (let r = CommitSubTransaction conf s
      in if fst r = Done \<and> blockState (current (snd r)) = b then commit_sub_loop conf b (snd r) else Some r)"

definition loop_result :: "(session \<Rightarrow> (outcome \<times> session) option) \<Rightarrow> xact" where
  "loop_result f s = (case f s of None \<Rightarrow> (Stuck, s) | Some r \<Rightarrow> r)"

definition restart_savepoint :: "xact_conf \<Rightarrow> xact list \<Rightarrow> xact" where
  "restart_savepoint conf undo s =
     (let nm = xact_name (current s); lev = savepointLevel (current s)
      in steps ([upd (upd_current (\<lambda>x. x\<lparr>xact_name := None\<rparr>))] @ undo @
           [DefineSavepoint conf None,
            upd (upd_current (\<lambda>x. x\<lparr>xact_name := nm, savepointLevel := lev\<rparr>)),
            StartSubTransaction conf, set_block TBLOCK_SUBINPROGRESS]) s)"

text \<open>The boolean result is whether the command is complete.\<close>

definition CommitTransactionCommandInternal :: "xact_conf \<Rightarrow> session \<Rightarrow> bool \<times> outcome \<times> session" where
  "CommitTransactionCommandInternal conf s =
     (case blockState (current s) of
        TBLOCK_DEFAULT \<Rightarrow> (True, unexpected FATAL s)
      | TBLOCK_PARALLEL_INPROGRESS \<Rightarrow> (True, unexpected FATAL s)
      | TBLOCK_STARTED \<Rightarrow> (True, steps [CommitTransaction conf, set_block TBLOCK_DEFAULT] s)
      | TBLOCK_BEGIN \<Rightarrow> (True, set_block TBLOCK_INPROGRESS s)
      | TBLOCK_INPROGRESS \<Rightarrow> (True, CommandCounterIncrement conf s)
      | TBLOCK_IMPLICIT_INPROGRESS \<Rightarrow> (True, CommandCounterIncrement conf s)
      | TBLOCK_SUBINPROGRESS \<Rightarrow> (True, CommandCounterIncrement conf s)
      | TBLOCK_END \<Rightarrow> (True, steps [CommitTransaction conf, end_or_chain conf s] s)
      | TBLOCK_ABORT \<Rightarrow> (True, Done, s)
      | TBLOCK_SUBABORT \<Rightarrow> (True, Done, s)
      | TBLOCK_ABORT_END \<Rightarrow> (True, steps [CleanupTransaction, end_or_chain conf s] s)
      | TBLOCK_ABORT_PENDING \<Rightarrow> (True, steps [AbortTransaction conf, CleanupTransaction, end_or_chain conf s] s)
      | TBLOCK_PREPARE \<Rightarrow> (True, steps [PrepareTransaction conf, set_block TBLOCK_DEFAULT] s)
      | TBLOCK_SUBBEGIN \<Rightarrow> (True, steps [StartSubTransaction conf, set_block TBLOCK_SUBINPROGRESS] s)
      | TBLOCK_SUBRELEASE \<Rightarrow> (True, loop_result (commit_sub_loop conf TBLOCK_SUBRELEASE) s)
      | TBLOCK_SUBCOMMIT \<Rightarrow> (True, steps [loop_result (commit_sub_loop conf TBLOCK_SUBCOMMIT),
          (\<lambda>s'. if blockState (current s') = TBLOCK_END then steps [CommitTransaction conf, end_or_chain conf s] s'
                else if blockState (current s') = TBLOCK_PREPARE
                then steps [PrepareTransaction conf, set_block TBLOCK_DEFAULT] s'
                else unexpected ERROR s')] s)
      | TBLOCK_SUBABORT_END \<Rightarrow> (False, CleanupSubTransaction s)
      | TBLOCK_SUBABORT_PENDING \<Rightarrow> (False, steps [AbortSubTransaction conf, CleanupSubTransaction] s)
      | TBLOCK_SUBRESTART \<Rightarrow> (True, restart_savepoint conf [AbortSubTransaction conf, CleanupSubTransaction] s)
      | TBLOCK_SUBABORT_RESTART \<Rightarrow> (True, restart_savepoint conf [CleanupSubTransaction] s))"

partial_function (option) CommitTransactionCommand :: "xact_conf \<Rightarrow> session \<Rightarrow> (outcome \<times> session) option" where
  "CommitTransactionCommand conf s =
     (let r = CommitTransactionCommandInternal conf s
      in if \<not> fst r \<and> fst (snd r) = Done then CommitTransactionCommand conf (snd (snd r)) else Some (snd r))"

definition AbortCurrentTransactionInternal :: "xact_conf \<Rightarrow> session \<Rightarrow> bool \<times> outcome \<times> session" where
  "AbortCurrentTransactionInternal conf s =
     (let b = blockState (current s);
          abort_and_cleanup = steps [AbortTransaction conf, CleanupTransaction]
      in if b = TBLOCK_DEFAULT
         then (True, if state (current s) = TRANS_DEFAULT then (Done, s)
                     else steps [only_if (\<lambda>s. state (current s) = TRANS_START)
                                   (upd (upd_current (\<lambda>x. x\<lparr>state := TRANS_INPROGRESS\<rparr>))), abort_and_cleanup] s)
         else if b \<in> {TBLOCK_STARTED, TBLOCK_IMPLICIT_INPROGRESS, TBLOCK_BEGIN, TBLOCK_END, TBLOCK_ABORT_PENDING, TBLOCK_PREPARE}
         then (True, steps [abort_and_cleanup, set_block TBLOCK_DEFAULT] s)
         else if b \<in> {TBLOCK_INPROGRESS, TBLOCK_PARALLEL_INPROGRESS}
         then (True, steps [AbortTransaction conf, set_block TBLOCK_ABORT] s)
         else if b \<in> {TBLOCK_ABORT, TBLOCK_SUBABORT} then (True, Done, s)
         else if b = TBLOCK_ABORT_END then (True, steps [CleanupTransaction, set_block TBLOCK_DEFAULT] s)
         else if b = TBLOCK_SUBINPROGRESS then (True, steps [AbortSubTransaction conf, set_block TBLOCK_SUBABORT] s)
         else if b \<in> {TBLOCK_SUBBEGIN, TBLOCK_SUBRELEASE, TBLOCK_SUBCOMMIT, TBLOCK_SUBABORT_PENDING, TBLOCK_SUBRESTART}
         then (False, steps [AbortSubTransaction conf, CleanupSubTransaction] s)
         else (False, CleanupSubTransaction s))"

partial_function (option) AbortCurrentTransaction :: "xact_conf \<Rightarrow> session \<Rightarrow> (outcome \<times> session) option" where
  "AbortCurrentTransaction conf s =
     (let r = AbortCurrentTransactionInternal conf s
      in if \<not> fst r \<and> fst (snd r) = Done then AbortCurrentTransaction conf (snd (snd r)) else Some (snd r))"

definition BeginTransactionBlock :: xact where
  "BeginTransactionBlock s =
     (if blockState (current s) \<in> {TBLOCK_STARTED, TBLOCK_IMPLICIT_INPROGRESS} then set_block TBLOCK_BEGIN s
      else if blockState (current s) \<in> {TBLOCK_INPROGRESS, TBLOCK_PARALLEL_INPROGRESS, TBLOCK_SUBINPROGRESS,
                TBLOCK_ABORT, TBLOCK_SUBABORT}
      then warn_if (\<lambda>_. True) (\<lambda>_. AlreadyInTransaction) s
      else unexpected FATAL s)"

definition require_block_for_chain :: "string \<Rightarrow> bool \<Rightarrow> xact" where
  "require_block_for_chain stmtType ch =
     (if ch then raise ERROR (RequiresTransactionBlock stmtType) else warn_if (\<lambda>_. True) (\<lambda>_. NoTransactionInProgress))"

definition abort_marks :: "nat \<Rightarrow> (TBlockState \<Rightarrow> TBlockState option) list" where
  "abort_marks n =
     replicate (n - 1) (mark_abort TBLOCK_SUBINPROGRESS TBLOCK_SUBABORT_PENDING TBLOCK_SUBABORT TBLOCK_SUBABORT_END)
     @ [mark_abort TBLOCK_INPROGRESS TBLOCK_ABORT_PENDING TBLOCK_ABORT TBLOCK_ABORT_END]"

definition commit_marks :: "nat \<Rightarrow> (TBlockState \<Rightarrow> TBlockState option) list" where
  "commit_marks n =
     replicate (n - 1) (\<lambda>b. if b = TBLOCK_SUBINPROGRESS then Some TBLOCK_SUBCOMMIT else None)
     @ [\<lambda>b. if b = TBLOCK_INPROGRESS then Some TBLOCK_END else None]"

text \<open>The result of \<^verbatim>\<open>EndTransactionBlock\<close> is whether the transaction is going to commit.\<close>

definition set_chain :: "bool \<Rightarrow> xact" where
  "set_chain ch = upd (upd_top (\<lambda>x. x\<lparr>chain := ch\<rparr>))"

definition EndTransactionBlock :: "bool \<Rightarrow> session \<Rightarrow> bool \<times> outcome \<times> session" where
  "EndTransactionBlock ch s =
     (case blockState (current s) of
        TBLOCK_INPROGRESS \<Rightarrow> (True, steps [set_block TBLOCK_END, set_chain ch] s)
      | TBLOCK_IMPLICIT_INPROGRESS \<Rightarrow>
          (True, steps [require_block_for_chain ''COMMIT AND CHAIN'' ch, set_block TBLOCK_END, set_chain ch] s)
      | TBLOCK_ABORT \<Rightarrow> (False, steps [set_block TBLOCK_ABORT_END, set_chain ch] s)
      | TBLOCK_SUBINPROGRESS \<Rightarrow> (True, steps [mark_stack (commit_marks (length (xstack s))), set_chain ch] s)
      | TBLOCK_SUBABORT \<Rightarrow> (False, steps [mark_stack (abort_marks (length (xstack s))), set_chain ch] s)
      | TBLOCK_STARTED \<Rightarrow> (True, steps [require_block_for_chain ''COMMIT AND CHAIN'' ch, set_chain ch] s)
      | TBLOCK_PARALLEL_INPROGRESS \<Rightarrow> (False, Raised FATAL DuringParallelOperation, s)
      | _ \<Rightarrow> (False, unexpected FATAL s))"

definition PrepareTransactionBlock :: "string \<Rightarrow> session \<Rightarrow> bool \<times> outcome \<times> session" where
  "PrepareTransactionBlock gid s =
     (case EndTransactionBlock False s of (result, out, s) \<Rightarrow>
        if out = Done \<and> result
        then if blockState (top_state s) = TBLOCK_END
             then (True, Done, upd_top (\<lambda>x. x\<lparr>blockState := TBLOCK_PREPARE\<rparr>) (s\<lparr>prepareGID := Some gid\<rparr>))
             else (False, Done, s)
        else (result, out, s))"

definition UserAbortTransactionBlock :: "bool \<Rightarrow> xact" where
  "UserAbortTransactionBlock ch s =
     (case blockState (current s) of
        TBLOCK_INPROGRESS \<Rightarrow> steps [set_block TBLOCK_ABORT_PENDING, set_chain ch] s
      | TBLOCK_ABORT \<Rightarrow> steps [set_block TBLOCK_ABORT_END, set_chain ch] s
      | TBLOCK_SUBINPROGRESS \<Rightarrow> steps [mark_stack (abort_marks (length (xstack s))), set_chain ch] s
      | TBLOCK_SUBABORT \<Rightarrow> steps [mark_stack (abort_marks (length (xstack s))), set_chain ch] s
      | TBLOCK_STARTED \<Rightarrow>
          steps [require_block_for_chain ''ROLLBACK AND CHAIN'' ch, set_block TBLOCK_ABORT_PENDING, set_chain ch] s
      | TBLOCK_IMPLICIT_INPROGRESS \<Rightarrow>
          steps [require_block_for_chain ''ROLLBACK AND CHAIN'' ch, set_block TBLOCK_ABORT_PENDING, set_chain ch] s
      | TBLOCK_PARALLEL_INPROGRESS \<Rightarrow> (Raised FATAL DuringParallelOperation, s)
      | _ \<Rightarrow> unexpected FATAL s)"

definition BeginImplicitTransactionBlock :: "session \<Rightarrow> session" where
  "BeginImplicitTransactionBlock s =
     (if blockState (current s) = TBLOCK_STARTED
      then upd_current (\<lambda>x. x\<lparr>blockState := TBLOCK_IMPLICIT_INPROGRESS\<rparr>) s else s)"

definition EndImplicitTransactionBlock :: "session \<Rightarrow> session" where
  "EndImplicitTransactionBlock s =
     (if blockState (current s) = TBLOCK_IMPLICIT_INPROGRESS
      then upd_current (\<lambda>x. x\<lparr>blockState := TBLOCK_STARTED\<rparr>) s else s)"

section \<open>Internal subtransactions\<close>

definition exit_on_error :: "xact \<Rightarrow> xact" where
  "exit_on_error m s = (case m s of (out, s') \<Rightarrow> (case out of Raised ERROR e \<Rightarrow> Raised FATAL e | _ \<Rightarrow> out, s'))"

definition BeginInternalSubTransaction :: "xact_conf \<Rightarrow> string option \<Rightarrow> xact" where
  "BeginInternalSubTransaction conf nm = exit_on_error (\<lambda>s.
     if blockState (current s) \<in> {TBLOCK_STARTED, TBLOCK_INPROGRESS, TBLOCK_IMPLICIT_INPROGRESS,
          TBLOCK_PARALLEL_INPROGRESS, TBLOCK_END, TBLOCK_PREPARE, TBLOCK_SUBINPROGRESS}
     then steps [PushTransaction, upd (set_name nm), loop_result (CommitTransactionCommand conf), StartTransactionCommand conf] s
     else unexpected FATAL s)"

definition ReleaseCurrentSubTransaction :: "xact_conf \<Rightarrow> xact" where
  "ReleaseCurrentSubTransaction conf s =
     (if blockState (current s) \<noteq> TBLOCK_SUBINPROGRESS then unexpected ERROR s else CommitSubTransaction conf s)"

definition RollbackAndReleaseCurrentSubTransaction :: "xact_conf \<Rightarrow> xact" where
  "RollbackAndReleaseCurrentSubTransaction conf s =
     (if blockState (current s) \<in> {TBLOCK_SUBINPROGRESS, TBLOCK_SUBABORT}
      then steps [only_if (\<lambda>s. blockState (current s) = TBLOCK_SUBINPROGRESS) (AbortSubTransaction conf),
             CleanupSubTransaction] s
      else unexpected FATAL s)"

section \<open>The end of the session\<close>

definition abort_out_step :: "xact_conf \<Rightarrow> xact" where
  "abort_out_step conf s =
     (let b = blockState (current s);
          abort_and_cleanup = steps [AbortTransaction conf, CleanupTransaction]
      in if b = TBLOCK_DEFAULT
         then if state (current s) = TRANS_DEFAULT then (Done, s)
              else steps [only_if (\<lambda>s. state (current s) = TRANS_START)
                            (upd (upd_current (\<lambda>x. x\<lparr>state := TRANS_INPROGRESS\<rparr>))), abort_and_cleanup] s
         else if b \<in> {TBLOCK_STARTED, TBLOCK_BEGIN, TBLOCK_INPROGRESS, TBLOCK_IMPLICIT_INPROGRESS,
                TBLOCK_PARALLEL_INPROGRESS, TBLOCK_END, TBLOCK_ABORT_PENDING, TBLOCK_PREPARE}
         then steps [abort_and_cleanup, set_block TBLOCK_DEFAULT] s
         else if b \<in> {TBLOCK_ABORT, TBLOCK_ABORT_END} then steps [CleanupTransaction, set_block TBLOCK_DEFAULT] s
         else if b \<in> {TBLOCK_SUBBEGIN, TBLOCK_SUBINPROGRESS, TBLOCK_SUBRELEASE, TBLOCK_SUBCOMMIT,
                TBLOCK_SUBABORT_PENDING, TBLOCK_SUBRESTART}
         then steps [AbortSubTransaction conf, CleanupSubTransaction] s
         else CleanupSubTransaction s)"

partial_function (option) AbortOutOfAnyTransaction :: "xact_conf \<Rightarrow> session \<Rightarrow> (outcome \<times> session) option" where
  "AbortOutOfAnyTransaction conf s =
     (let r = abort_out_step conf s
      in if fst r = Done \<and> blockState (current (snd r)) \<noteq> TBLOCK_DEFAULT
         then AbortOutOfAnyTransaction conf (snd r) else Some r)"

section \<open>Commands that depend on the block\<close>

definition PreventInTransactionBlock :: "bool \<Rightarrow> string \<Rightarrow> xact" where
  "PreventInTransactionBlock isTopLevel stmtType s =
     (if IsTransactionBlock s then (Raised ERROR (ActiveTransaction stmtType), s)
      else if IsSubTransaction s then (Raised ERROR (InsideSubtransaction stmtType), s)
      else if MyXactFlags s AND XACT_FLAGS_PIPELINING \<noteq> 0 then (Raised ERROR (InsidePipeline stmtType), s)
      else if \<not> isTopLevel then (Raised ERROR (FromFunction stmtType), s)
      else if blockState (current s) \<noteq> TBLOCK_DEFAULT \<and> blockState (current s) \<noteq> TBLOCK_STARTED
      then (Raised FATAL CannotPreventChain, s)
      else (Done, s\<lparr>MyXactFlags := MyXactFlags s OR XACT_FLAGS_NEEDIMMEDIATECOMMIT\<rparr>))"

definition CheckTransactionBlock :: "bool \<Rightarrow> bool \<Rightarrow> string \<Rightarrow> xact" where
  "CheckTransactionBlock isTopLevel throwError stmtType s =
     (if IsTransactionBlock s \<or> IsSubTransaction s \<or> \<not> isTopLevel then (Done, s)
      else if throwError then (Raised ERROR (RequiresTransactionBlock stmtType), s)
      else warn_if (\<lambda>_. True) (\<lambda>_. OnlyInTransactionBlock stmtType) s)"

definition IsInTransactionBlock :: "bool \<Rightarrow> session \<Rightarrow> bool" where
  "IsInTransactionBlock isTopLevel s =
     (IsTransactionBlock s \<or> IsSubTransaction s \<or> MyXactFlags s AND XACT_FLAGS_PIPELINING \<noteq> 0 \<or> \<not> isTopLevel
      \<or> blockState (current s) \<noteq> TBLOCK_DEFAULT \<and> blockState (current s) \<noteq> TBLOCK_STARTED)"

section \<open>Parallel workers\<close>

record SerializedTransactionState =
  ser_xactIsoLevel :: int
  ser_xactDeferrable :: bool
  ser_topFullTransactionId :: FullTransactionId
  ser_currentFullTransactionId :: FullTransactionId
  ser_currentCommandId :: CommandId
  ser_parallelCurrentXids :: "TransactionId list"

definition level_xids :: "TransactionStateData \<Rightarrow> TransactionId list" where
  "level_xids x =
     (if FullTransactionIdIsValid (fullTransactionId x) then [XidFromFullTransactionId (fullTransactionId x)] else [])
     @ childXids x"

definition SerializeTransactionState :: "session \<Rightarrow> SerializedTransactionState" where
  "SerializeTransactionState s =
     \<lparr>ser_xactIsoLevel = XactIsoLevel s, ser_xactDeferrable = XactDeferrable s,
      ser_topFullTransactionId = XactTopFullTransactionId s,
      ser_currentFullTransactionId = fullTransactionId (current s), ser_currentCommandId = currentCommandId s,
      ser_parallelCurrentXids =
        (if ParallelCurrentXids s \<noteq> [] then ParallelCurrentXids s
         else sort (concat (map level_xids (xstack s))))\<rparr>"

definition StartParallelWorkerTransaction :: "xact_conf \<Rightarrow> SerializedTransactionState \<Rightarrow> xact" where
  "StartParallelWorkerTransaction conf tstate =
     steps [StartTransaction conf,
       upd (\<lambda>s. s\<lparr>XactIsoLevel := ser_xactIsoLevel tstate, XactDeferrable := ser_xactDeferrable tstate,
                 XactTopFullTransactionId := ser_topFullTransactionId tstate,
                 currentCommandId := ser_currentCommandId tstate,
                 ParallelCurrentXids := ser_parallelCurrentXids tstate\<rparr>),
       upd (upd_current (\<lambda>x. x\<lparr>fullTransactionId := ser_currentFullTransactionId tstate\<rparr>)),
       set_block TBLOCK_PARALLEL_INPROGRESS]"

definition EndParallelWorkerTransaction :: "xact_conf \<Rightarrow> xact" where
  "EndParallelWorkerTransaction conf = steps [CommitTransaction conf, set_block TBLOCK_DEFAULT]"

section \<open>What a query does to the session\<close>

text \<open>
  A query may need a transaction id, mark rows with the command id, fail, or run a block with an
  exception handler as \<^verbatim>\<open>exec_stmt_block\<close> of PL/pgSQL does: the body in an internal subtransaction and,
  when it fails and the condition matches, the handler after its rollback.
\<close>

datatype action =
    NeedXid
  | NeedCommandId
  | Fail nat
  | Protected "action list" "action list option"  \<comment> \<open>None: no condition matches\<close>

fun exec_actions :: "xact_conf \<Rightarrow> action list \<Rightarrow> xact" where
  "exec_actions conf [] s = (Done, s)"
| "exec_actions conf (NeedXid # acts) s =
     (case GetCurrentTransactionId conf s of (out, s) \<Rightarrow> if out = Done then exec_actions conf acts s else (out, s))"
| "exec_actions conf (NeedCommandId # acts) s =
     (case GetCurrentCommandId conf True s of (out, s) \<Rightarrow> if out = Done then exec_actions conf acts s else (out, s))"
| "exec_actions conf (Fail n # acts) s = (Raised ERROR (Subsystem n), s)"
| "exec_actions conf (Protected body handler # acts) s =
     (case BeginInternalSubTransaction conf None s of (out, s) \<Rightarrow>
        if out \<noteq> Done then (out, s)
        else case (case exec_actions conf body s of (out, s) \<Rightarrow>
                     if out = Done then ReleaseCurrentSubTransaction conf s else (out, s)) of (out, s) \<Rightarrow>
          if out = Done then exec_actions conf acts s
          else case out of
              Raised ERROR e \<Rightarrow>
                (case RollbackAndReleaseCurrentSubTransaction conf s of (out, s) \<Rightarrow>
                   if out \<noteq> Done then (out, s)
                   else case handler of
                          None \<Rightarrow> (Raised ERROR e, s)
                        | Some h \<Rightarrow>
                            (case exec_actions conf h s of (out, s) \<Rightarrow>
                               if out = Done then exec_actions conf acts s else (out, s)))
            | _ \<Rightarrow> (out, s))"

section \<open>Statements\<close>

datatype statement =
    BeginStmt | CommitStmt bool | PrepareStmt string | RollbackStmt bool
  | SavepointStmt string | ReleaseStmt string | RollbackToStmt string
  | TopLevelStmt string "action list"  \<comment> \<open>refused in a transaction block\<close>
  | Query "action list"

fun is_transaction_stmt :: "statement \<Rightarrow> bool" where
  "is_transaction_stmt (TopLevelStmt _ _) = False"
| "is_transaction_stmt (Query _) = False"
| "is_transaction_stmt _ = True"

fun IsTransactionExitStmt :: "statement \<Rightarrow> bool" where
  "IsTransactionExitStmt (CommitStmt _) = True"
| "IsTransactionExitStmt (PrepareStmt _) = True"
| "IsTransactionExitStmt (RollbackStmt _) = True"
| "IsTransactionExitStmt (RollbackToStmt _) = True"
| "IsTransactionExitStmt _ = False"

fun ProcessUtility :: "xact_conf \<Rightarrow> statement \<Rightarrow> xact" where
  "ProcessUtility conf BeginStmt s = BeginTransactionBlock s"
| "ProcessUtility conf (CommitStmt ch) s = snd (EndTransactionBlock ch s)"
| "ProcessUtility conf (PrepareStmt gid) s = snd (PrepareTransactionBlock gid s)"
| "ProcessUtility conf (RollbackStmt ch) s = UserAbortTransactionBlock ch s"
| "ProcessUtility conf (SavepointStmt nm) s =
     steps [CheckTransactionBlock True True ''SAVEPOINT'', DefineSavepoint conf (Some nm)] s"
| "ProcessUtility conf (ReleaseStmt nm) s =
     steps [CheckTransactionBlock True True ''RELEASE SAVEPOINT'', ReleaseSavepoint conf nm] s"
| "ProcessUtility conf (RollbackToStmt nm) s =
     steps [CheckTransactionBlock True True ''ROLLBACK TO SAVEPOINT'', RollbackToSavepoint conf nm] s"
| "ProcessUtility conf (TopLevelStmt nm acts) s =
     steps [PreventInTransactionBlock True nm, exec_actions conf acts] s"
| "ProcessUtility conf (Query acts) s = exec_actions conf acts s"

definition start_xact_command :: "xact_conf \<Rightarrow> xact" where
  "start_xact_command conf s =
     (if \<not> xact_started s then steps [StartTransactionCommand conf, upd (\<lambda>s. s\<lparr>xact_started := True\<rparr>)] s
      else (Done, s))"

definition finish_xact_command :: "xact_conf \<Rightarrow> xact" where
  "finish_xact_command conf s =
     (if xact_started s
      then steps [loop_result (CommitTransactionCommand conf), upd (\<lambda>s. s\<lparr>xact_started := False\<rparr>)] s
      else (Done, s))"

definition end_statement :: "xact_conf \<Rightarrow> bool \<Rightarrow> bool \<Rightarrow> statement \<Rightarrow> xact" where
  "end_statement conf use_implicit_block is_last st =
     (if is_last then steps [only_if (\<lambda>s. use_implicit_block) (upd EndImplicitTransactionBlock), finish_xact_command conf]
      else if is_transaction_stmt st then finish_xact_command conf
      else CommandCounterIncrement conf)"

definition exec_statement :: "xact_conf \<Rightarrow> bool \<Rightarrow> bool \<Rightarrow> statement \<Rightarrow> xact" where
  "exec_statement conf use_implicit_block is_last st =
     steps [only_if (\<lambda>s. IsAbortedTransactionBlockState s \<and> \<not> IsTransactionExitStmt st) (raise ERROR InFailedTransaction),
       start_xact_command conf,
       only_if (\<lambda>s. use_implicit_block) (upd BeginImplicitTransactionBlock),
       ProcessUtility conf st,
       end_statement conf use_implicit_block is_last st]"

fun exec_statements :: "xact_conf \<Rightarrow> bool \<Rightarrow> statement list \<Rightarrow> xact" where
  "exec_statements conf use_implicit_block [] s = (Done, s)"
| "exec_statements conf use_implicit_block (st # sts) s =
     steps [exec_statement conf use_implicit_block (sts = []) st, exec_statements conf use_implicit_block sts] s"

text \<open>The list of statements of a query string; None is a syntax error.\<close>

definition exec_simple_query :: "xact_conf \<Rightarrow> statement list option \<Rightarrow> xact" where
  "exec_simple_query conf query =
     steps [start_xact_command conf,
       (case query of None \<Rightarrow> raise ERROR (Subsystem 0)
        | Some parsetree_list \<Rightarrow> exec_statements conf (length parsetree_list > 1) parsetree_list),
       finish_xact_command conf]"

text \<open>One round of the loop of \<^verbatim>\<open>PostgresMain\<close> on a query message: an error aborts the current transaction.\<close>

definition PostgresMain_query :: "xact_conf \<Rightarrow> statement list option \<Rightarrow> xact" where
  "PostgresMain_query conf query s =
     (case exec_simple_query conf query s of (out, s') \<Rightarrow>
        (case out of
           Raised ERROR e \<Rightarrow>
             steps [loop_result (AbortCurrentTransaction conf), upd (\<lambda>s. s\<lparr>xact_started := False\<rparr>)] s'
         | _ \<Rightarrow> (out, s')))"

section \<open>A new session\<close>

definition TopTransactionStateData :: TransactionStateData where
  "TopTransactionStateData = \<lparr>fullTransactionId = InvalidFullTransactionId, subTransactionId = InvalidSubTransactionId,
     xact_name = None, savepointLevel = 0, state = TRANS_DEFAULT, blockState = TBLOCK_DEFAULT, nestingLevel = 0,
     curTransactionOwner = False, childXids = [], maxChildXids = 0, prevXactReadOnly = False,
     startedInRecovery = False, didLogXid = False, parallelModeLevel = 0, parallelChildXact = False,
     chain = False, topXidLogged = False\<rparr>"

text \<open>The static variables at the start of a backend; the local transaction ids continue those of its slot.\<close>

definition initial_session :: "LocalTransactionId \<Rightarrow> backend \<Rightarrow> shmem \<Rightarrow> session" where
  "initial_session lx be sh = \<lparr>xstack = [TopTransactionStateData], XactTopFullTransactionId = InvalidFullTransactionId,
     ParallelCurrentXids = [], currentSubTransactionId = 0, currentCommandId = 0, currentCommandIdUsed = False,
     unreportedXids = [], XactReadOnly = False, XactDeferrable = False, XactIsoLevel = XACT_READ_COMMITTED,
     forceSyncCommit = False, MyXactFlags = 0, prepareGID = None, XactLastRecEnd = InvalidXLogRecPtr,
     XactLastCommitEnd = InvalidXLogRecPtr, nextLocalTransactionId = lx, xact_started = False, xlog = [],
     warnings = [], bkend = be, shared = sh\<rparr>"

end
