(* ===== verification/XactBlock.thy ===== *)
theory XactBlock
  imports Xact
begin

text \<open>
  The block state machine of \<^verbatim>\<open>xact.c\<close> never meets a state it does not expect.  The stack of transaction
  states is typed: a block state fixes the low-level state and the block states that the enclosing level may
  have.  Every operation keeps the typing, ends in one of the states the source comments call for, or stops with
  an error in a state from which \<^verbatim>\<open>AbortCurrentTransaction\<close> recovers; the loops over the levels return.
  What the operations do to transaction ids and shared memory is left to the interface \<open>session_ids\<close>:
  its laws say that they keep an invariant.  From the operations follow the statements, the simple
  query protocol and sequences of query messages.
\<close>

section \<open>How operations end\<close>

text \<open>The errors that the code reports for a state it does not expect.\<close>

fun internal :: "xact_error \<Rightarrow> bool" where
  "internal (UnexpectedBlockState _) = True"
| "internal (UnexpectedTransState _) = True"
| "internal PopWithNoParent = True"
| "internal CannotPreventChain = True"
| "internal _ = False"

text \<open>
  A result is good if it is a return with \<open>Q\<close>, or a reported error that is not an internal one, with \<open>E\<close>
  unless it ends the session; \<open>A\<close> are further outcomes that are tolerated.
\<close>

definition ends :: "outcome set \<Rightarrow> (session \<Rightarrow> bool) \<Rightarrow> (session \<Rightarrow> bool) \<Rightarrow> outcome \<times> session \<Rightarrow> bool" where
  "ends A Q E r = (case r of (out, s) \<Rightarrow>
     (case out of Done \<Rightarrow> Q s | Raised l e \<Rightarrow> Raised l e \<in> A \<or> \<not> internal e \<and> (l = FATAL \<or> l = ERROR \<and> E s) | Stuck \<Rightarrow> Stuck \<in> A))"

named_theorems ends_simps \<open>results of the combinators\<close>

lemma ends_Done [ends_simps]: "ends A Q E (Done, s) = Q s"
  and ends_Raised [ends_simps]: "ends A Q E (Raised l e, s) = (Raised l e \<in> A \<or> \<not> internal e \<and> (l = FATAL \<or> l = ERROR \<and> E s))"
  and ends_Stuck [ends_simps]: "ends A Q E (Stuck, s) = (Stuck \<in> A)"
  by (simp_all add: ends_def)

lemma ends_mono:
  assumes "ends A Q E r" "\<And>s. Q s \<Longrightarrow> Q' s" "\<And>s. E s \<Longrightarrow> E' s"
  shows "ends A Q' E' r"
  using assms by (cases r; cases "fst r") (auto simp: ends_simps)

lemma ends_steps_Nil [ends_simps]: "ends A Q E (steps [] s) = Q s"
  by (simp add: ends_simps)

lemma ends_steps_Cons [ends_simps]:
  "ends A Q E (steps (m # ms) s) = ends A (\<lambda>s'. ends A Q E (steps ms s')) E (m s)"
proof (cases "m s")
  case (Pair out s')
  then show ?thesis by (cases out) (auto simp: ends_simps)
qed

declare steps.simps [simp del]

lemma ends_upd [ends_simps]: "ends A Q E (upd f s) = Q (f s)"
  and ends_set_block [ends_simps]: "ends A Q E (set_block b s) = Q (upd_current (\<lambda>x. x\<lparr>blockState := b\<rparr>) s)"
  and ends_raise [ends_simps]: "ends A Q E (raise l e s) = (Raised l e \<in> A \<or> \<not> internal e \<and> (l = FATAL \<or> l = ERROR \<and> E s))"
  by (simp_all add: ends_simps upd_def raise_def set_block_def)

lemma ends_if [ends_simps]: "ends A Q E (if c then r else r') = (if c then ends A Q E r else ends A Q E r')"
  by simp

section \<open>The control state\<close>

type_synonym level = "TBlockState \<times> TransState \<times> nat \<times> string option"

definition lvl :: "TransactionStateData \<Rightarrow> level" where
  "lvl x = (blockState x, state x, nestingLevel x, xact_name x)"

definition ctl :: "session \<Rightarrow> level list" where
  "ctl s = map lvl (xstack s)"

text \<open>The part of the session that the ids depend on.\<close>

definition level_ids :: "TransactionStateData \<Rightarrow> FullTransactionId \<times> TransactionId list \<times> bool \<times> bool \<times> bool" where
  "level_ids x = (fullTransactionId x, childXids x, state x = TRANS_ABORT, state x = TRANS_DEFAULT, curTransactionOwner x)"

definition id_state where
  "id_state s = (map level_ids (xstack s), XactTopFullTransactionId s, bkend s, shared s)"

section \<open>Well-typed stacks\<close>

text \<open>
  The state that a block state implies, and the block states that the enclosing level may have.  \<open>T\<close>
  are the top-level states in which queries start internal subtransactions.
\<close>

fun state_of :: "TBlockState \<Rightarrow> TransState" where
  "state_of TBLOCK_DEFAULT = TRANS_DEFAULT"
| "state_of TBLOCK_SUBBEGIN = TRANS_DEFAULT"
| "state_of TBLOCK_ABORT = TRANS_ABORT"
| "state_of TBLOCK_ABORT_END = TRANS_ABORT"
| "state_of TBLOCK_SUBABORT = TRANS_ABORT"
| "state_of TBLOCK_SUBABORT_END = TRANS_ABORT"
| "state_of TBLOCK_SUBABORT_RESTART = TRANS_ABORT"
| "state_of _ = TRANS_INPROGRESS"

definition top_blocks :: "TBlockState set" where
  "top_blocks = {TBLOCK_DEFAULT, TBLOCK_STARTED, TBLOCK_BEGIN, TBLOCK_INPROGRESS, TBLOCK_IMPLICIT_INPROGRESS,
     TBLOCK_END, TBLOCK_ABORT, TBLOCK_ABORT_END, TBLOCK_ABORT_PENDING, TBLOCK_PREPARE}"

fun enclosing :: "TBlockState set \<Rightarrow> TBlockState \<Rightarrow> TBlockState set" where
  "enclosing T TBLOCK_SUBBEGIN = {TBLOCK_SUBINPROGRESS, TBLOCK_INPROGRESS} \<union> T"
| "enclosing T TBLOCK_SUBINPROGRESS = {TBLOCK_SUBINPROGRESS, TBLOCK_INPROGRESS} \<union> T"
| "enclosing T TBLOCK_SUBABORT = {TBLOCK_SUBINPROGRESS, TBLOCK_INPROGRESS}"
| "enclosing T TBLOCK_SUBRESTART = {TBLOCK_SUBINPROGRESS, TBLOCK_INPROGRESS}"
| "enclosing T TBLOCK_SUBABORT_RESTART = {TBLOCK_SUBINPROGRESS, TBLOCK_INPROGRESS}"
| "enclosing T TBLOCK_SUBRELEASE = {TBLOCK_SUBRELEASE, TBLOCK_SUBINPROGRESS, TBLOCK_INPROGRESS}"
| "enclosing T TBLOCK_SUBCOMMIT = {TBLOCK_SUBCOMMIT, TBLOCK_END, TBLOCK_PREPARE}"
| "enclosing T TBLOCK_SUBABORT_PENDING = {TBLOCK_SUBABORT_PENDING, TBLOCK_SUBRESTART, TBLOCK_ABORT_PENDING}"
| "enclosing T TBLOCK_SUBABORT_END = {TBLOCK_SUBABORT_PENDING, TBLOCK_SUBRESTART, TBLOCK_ABORT_PENDING}"
| "enclosing T _ = {}"

text \<open>
  \<open>shaped\<close> is the typing of the block states; \<open>typed\<close> also fixes the low-level states.  After an error
  the current level may be in the middle of an operation.
\<close>

fun shaped :: "TBlockState set \<Rightarrow> level list \<Rightarrow> bool" where
  "shaped T [] = False"
| "shaped T [(b, st, n, nm)] = (b \<in> top_blocks \<and> n = (if st = TRANS_DEFAULT then 0 else 1) \<and> nm = None)"
| "shaped T ((b, st, n, nm) # (b', st', n', nm') # cs) =
     (b' \<in> enclosing T b \<and> n = Suc n' \<and> st' = state_of b' \<and> shaped T ((b', st', n', nm') # cs))"

definition typed :: "TBlockState set \<Rightarrow> level list \<Rightarrow> bool" where
  "typed T cs \<longleftrightarrow> shaped T cs \<and> fst (snd (hd cs)) = state_of (fst (hd cs))"

definition interrupted :: "TBlockState set \<Rightarrow> level list \<Rightarrow> bool" where
  "interrupted T cs \<longleftrightarrow> shaped T cs \<and>
     (case hd cs of (b, st, _) \<Rightarrow> (st = TRANS_ABORT) = (state_of b = TRANS_ABORT)
        \<and> (b = TBLOCK_DEFAULT \<longrightarrow> st \<in> {TRANS_DEFAULT, TRANS_START})
        \<and> (st = TRANS_DEFAULT \<longrightarrow> b \<in> {TBLOCK_DEFAULT, TBLOCK_SUBBEGIN}))"

section \<open>What the operations keep of the control state\<close>

lemma insert_record_sel [simp]:
  "xstack (insert_record conf r s) = xstack s" "xact_started (insert_record conf r s) = xact_started s"
  "bkend (insert_record conf r s) = bkend s" "shared (insert_record conf r s) = shared s"
  "XactTopFullTransactionId (insert_record conf r s) = XactTopFullTransactionId s"
  by (simp_all add: insert_record_def)

lemma upd_my_proc_sel [simp]:
  "xstack (upd_my_proc f s) = xstack s" "xact_started (upd_my_proc f s) = xact_started s"
  "bkend (upd_my_proc f s) = bkend s" "XactTopFullTransactionId (upd_my_proc f s) = XactTopFullTransactionId s"
  by (simp_all add: upd_my_proc_def)

lemma commit_tree_sel [simp]:
  "xstack (commit_tree conf w x c s) = xstack s" "xact_started (commit_tree conf w x c s) = xact_started s"
  "bkend (commit_tree conf w x c s) = bkend s"
  "XactTopFullTransactionId (commit_tree conf w x c s) = XactTopFullTransactionId s"
  by (simp_all add: commit_tree_def)

lemma upd_level_sel [simp]:
  "xstack (upd_level i f s) = (xstack s)[i := f (xstack s ! i)]" "xact_started (upd_level i f s) = xact_started s"
  "bkend (upd_level i f s) = bkend s" "shared (upd_level i f s) = shared s"
  "XactTopFullTransactionId (upd_level i f s) = XactTopFullTransactionId s"
  by (simp_all add: upd_level_def)

lemma reset_fields_sel [simp]:
  "xact_started (reset_fields s) = xact_started s" "bkend (reset_fields s) = bkend s" "shared (reset_fields s) = shared s"
  by (simp_all add: reset_fields_def)

lemma current_Cons: "xstack s = x # xs \<Longrightarrow> current s = x"
  by (simp add: current_def)

lemma ctl_Cons: "xstack s = x # xs \<Longrightarrow> ctl s = lvl x # map lvl xs"
  by (simp add: ctl_def)

lemma ctl_frame: "xstack s' = xstack s \<Longrightarrow> ctl s' = ctl s"
  by (simp add: ctl_def)

lemma RecordTransactionCommit_keeps:
  assumes "RecordTransactionCommit conf s = (out, l, s')"
  shows "xstack s' = xstack s" "xact_started s' = xact_started s" "bkend s' = bkend s"
    "out = Done \<or> out = Raised ERROR DeletedFilesButNoXid"
  using assms by (auto simp: RecordTransactionCommit_def Let_def split: if_splits)

lemma RecordTransactionAbort_keeps:
  assumes "RecordTransactionAbort conf sub s = (out, l, s')"
  shows "xstack s' = xstack s" "xact_started s' = xact_started s" "MyProc (bkend s') = MyProc (bkend s)"
    "out \<in> {Done, Stuck, Raised PANIC (AbortOfCommitted (GetCurrentTransactionIdIfAny s))}"
  using assms by (auto simp: RecordTransactionAbort_def Let_def split: if_splits option.splits)

lemma end_in_procarray_keeps:
  assumes "end_in_procarray conf (out, l, s) = (out', s')"
  shows "xstack s' = xstack s" "xact_started s' = xact_started s" "out' = out \<or> out' = Stuck \<and> out = Done"
  using assms by (auto simp: end_in_procarray_def split: if_splits option.splits)

lemma ends_conj:
  assumes "ends A Q E r" "\<And>out s. r = (out, s) \<Longrightarrow> K s"
  shows "ends A (\<lambda>s. Q s \<and> K s) (\<lambda>s. E s \<and> K s) r"
  using assms by (cases r; cases "fst r") (auto simp: ends_simps)

lemma commit_record_keeps:
  assumes "end_in_procarray conf (RecordTransactionCommit conf s) = (out, s')"
  shows "xstack s' = xstack s \<and> xact_started s' = xact_started s"
  using RecordTransactionCommit_keeps end_in_procarray_keeps assms
  by (cases "RecordTransactionCommit conf s") (metis prod.collapse)

lemma abort_record_keeps:
  assumes "end_in_procarray conf (RecordTransactionAbort conf sub s) = (out, s')"
  shows "xstack s' = xstack s \<and> xact_started s' = xact_started s"
  using RecordTransactionAbort_keeps end_in_procarray_keeps assms
  by (cases "RecordTransactionAbort conf sub s") (metis prod.collapse)

lemma map_update_same: "(map f xs)[i := f (xs ! i)] = map f xs"
  by (cases "i < length xs") (simp_all add: list_update_same_conv list_update_beyond)

lemma ctl_upd_level:
  assumes "\<And>x. lvl (f x) = lvl x"
  shows "ctl (upd_level i f s) = ctl s"
  using assms by (simp add: ctl_def map_update map_update_same)

lemma ctl_fields [simp]:
  "ctl (s\<lparr>shared := sh\<rparr>) = ctl s" "ctl (s\<lparr>XactTopFullTransactionId := full\<rparr>) = ctl s"
  "ctl (s\<lparr>unreportedXids := us\<rparr>) = ctl s" "ctl (insert_record conf r s) = ctl s"
  "ctl (upd_my_proc g s) = ctl s" "ctl (s\<lparr>xact_started := c\<rparr>) = ctl s" "ctl (s\<lparr>XactReadOnly := c\<rparr>) = ctl s"
  "ctl (s\<lparr>warnings := ws\<rparr>) = ctl s" "ctl (s\<lparr>prepareGID := gid\<rparr>) = ctl s"
  by (simp_all add: ctl_def)

lemma lvl_fields [simp]:
  "lvl (x\<lparr>fullTransactionId := full\<rparr>) = lvl x" "lvl (x\<lparr>didLogXid := c\<rparr>) = lvl x" "lvl (x\<lparr>chain := c\<rparr>) = lvl x"
  "lvl (x\<lparr>childXids := cs\<rparr>) = lvl x" "lvl (x\<lparr>maxChildXids := k\<rparr>) = lvl x"
  "lvl (x\<lparr>curTransactionOwner := c\<rparr>) = lvl x" "lvl (x\<lparr>parallelModeLevel := l\<rparr>) = lvl x"
  "lvl (x\<lparr>parallelChildXact := c\<rparr>) = lvl x" "lvl (x\<lparr>savepointLevel := l\<rparr>) = lvl x"
  by (simp_all add: lvl_def)

lemma report_xid_keeps:
  "ctl (report_xid conf l x s) = ctl s" "xact_started (report_xid conf l x s) = xact_started s"
  by (simp_all add: report_xid_def Let_def upd_top_def ctl_upd_level)

lemma assign_level_keeps:
  assumes "assign_level conf i s = (out, s')"
  shows "ctl s' = ctl s \<and> xact_started s' = xact_started s
    \<and> (out = Done \<or> (\<exists>e. out = Raised ERROR e \<and> \<not> internal e))"
  using assms
  by (auto simp: assign_level_def Let_def report_xid_keeps ctl_upd_level split: if_splits sum.splits)

lemma steps_keeps:
  assumes "\<forall>m \<in> set ms. \<forall>s out s'. m s = (out, s') \<longrightarrow> f s' = f s \<and> P out" "P Done"
  shows "steps ms s = (out, s') \<Longrightarrow> f s' = f s \<and> P out"
  using assms(1)
proof (induction ms arbitrary: s)
  case Nil
  then show ?case using assms(2) by (simp add: steps.simps)
next
  case (Cons m ms)
  obtain o1 s1 where m: "m s = (o1, s1)" by fastforce
  then have k: "f s1 = f s \<and> P o1" using Cons.prems(2) by simp
  show ?case
  proof (cases "o1 = Done")
    case True
    then have "f s' = f s1 \<and> P out" using Cons.IH[of s1] Cons.prems m by (simp add: steps.simps)
    then show ?thesis using k by simp
  next
    case False
    then show ?thesis using Cons.prems(1) k m by (simp add: steps.simps)
  qed
qed

lemma assign_levels_keep:
  assumes "steps (map (assign_level conf) is) s = (out, s')"
  shows "(ctl s', xact_started s') = (ctl s, xact_started s) \<and> (out = Done \<or> (\<exists>e. out = Raised ERROR e \<and> \<not> internal e))"
  using assms assign_level_keeps
  by (intro steps_keeps[where f = "\<lambda>s. (ctl s, xact_started s)" and ms = "map (assign_level conf) is"]) fastforce+

lemma GetCurrentTransactionId_keeps:
  assumes "GetCurrentTransactionId conf s = (out, s')"
  shows "ctl s' = ctl s \<and> xact_started s' = xact_started s
    \<and> (out = Done \<or> (\<exists>e. out = Raised ERROR e \<and> \<not> internal e))"
  using assms assign_levels_keep[of conf _ s out s']
  by (auto simp: GetCurrentTransactionId_def AssignTransactionId_def Let_def split: if_splits simp del: upt_Suc)

section \<open>What the state machine needs of the ids\<close>

text \<open>
  The block state machine calls the operations on ids and on the shared structures at the right
  moments; what it needs of them is that they keep some invariant \<open>I\<close> of the ids.  \<open>A\<close> are the outcomes
  that they may have besides the reported errors.
\<close>

locale session_ids =
  fixes conf :: xact_conf and I :: "session \<Rightarrow> bool" and A :: "outcome set"
  assumes tolerated: "Raised l e \<in> A \<Longrightarrow> l = PANIC"
    and frame: "I s \<Longrightarrow> id_state s' = id_state s \<Longrightarrow> I s'"
    and hook_keeps: "I s \<Longrightarrow> xstack s \<noteq> [] \<Longrightarrow>
      ends A (\<lambda>s'. I s' \<and> ctl s' = ctl s \<and> xact_started s' = xact_started s)
        (\<lambda>s'. I s' \<and> ctl s' = ctl s \<and> xact_started s' = xact_started s) (hook conf h s)"
    and start_ids: "I s \<Longrightarrow> xstack s = [x] \<Longrightarrow> state x = TRANS_DEFAULT \<Longrightarrow> I (start_session conf s)"
    and assign_ids: "I s \<Longrightarrow> xstack s \<noteq> [] \<Longrightarrow> \<forall>x \<in> set (xstack s). state x = TRANS_INPROGRESS \<Longrightarrow>
      I (snd (GetCurrentTransactionId conf s))"
    and commit_ids: "I s \<Longrightarrow> xstack s = [x] \<Longrightarrow> state x = TRANS_COMMIT \<Longrightarrow>
      ends A (\<lambda>s'. I (reset_fields s')) I (end_in_procarray conf (RecordTransactionCommit conf s))"
    and abort_ids: "I s \<Longrightarrow> xstack s = [x] \<Longrightarrow> state x \<noteq> TRANS_ABORT \<Longrightarrow>
      ends A I (\<lambda>_. False) (end_in_procarray conf (RecordTransactionAbort conf False
        (upd_current (\<lambda>x. x\<lparr>state := TRANS_ABORT, parallelModeLevel := 0, parallelChildXact := False\<rparr>) s)))"
    and cleanup_ids: "I s \<Longrightarrow> xstack s = [x] \<Longrightarrow> state x = TRANS_ABORT \<Longrightarrow> I (reset_fields s)"
    and prepare_ids: "I s \<Longrightarrow> xstack s = [x] \<Longrightarrow> state x = TRANS_PREPARE \<Longrightarrow> hook conf TwoPhase s = (Done, s') \<Longrightarrow>
      I (reset_fields (s'\<lparr>shared := ProcArrayClearTransaction (MyProc (bkend s')) (shared s')\<rparr>))"
    and push_ids: "I s \<Longrightarrow> xstack s = x # xs \<Longrightarrow> state x = TRANS_INPROGRESS \<Longrightarrow> PushTransaction s = (Done, s') \<Longrightarrow> I s'"
    and start_sub_ids: "I s \<Longrightarrow> xstack s = x # y # ys \<Longrightarrow> state x = TRANS_DEFAULT \<Longrightarrow>
      I (upd_current (\<lambda>x. x\<lparr>state := TRANS_INPROGRESS, curTransactionOwner := True\<rparr>) s)"
    and sub_commit_ids: "I s \<Longrightarrow> xstack s = x # y # ys \<Longrightarrow> state x = TRANS_COMMIT \<Longrightarrow>
      \<forall>z \<in> set (y # ys). state z = TRANS_INPROGRESS \<Longrightarrow>
      (if FullTransactionIdIsValid (fullTransactionId x) then AtSubCommit_childXids s else (Done, s)) = (Done, s') \<Longrightarrow>
      I (s'\<lparr>xstack := tl (xstack s')\<rparr>)"
    and sub_abort_ids: "I s \<Longrightarrow> xstack s = x # y # ys \<Longrightarrow> state x \<noteq> TRANS_ABORT \<Longrightarrow> curTransactionOwner x \<Longrightarrow>
      ends A (\<lambda>s'. I (if FullTransactionIdIsValid (fullTransactionId (current s')) then AtSubAbort_childXids s' else s'))
        (\<lambda>_. False)
        (case RecordTransactionAbort conf True (upd_current (\<lambda>x. x\<lparr>state := TRANS_ABORT, parallelModeLevel := 0\<rparr>) s) of
           (out, _, s') \<Rightarrow> (out, s'))"
    and sub_unstarted_ids: "I s \<Longrightarrow> xstack s = x # y # ys \<Longrightarrow> \<not> curTransactionOwner x \<Longrightarrow>
      I (upd_current (\<lambda>x. x\<lparr>state := TRANS_ABORT, parallelModeLevel := 0\<rparr>) s)"
    and pop_ids: "I s \<Longrightarrow> xstack s = x # y # ys \<Longrightarrow> state x = TRANS_ABORT \<Longrightarrow> I (s\<lparr>xstack := y # ys\<rparr>)"
begin

lemma I_upd_current:
  assumes "I s" "xstack s = x # xs" "level_ids (f x) = level_ids x"
  shows "I (upd_current f s)"
  using frame[OF assms(1)] assms(2,3) by (simp add: id_state_def)

lemma I_fields:
  assumes "I s"
  shows "I (s\<lparr>warnings := ws\<rparr>)" "I (s\<lparr>XactReadOnly := c\<rparr>)" "I (s\<lparr>xact_started := c\<rparr>)" "I (s\<lparr>prepareGID := gid\<rparr>)"
    "I (s\<lparr>currentCommandId := cid, currentCommandIdUsed := c\<rparr>)" "I (s\<lparr>currentCommandIdUsed := c\<rparr>)"
    "I (RestoreTransactionCharacteristics s0 s)" "I (s\<lparr>MyXactFlags := fl\<rparr>)"
  by (rule frame[OF assms], simp add: id_state_def RestoreTransactionCharacteristics_def)+

text \<open>The control state a step is compared with.\<close>

definition at :: "level list \<Rightarrow> bool \<Rightarrow> session \<Rightarrow> bool" where
  "at cs xs s \<longleftrightarrow> I s \<and> ctl s = cs \<and> xact_started s = xs"

lemma atD:
  assumes "at (c # cs) xs s"
  obtains y ys where "xstack s = y # ys" "lvl y = c" "map lvl ys = cs" "I s" "xact_started s = xs"
  using assms by (auto simp: at_def ctl_def map_eq_Cons_conv)

lemma at_warn: "at cs xs s \<Longrightarrow> at cs xs (s\<lparr>warnings := ws\<rparr>)"
  by (simp add: at_def I_fields)

lemma ends_warn_if:
  assumes "\<And>ws. Q (s\<lparr>warnings := ws\<rparr>)"
  shows "ends A Q E (warn_if c w s)"
proof -
  have "s\<lparr>warnings := warnings s\<rparr> = s" by simp
  then show ?thesis using assms[of "warnings s @ [w s]"] assms[of "warnings s"] by (simp add: warn_if_def ends_simps)
qed

lemma hook_at: "at (c # cs) xs s \<Longrightarrow> ends A (at (c # cs) xs) (at (c # cs) xs) (hook conf h s)"
  using hook_keeps[of s h] by (auto simp: at_def ctl_def elim!: ends_mono)

lemma upd_at:
  assumes "at ((b, st, n, nm) # cs) xs s" "\<And>x. lvl x = (b, st, n, nm) \<Longrightarrow> lvl (f x) = c" "\<And>x. lvl x = (b, st, n, nm) \<Longrightarrow> level_ids (f x) = level_ids x"
  shows "at (c # cs) xs (upd_current f s)"
  using assms(1)
  by (rule atD) (auto simp: at_def ctl_def assms(2,3) intro: I_upd_current)

lemma StartTransaction_at:
  assumes "at [(b, TRANS_DEFAULT, n, nm)] xs s"
  shows "ends A (at [(b, TRANS_INPROGRESS, 1, nm)] xs) (at [(b, TRANS_START, 1, nm)] xs) (StartTransaction conf s)"
proof -
  obtain x where x: "xstack s = [x]" "lvl x = (b, TRANS_DEFAULT, n, nm)" "I s" "xact_started s = xs"
    using assms by (rule atD) auto
  have "at [(b, TRANS_START, 1, nm)] xs (start_session conf s)"
    using start_ids[OF x(3,1)] x
    by (auto simp: at_def start_session_def start_fields_def ctl_def lvl_def top_state_def split: prod.splits)
  then show ?thesis
    unfolding StartTransaction_def ends_simps
    by (intro ends_mono[OF hook_at]) (auto simp: lvl_def level_ids_def intro: upd_at)
qed

lemma reset_at:
  assumes "I (reset_fields s)" "ctl s = [(b, st, n, nm)]" "xact_started s = xs"
  shows "at [(b, TRANS_DEFAULT, 0, nm)] xs (reset_fields s)"
  using assms by (auto simp: at_def reset_fields_def ctl_def lvl_def)

lemma commit_record_at:
  assumes "at [(b, TRANS_COMMIT, n, nm)] xs s"
  shows "ends A (\<lambda>s'. at [(b, TRANS_DEFAULT, 0, nm)] xs (reset_fields s')) (at [(b, TRANS_COMMIT, n, nm)] xs)
    (end_in_procarray conf (RecordTransactionCommit conf s))"
proof -
  obtain x where x: "xstack s = [x]" "lvl x = (b, TRANS_COMMIT, n, nm)" "I s" "xact_started s = xs"
    using assms by (rule atD) auto
  have "state x = TRANS_COMMIT" using x(2) by (simp add: lvl_def)
  note e = ends_conj[OF commit_ids[OF x(3,1) this] commit_record_keeps]
  show ?thesis
  proof (rule ends_mono[OF e])
    fix s' assume "I (reset_fields s') \<and> xstack s' = xstack s \<and> xact_started s' = xact_started s"
    then show "at [(b, TRANS_DEFAULT, 0, nm)] xs (reset_fields s')" using x by (intro reset_at) (auto simp: ctl_def)
  qed (use x in \<open>auto simp: at_def ctl_def\<close>)
qed

lemma CommitTransaction_at:
  assumes "at [(b, st, n, nm)] xs s" "b \<noteq> TBLOCK_PARALLEL_INPROGRESS" "st \<notin> {TRANS_ABORT, TRANS_DEFAULT}"
  shows "ends A (at [(b, TRANS_DEFAULT, 0, nm)] xs) (\<lambda>s'. at [(b, st, n, nm)] xs s' \<or> at [(b, TRANS_COMMIT, n, nm)] xs s')
    (CommitTransaction conf s)"
proof -
  have b: "blockState (current s) \<noteq> TBLOCK_PARALLEL_INPROGRESS"
    using assms(1,2) by (auto elim!: atD simp: current_def lvl_def)
  show ?thesis
    unfolding CommitTransaction_def Let_def ends_simps
    apply (simp add: b ends_simps)
    apply (rule ends_warn_if)
    apply (rule ends_mono[OF hook_at[OF at_warn[OF assms(1)]]])
     apply (rule ends_warn_if)
     apply (rule ends_mono[OF commit_record_at[OF upd_at[OF at_warn]]])
    using assms(3) by (auto simp: lvl_def level_ids_def)
qed

lemma abort_record_at:
  assumes "at [(b, st, n, nm)] xs s" "st \<noteq> TRANS_ABORT"
  shows "ends A (at [(b, TRANS_ABORT, n, nm)] xs) (\<lambda>_. False)
    (end_in_procarray conf (RecordTransactionAbort conf False
       (upd_current (\<lambda>x. x\<lparr>state := TRANS_ABORT, parallelModeLevel := 0, parallelChildXact := False\<rparr>) s)))"
proof -
  obtain x where x: "xstack s = [x]" "lvl x = (b, st, n, nm)" "I s" "xact_started s = xs"
    using assms(1) by (rule atD) auto
  have "state x \<noteq> TRANS_ABORT" using x(2) assms(2) by (simp add: lvl_def)
  note e = ends_conj[OF abort_ids[OF x(3,1) this] abort_record_keeps]
  show ?thesis
    by (rule ends_mono[OF e]) (use x in \<open>auto simp: at_def ctl_def lvl_def\<close>)
qed

lemma AbortTransaction_at:
  assumes "at [(b, st, n, nm)] xs s" "b \<noteq> TBLOCK_PARALLEL_INPROGRESS" "st \<noteq> TRANS_ABORT"
  shows "ends A (at [(b, TRANS_ABORT, n, nm)] xs) (\<lambda>_. False) (AbortTransaction conf s)"
proof -
  have b: "blockState (current s) \<noteq> TBLOCK_PARALLEL_INPROGRESS"
    using assms(1,2) by (auto elim!: atD simp: current_def lvl_def)
  show ?thesis
    unfolding AbortTransaction_def Let_def ends_simps
    using b abort_record_at[OF at_warn[OF assms(1)] assms(3)] by (auto intro: ends_warn_if)
qed

lemma CleanupTransaction_at:
  assumes "at [(b, TRANS_ABORT, n, nm)] xs s"
  shows "ends A (at [(b, TRANS_DEFAULT, 0, nm)] xs) (\<lambda>_. False) (CleanupTransaction s)"
proof -
  obtain x where x: "xstack s = [x]" "lvl x = (b, TRANS_ABORT, n, nm)" "I s" "xact_started s = xs"
    using assms by (rule atD) auto
  then have st: "state x = TRANS_ABORT" "state (current s) = TRANS_ABORT" by (simp_all add: lvl_def current_def)
  have r: "at [(b, TRANS_DEFAULT, 0, nm)] xs (reset_fields s)"
    using cleanup_ids[OF x(3,1) st(1)] x by (intro reset_at) (auto simp: ctl_def)
  show ?thesis
    unfolding CleanupTransaction_def ends_simps
    using st r by (auto simp: lvl_def level_ids_def intro!: upd_at)
qed

lemma GetCurrentTransactionId_at:
  assumes "at cs xs s" "cs \<noteq> []" "\<forall>c \<in> set cs. fst (snd c) = TRANS_INPROGRESS"
  shows "ends A (at cs xs) (at cs xs) (GetCurrentTransactionId conf s)"
proof -
  obtain out s' where g: "GetCurrentTransactionId conf s = (out, s')" by fastforce
  have a: "I s" "ctl s = cs" "xact_started s = xs" using assms(1) by (auto simp: at_def)
  have "xstack s \<noteq> []" "\<forall>x \<in> set (xstack s). state x = TRANS_INPROGRESS"
    using a assms(2,3) by (auto simp: ctl_def lvl_def)
  from assign_ids[OF a(1) this] have "at cs xs s'" using GetCurrentTransactionId_keeps[OF g] a g by (simp add: at_def)
  then show ?thesis using GetCurrentTransactionId_keeps[OF g] g by (auto simp: ends_simps)
qed

lemma CommandCounterIncrement_at:
  assumes "at (c # cs) xs s"
  shows "ends A (at (c # cs) xs) (at (c # cs) xs) (CommandCounterIncrement conf s)"
proof -
  have "at (c # cs) xs (s\<lparr>currentCommandId := cid, currentCommandIdUsed := u\<rparr>)" for cid u
    using assms by (auto simp: at_def I_fields ctl_def)
  from hook_at[OF this] show ?thesis using assms by (auto simp: CommandCounterIncrement_def ends_simps)
qed

lemma prepare_at:
  assumes "at [(b, TRANS_PREPARE, n, nm)] xs s"
  shows "ends A (at [(b, TRANS_DEFAULT, 0, nm)] xs) (at [(b, TRANS_PREPARE, n, nm)] xs)
    (steps [hook conf TwoPhase,
       upd (\<lambda>s. s\<lparr>prepareGID := None, XactLastRecEnd := InvalidXLogRecPtr,
                 shared := ProcArrayClearTransaction (MyProc (bkend s)) (shared s)\<rparr>),
       upd reset_fields] s)"
proof -
  obtain x where x: "xstack s = [x]" "lvl x = (b, TRANS_PREPARE, n, nm)" "I s" "xact_started s = xs"
    using assms by (rule atD) auto
  have st: "state x = TRANS_PREPARE" using x(2) by (simp add: lvl_def)
  obtain out s' where h: "hook conf TwoPhase s = (out, s')" by fastforce
  let ?s = "s'\<lparr>prepareGID := None, XactLastRecEnd := InvalidXLogRecPtr,
                 shared := ProcArrayClearTransaction (MyProc (bkend s')) (shared s')\<rparr>"
  have k: "ends A (at [(b, TRANS_PREPARE, n, nm)] xs) (at [(b, TRANS_PREPARE, n, nm)] xs) (out, s')"
    using hook_at[OF assms, of TwoPhase] h by simp
  show ?thesis
  proof (cases "out = Done")
    case True
    then have c: "ctl s' = [(b, TRANS_PREPARE, n, nm)]" "xact_started s' = xs" using k by (auto simp: ends_simps at_def)
    have "I (reset_fields (s'\<lparr>shared := ProcArrayClearTransaction (MyProc (bkend s')) (shared s')\<rparr>))"
      using prepare_ids[OF x(3,1) st, of s'] h True by simp
    then have "I (reset_fields ?s)" by (rule frame) (simp add: id_state_def reset_fields_def)
    then have "at [(b, TRANS_DEFAULT, 0, nm)] xs (reset_fields ?s)" using c by (intro reset_at) (auto simp: ctl_def)
    then show ?thesis using h True by (simp add: ends_simps)
  next
    case False
    then show ?thesis using k h by (cases out) (auto simp: ends_simps)
  qed
qed

lemma PrepareTransaction_at:
  assumes "at [(b, TRANS_INPROGRESS, n, nm)] xs s"
  shows "ends A (at [(b, TRANS_DEFAULT, 0, nm)] xs)
    (\<lambda>s'. at [(b, TRANS_INPROGRESS, n, nm)] xs s' \<or> at [(b, TRANS_PREPARE, n, nm)] xs s') (PrepareTransaction conf s)"
proof -
  have "ends A (at [(b, TRANS_DEFAULT, 0, nm)] xs) (\<lambda>s'. at [(b, TRANS_INPROGRESS, n, nm)] xs s' \<or> at [(b, TRANS_PREPARE, n, nm)] xs s')
     (steps [hook conf TwoPhase,
       upd (\<lambda>s. s\<lparr>prepareGID := None, XactLastRecEnd := InvalidXLogRecPtr,
                 shared := ProcArrayClearTransaction (MyProc (bkend s)) (shared s)\<rparr>),
       upd reset_fields] (upd_current (\<lambda>x. x\<lparr>state := TRANS_PREPARE\<rparr>) s'))"
    if "at [(b, TRANS_INPROGRESS, n, nm)] xs s'" for s'
    by (rule ends_mono[OF prepare_at[OF upd_at[OF that]]]) (auto simp: lvl_def level_ids_def)
  then show ?thesis
    unfolding PrepareTransaction_def ends_steps_Cons ends_upd
    apply (intro ends_mono[OF GetCurrentTransactionId_at[OF assms]])
      apply simp_all
    apply (rule ends_warn_if)
    apply (rule ends_mono[OF hook_at[OF at_warn]])
      apply (auto simp: ends_simps)
    done
qed

end

context session_ids
begin

lemma PushTransaction_at:
  assumes "at ((b, TRANS_INPROGRESS, n, nm) # cs) xs s"
  shows "ends A (at ((TBLOCK_SUBBEGIN, TRANS_DEFAULT, Suc n, None) # (b, TRANS_INPROGRESS, n, nm) # cs) xs)
    (at ((b, TRANS_INPROGRESS, n, nm) # cs) xs) (PushTransaction s)"
proof -
  obtain x ys where x: "xstack s = x # ys" "lvl x = (b, TRANS_INPROGRESS, n, nm)" "map lvl ys = cs" "I s" "xact_started s = xs"
    using assms by (rule atD)
  have st: "state x = TRANS_INPROGRESS" using x(2) by (simp add: lvl_def)
  obtain out s' where p: "PushTransaction s = (out, s')" by fastforce
  show ?thesis
  proof (cases "out = Done")
    case True
    then have "I s'" using push_ids[OF x(4,1) st] p by simp
    then show ?thesis
      using p True x by (auto simp: ends_simps at_def ctl_def lvl_def PushTransaction_def Let_def current_def split: if_splits)
  next
    case False
    then have "out = Raised ERROR TooManySubtransactions" "s' = s"
      using p by (auto simp: PushTransaction_def Let_def split: if_splits)
    then show ?thesis using p assms by (simp add: ends_simps)
  qed
qed

lemma StartSubTransaction_at:
  assumes "at ((b, TRANS_DEFAULT, n, nm) # c # cs) xs s"
  shows "ends A (at ((b, TRANS_INPROGRESS, n, nm) # c # cs) xs) (at ((b, TRANS_INPROGRESS, n, nm) # c # cs) xs)
    (StartSubTransaction conf s)"
proof -
  have "at ((b, TRANS_INPROGRESS, n, nm) # c # cs) xs
      (upd_current (\<lambda>x. x\<lparr>state := TRANS_INPROGRESS, curTransactionOwner := True\<rparr>) s')"
    if a: "at ((b, TRANS_DEFAULT, n, nm) # c # cs) xs s'" for s'
  proof -
    obtain x ys where x: "xstack s' = x # ys" "lvl x = (b, TRANS_DEFAULT, n, nm)" "map lvl ys = c # cs" "I s'" "xact_started s' = xs"
      using a by (rule atD)
    then obtain y zs where y: "ys = y # zs" by auto
    have st: "state x = TRANS_DEFAULT" using x(2) by (simp add: lvl_def)
    show ?thesis
      using start_sub_ids[OF x(4) x(1)[unfolded y] st] x y by (auto simp: at_def ctl_def lvl_def)
  qed
  note k = hook_at[OF this[OF at_warn[OF assms]]]
  show ?thesis
    unfolding StartSubTransaction_def ends_simps by (rule ends_warn_if) (rule k)
qed

lemma pop_at:
  assumes "I (s\<lparr>xstack := tl (xstack s)\<rparr>)" "ctl s = c # c' # cs" "xact_started s = xs"
  shows "ends A (at (c' # cs) xs) E (PopTransaction s)"
proof -
  obtain x y ys where s: "xstack s = x # y # ys" "lvl y = c'" "map lvl ys = cs"
    using assms(2) by (auto simp: ctl_def map_eq_Cons_conv)
  have "at (c' # cs) xs (s\<lparr>warnings := ws, xstack := tl (xstack s)\<rparr>)" for ws
    using frame[OF assms(1), of "s\<lparr>warnings := ws, xstack := tl (xstack s)\<rparr>"] assms(3) s by (simp add: at_def ctl_def id_state_def)
  then show ?thesis
    unfolding PopTransaction_def ends_simps using s(1) by (auto simp: ends_simps intro!: ends_warn_if)
qed

lemma CleanupSubTransaction_at:
  assumes "at ((b, TRANS_ABORT, n, nm) # c # cs) xs s"
  shows "ends A (at (c # cs) xs) E (CleanupSubTransaction s)"
proof -
  have "ends A (at (c # cs) xs) E
      (PopTransaction (upd_current (\<lambda>x. x\<lparr>curTransactionOwner := False, state := TRANS_DEFAULT\<rparr>) s'))"
    if a: "at ((b, TRANS_ABORT, n, nm) # c # cs) xs s'" for s'
  proof -
    obtain x ys where x: "xstack s' = x # ys" "lvl x = (b, TRANS_ABORT, n, nm)" "map lvl ys = c # cs" "I s'" "xact_started s' = xs"
      using a by (rule atD)
    then obtain y zs where y: "ys = y # zs" by auto
    have st: "state x = TRANS_ABORT" using x(2) by (simp add: lvl_def)
    show ?thesis
    proof (rule pop_at)
      show "I (upd_current (\<lambda>x. x\<lparr>curTransactionOwner := False, state := TRANS_DEFAULT\<rparr>) s'
          \<lparr>xstack := tl (xstack (upd_current (\<lambda>x. x\<lparr>curTransactionOwner := False, state := TRANS_DEFAULT\<rparr>) s'))\<rparr>)"
        by (rule frame[OF pop_ids[OF x(4) x(1)[unfolded y] st]]) (simp add: id_state_def x(1) y)
    qed (use x in \<open>auto simp: ctl_def\<close>)
  qed
  from this[OF at_warn[OF assms]] show ?thesis
    unfolding CleanupSubTransaction_def ends_simps by (auto intro: ends_warn_if)
qed

lemma sub_commit_at:
  assumes "at ((b, TRANS_COMMIT, n, nm) # c # cs) xs s" "\<forall>c' \<in> set (c # cs). fst (snd c') = TRANS_INPROGRESS"
  shows "ends A (at (c # cs) xs) (at ((b, TRANS_COMMIT, n, nm) # c # cs) xs)
    (steps [only_if (\<lambda>s. FullTransactionIdIsValid (fullTransactionId (current s))) AtSubCommit_childXids,
       upd (\<lambda>s. upd_current (\<lambda>x. x\<lparr>curTransactionOwner := False, state := TRANS_DEFAULT\<rparr>)
                  (s\<lparr>XactReadOnly := prevXactReadOnly (current s)\<rparr>)),
       PopTransaction] s)"
proof -
  obtain x ys where x: "xstack s = x # ys" "lvl x = (b, TRANS_COMMIT, n, nm)" "map lvl ys = c # cs" "I s" "xact_started s = xs"
    using assms(1) by (rule atD)
  then obtain y zs where y: "ys = y # zs" "xstack s = x # y # zs" by auto
  have st: "state x = TRANS_COMMIT" "\<forall>z \<in> set (y # zs). state z = TRANS_INPROGRESS"
    using x(2,3) assms(2) y(1) by (auto simp: lvl_def)
  let ?m = "if FullTransactionIdIsValid (fullTransactionId x) then AtSubCommit_childXids s else (Done, s)"
  obtain out s' where m: "?m = (out, s')" by fastforce
  have k: "ctl s' = ctl s" "xact_started s' = xact_started s" "out = Done \<or> out = Raised ERROR TooManyCommittedChildren \<and> s' = s"
    using m y(2) by (auto simp: AtSubCommit_childXids_def Let_def ctl_def lvl_def split: if_splits)
  show ?thesis
  proof (cases "out = Done")
    case True
    then have i: "I (s'\<lparr>xstack := tl (xstack s')\<rparr>)" using sub_commit_ids[OF x(4) y(2) st] m by simp
    let ?t = "upd_current (\<lambda>x. x\<lparr>curTransactionOwner := False, state := TRANS_DEFAULT\<rparr>) (s'\<lparr>XactReadOnly := prevXactReadOnly (current s')\<rparr>)"
    obtain x' y' zs' where s': "xstack s' = x' # y' # zs'"
      using k(1) y(2) by (auto simp: ctl_def map_eq_Cons_conv)
    have "ends A (at (c # cs) xs) (at ((b, TRANS_COMMIT, n, nm) # c # cs) xs) (PopTransaction ?t)"
      by (rule pop_at[OF frame[OF i]]) (use k(1) x(1-3,5) s' k(2) y in \<open>auto simp: id_state_def ctl_def\<close>)
    then show ?thesis using m True y(2) by (simp add: ends_simps current_def)
  next
    case False
    then show ?thesis using m k(3) assms(1) y(2) by (auto simp: ends_simps current_def)
  qed
qed

lemma CommitSubTransaction_at:
  assumes "at ((b, st, n, nm) # c # cs) xs s" "\<forall>c' \<in> set (c # cs). fst (snd c') = TRANS_INPROGRESS" "st \<notin> {TRANS_ABORT, TRANS_DEFAULT}"
  shows "ends A (at (c # cs) xs)
    (\<lambda>s'. at ((b, st, n, nm) # c # cs) xs s' \<or> at ((b, TRANS_COMMIT, n, nm) # c # cs) xs s') (CommitSubTransaction conf s)"
proof -
  let ?c = "(b, TRANS_COMMIT, n, nm) # c # cs"
  let ?E = "\<lambda>s'. at ((b, st, n, nm) # c # cs) xs s' \<or> at ?c xs s'"
  let ?rest = "[only_if (\<lambda>s. FullTransactionIdIsValid (fullTransactionId (current s))) AtSubCommit_childXids,
       upd (\<lambda>s. upd_current (\<lambda>x. x\<lparr>curTransactionOwner := False, state := TRANS_DEFAULT\<rparr>)
                  (s\<lparr>XactReadOnly := prevXactReadOnly (current s)\<rparr>)),
       PopTransaction]"
  have 1: "ends A (at (c # cs) xs) ?E (steps ?rest s')" if "at ?c xs s'" for s'
    by (rule ends_mono[OF sub_commit_at[OF that assms(2)]]) auto
  have 2: "ends A (at (c # cs) xs) ?E (steps (CommandCounterIncrement conf # ?rest)
      (upd_current (\<lambda>x. x\<lparr>parallelModeLevel := 0, state := TRANS_COMMIT\<rparr>) s'))"
    if "at ((b, st, n, nm) # c # cs) xs s'" for s'
  proof -
    have "at ?c xs (upd_current (\<lambda>x. x\<lparr>parallelModeLevel := 0, state := TRANS_COMMIT\<rparr>) s')"
      using upd_at[OF that] assms(3) by (auto simp: lvl_def level_ids_def)
    from CommandCounterIncrement_at[OF this] show ?thesis
      unfolding ends_steps_Cons[of A _ _ "CommandCounterIncrement conf"] by (rule ends_mono) (use 1 in auto)
  qed
  show ?thesis
    unfolding CommitSubTransaction_def
    apply (subst ends_steps_Cons, rule ends_warn_if, subst ends_steps_Cons)
    apply (rule ends_mono[OF hook_at[OF at_warn[OF assms(1)]]])
     apply (subst ends_steps_Cons, rule ends_warn_if, subst ends_steps_Cons)
     apply (simp add: ends_upd 2[OF at_warn])
    apply simp
    done
qed

lemma AbortSubTransaction_at:
  assumes "at ((b, st, n, nm) # c # cs) xs s" "st \<noteq> TRANS_ABORT"
  shows "ends A (at ((b, TRANS_ABORT, n, nm) # c # cs) xs) E (AbortSubTransaction conf s)"
proof -
  let ?a = "upd_current (\<lambda>x. x\<lparr>state := TRANS_ABORT, parallelModeLevel := 0\<rparr>)"
  let ?rec = "\<lambda>s. case RecordTransactionAbort conf True s of (out, _, s) \<Rightarrow>
                if out \<noteq> Done then (out, s)
                else (Done, if FullTransactionIdIsValid (fullTransactionId (current s)) then AtSubAbort_childXids s else s)"
  have "ends A (at ((b, TRANS_ABORT, n, nm) # c # cs) xs) E (only_if (\<lambda>s. curTransactionOwner (current s)) ?rec (?a s'))"
    if a: "at ((b, st, n, nm) # c # cs) xs s'" for s'
  proof -
    obtain x ys where x: "xstack s' = x # ys" "lvl x = (b, st, n, nm)" "map lvl ys = c # cs" "I s'" "xact_started s' = xs"
      using a by (rule atD)
    then obtain y zs where y: "xstack s' = x # y # zs" by auto
    have s0: "state x \<noteq> TRANS_ABORT" using x(2) assms(2) by (simp add: lvl_def)
    show ?thesis
    proof (cases "curTransactionOwner x")
      case True
      obtain out l t where r: "RecordTransactionAbort conf True (?a s') = (out, l, t)" by (metis prod_cases3)
      note k = RecordTransactionAbort_keeps[OF r]
      have e: "ends A (\<lambda>t. I (if FullTransactionIdIsValid (fullTransactionId (current t)) then AtSubAbort_childXids t else t)) (\<lambda>_. False) (out, t)"
        using sub_abort_ids[OF x(4) y s0 True] r by simp
      have "at ((b, TRANS_ABORT, n, nm) # c # cs) xs (if FullTransactionIdIsValid (fullTransactionId (current t)) then AtSubAbort_childXids t else t)"
        if "out = Done"
        using e that k(1,2) x y by (auto simp: ends_simps at_def ctl_def lvl_def AtSubAbort_childXids_def)
      then show ?thesis using e r True y k(1) by (cases out) (auto simp: ends_simps current_def)
    next
      case False
      then show ?thesis
        using sub_unstarted_ids[OF x(4) y False] x y by (auto simp: ends_simps at_def ctl_def lvl_def current_def)
    qed
  qed
  note k = this[OF at_warn[OF assms(1)]]
  show ?thesis
    unfolding AbortSubTransaction_def
    apply (subst ends_steps_Cons, rule ends_warn_if, subst ends_steps_Cons, simp only: ends_upd)
    apply (subst ends_steps_Cons, rule ends_mono[OF k])
    by (auto simp: ends_simps at_def I_fields)
qed

end

section \<open>What the commands do to the control state\<close>

abbreviation idle_ctl :: "level list" where "idle_ctl \<equiv> [(TBLOCK_DEFAULT, TRANS_DEFAULT, 0, None)]"
abbreviation block_ctl :: "level list" where "block_ctl \<equiv> [(TBLOCK_INPROGRESS, TRANS_INPROGRESS, 1, None)]"

definition resting :: "TBlockState set" where
  "resting = {TBLOCK_DEFAULT, TBLOCK_INPROGRESS, TBLOCK_IMPLICIT_INPROGRESS, TBLOCK_ABORT, TBLOCK_SUBINPROGRESS, TBLOCK_SUBABORT}"

text \<open>
  The end of a command: the current level comes to rest, levels that were released or rolled back are
  gone, and a transaction that ended leaves the session idle or, with \<^verbatim>\<open>AND CHAIN\<close>, in a new block.
\<close>

fun after_commit :: "level list \<Rightarrow> level list set" where
  "after_commit [] = {}"
| "after_commit ((b, st, n, nm) # cs) =
     (case b of
        TBLOCK_STARTED \<Rightarrow> {idle_ctl}
      | TBLOCK_PREPARE \<Rightarrow> {idle_ctl}
      | TBLOCK_BEGIN \<Rightarrow> {(TBLOCK_INPROGRESS, st, n, nm) # cs}
      | TBLOCK_END \<Rightarrow> {idle_ctl, block_ctl}
      | TBLOCK_ABORT_END \<Rightarrow> {idle_ctl, block_ctl}
      | TBLOCK_ABORT_PENDING \<Rightarrow> {idle_ctl, block_ctl}
      | TBLOCK_SUBCOMMIT \<Rightarrow> {idle_ctl, block_ctl}
      | TBLOCK_SUBBEGIN \<Rightarrow> {(TBLOCK_SUBINPROGRESS, TRANS_INPROGRESS, n, nm) # cs}
      | TBLOCK_SUBRESTART \<Rightarrow> {(TBLOCK_SUBINPROGRESS, TRANS_INPROGRESS, n, nm) # cs}
      | TBLOCK_SUBABORT_RESTART \<Rightarrow> {(TBLOCK_SUBINPROGRESS, TRANS_INPROGRESS, n, nm) # cs}
      | TBLOCK_SUBRELEASE \<Rightarrow> {dropWhile (\<lambda>c. fst c = TBLOCK_SUBRELEASE) cs}
      | TBLOCK_SUBABORT_END \<Rightarrow> after_commit cs
      | TBLOCK_SUBABORT_PENDING \<Rightarrow> after_commit cs
      | _ \<Rightarrow> {(b, st, n, nm) # cs})"

text \<open>
  After an error: the levels of an unfinished command are gone, and the level that was in progress
  is a failed one.
\<close>

fun after_abort :: "level list \<Rightarrow> level list" where
  "after_abort [] = []"
| "after_abort ((b, st, n, nm) # cs) =
     (case b of
        TBLOCK_INPROGRESS \<Rightarrow> [(TBLOCK_ABORT, TRANS_ABORT, n, nm)]
      | TBLOCK_ABORT \<Rightarrow> (b, st, n, nm) # cs
      | TBLOCK_SUBABORT \<Rightarrow> (b, st, n, nm) # cs
      | TBLOCK_SUBINPROGRESS \<Rightarrow> (TBLOCK_SUBABORT, TRANS_ABORT, n, nm) # cs
      | _ \<Rightarrow> if cs = [] then idle_ctl else after_abort cs)"

definition query_tops :: "TBlockState set" where
  "query_tops = {TBLOCK_STARTED, TBLOCK_IMPLICIT_INPROGRESS}"

lemma enclosing_state: "T \<subseteq> query_tops \<Longrightarrow> b' \<in> enclosing T b \<Longrightarrow> state_of b' = TRANS_INPROGRESS"
  by (cases b) (auto simp: query_tops_def)

lemma shaped_tl:
  "shaped T (c # c' # cs) \<Longrightarrow> typed T (c' # cs)"
  by (cases c; cases c') (auto simp: typed_def)

lemma typed_shaped: "typed T cs \<Longrightarrow> shaped T cs"
  by (simp add: typed_def)

lemmas typed_tl = shaped_tl[OF typed_shaped]

lemma shaped_states:
  assumes "T \<subseteq> query_tops" "shaped T (c # cs)"
  shows "\<forall>c' \<in> set cs. fst (snd c') = TRANS_INPROGRESS"
  using assms(2)
proof (induction cs arbitrary: c)
  case (Cons c' cs)
  have "fst (snd c') = TRANS_INPROGRESS"
    using Cons.prems enclosing_state[OF assms(1)] by (cases c; cases c') auto
  moreover have "shaped T (c' # cs)" using shaped_tl[OF Cons.prems] by (simp add: typed_def)
  ultimately show ?case using Cons.IH by simp
qed simp

lemma typed_head: "typed T ((b, st, n, nm) # cs) \<Longrightarrow> st = state_of b"
  by (simp add: typed_def)

lemma shaped_head:
  assumes "shaped T ((b, st, n, nm) # cs)"
  shows "cs = [] \<Longrightarrow> b \<in> top_blocks \<and> nm = None \<and> n = (if st = TRANS_DEFAULT then 0 else 1)"
    "cs \<noteq> [] \<Longrightarrow> fst (hd cs) \<in> enclosing T b \<and> n = Suc (fst (snd (snd (hd cs))))"
  using assms by (cases cs; auto)+

lemma shaped_top: "shaped T ((b, st, n, nm) # cs) \<Longrightarrow> b \<in> top_blocks \<Longrightarrow> cs = []"
  using shaped_head(2)[of T b st n nm cs] by (cases b) (auto simp: top_blocks_def)

lemma shaped_sub: "shaped T ((b, st, n, nm) # cs) \<Longrightarrow> b \<notin> top_blocks \<Longrightarrow> cs \<noteq> []"
  using shaped_head(1) by auto

lemma shaped_change:
  assumes "shaped T ((b, st, n, nm) # c # cs)" "enclosing T b \<subseteq> enclosing T b'"
  shows "shaped T ((b', st', n, nm') # c # cs)"
  using assms by (cases c) auto

lemma typed_released:
  assumes "typed T (c # cs)" "fst c = TBLOCK_SUBRELEASE"
  shows "typed T (dropWhile (\<lambda>c. fst c = TBLOCK_SUBRELEASE) cs)
    \<and> dropWhile (\<lambda>c. fst c = TBLOCK_SUBRELEASE) cs \<noteq> []
    \<and> fst (hd (dropWhile (\<lambda>c. fst c = TBLOCK_SUBRELEASE) cs)) \<in> {TBLOCK_SUBINPROGRESS, TBLOCK_INPROGRESS}"
  using assms
proof (induction cs arbitrary: c)
  case Nil
  then show ?case by (cases c) (auto simp: typed_def top_blocks_def)
next
  case (Cons c' cs)
  have t: "typed T (c' # cs)" using Cons.prems(1) by (rule typed_tl)
  have "fst c' \<in> {TBLOCK_SUBRELEASE, TBLOCK_SUBINPROGRESS, TBLOCK_INPROGRESS}"
    using Cons.prems by (cases c; cases c') (auto simp: typed_def)
  then show ?case using Cons.IH[OF t] t by auto
qed

lemma after_commit_typed:
  assumes "typed T cs" "cs' \<in> after_commit cs"
  shows "typed T cs' \<and> fst (hd cs') \<in> resting"
  using assms
proof (induction cs rule: after_commit.induct)
  case (2 b st n nm cs)
  have st: "st = state_of b" using 2(3) by (rule typed_head)
  show ?case
  proof (cases "b \<in> top_blocks")
    case True
    then have "cs = []" using 2(3) shaped_top by (auto simp: typed_def)
    then show ?thesis using 2(3,4) True st
      by (auto simp: top_blocks_def typed_def resting_def)
  next
    case False
    then obtain c ds where cs: "cs = c # ds" using 2(3) shaped_sub by (cases cs) (auto simp: typed_def)
    have t: "typed T cs" using 2(3) typed_tl unfolding cs by blast
    have sh: "shaped T ((b, st, n, nm) # c # ds)" using typed_shaped[OF 2(3)] unfolding cs .
    have nb: "b \<noteq> TBLOCK_PARALLEL_INPROGRESS" using shaped_head(2)[OF sh] by auto
    show ?thesis
      using 2(1,2)[OF _ t] 2(4) False st cs t sh typed_released[OF 2(3)] nb
      by (cases b) (auto simp: top_blocks_def resting_def typed_def intro: shaped_change[OF sh])
  qed
qed simp

lemma interrupted_level:
  assumes "shaped T ((b, st, n, nm) # c # cs)" "(st' = TRANS_ABORT) = (state_of b = TRANS_ABORT)"
    "st' = TRANS_DEFAULT \<longrightarrow> b = TBLOCK_SUBBEGIN"
  shows "interrupted T ((b, st', n, nm) # c # cs)"
  using assms by (cases c; cases b) (auto simp: interrupted_def)

lemma ends_fail: "ends A Q E (out, s) \<Longrightarrow> out \<noteq> Done \<Longrightarrow> ends A Q' E (out, s)"
  by (cases out) (auto simp: ends_simps)

context session_ids
begin

abbreviation broken :: "TBlockState set \<Rightarrow> bool \<Rightarrow> session \<Rightarrow> bool" where
  "broken T xs s \<equiv> \<exists>cs. at cs xs s \<and> interrupted T cs"

lemma at_current: "at ((b, st, n, nm) # cs) xs s \<Longrightarrow> blockState (current s) = b \<and> state (current s) = st"
  by (auto elim!: atD simp: current_def lvl_def)

lemma commit_sub_loop_at:
  assumes "T \<subseteq> query_tops" "b \<in> {TBLOCK_SUBRELEASE, TBLOCK_SUBCOMMIT}"
    and "at ((b, st, n, nm) # cs) xs s" "typed T ((b, st, n, nm) # cs)"
  shows "\<exists>r. commit_sub_loop conf b s = Some r
    \<and> ends A (at (dropWhile (\<lambda>c. fst c = b) cs) xs) (broken T xs) r"
  using assms(3,4)
proof (induction cs arbitrary: st n nm s)
  case Nil
  then show ?case using assms(2) by (auto simp: typed_def top_blocks_def)
next
  case (Cons c cs)
  obtain b' st' n' nm' where c: "c = (b', st', n', nm')" by (cases c)
  have sh: "shaped T ((b, st, n, nm) # c # cs)" using Cons.prems(2) by (rule typed_shaped)
  have st: "st = TRANS_INPROGRESS" using typed_head[OF Cons.prems(2)] assms(2) by auto
  have all: "\<forall>c' \<in> set (c # cs). fst (snd c') = TRANS_INPROGRESS" using shaped_states[OF assms(1) sh] by simp
  have i: "interrupted T ((b, st', n, nm) # c # cs)" if "st' \<in> {TRANS_INPROGRESS, TRANS_COMMIT}" for st'
    using that assms(2) by (intro interrupted_level[OF sh]) auto
  obtain out s' where r: "CommitSubTransaction conf s = (out, s')" by fastforce
  have e: "ends A (at (c # cs) xs) (broken T xs) (out, s')"
    unfolding r[symmetric]
    by (rule ends_mono[OF CommitSubTransaction_at[OF Cons.prems(1) all]])
      (use st i in auto)
  show ?case
  proof (cases "out = Done")
    case True
    then have a: "at ((b', st', n', nm') # cs) xs s'" using e c by (simp add: ends_simps)
    show ?thesis
    proof (cases "b' = b")
      case True
      then show ?thesis
        using Cons.IH[of st' n' nm' s'] a typed_tl[OF Cons.prems(2)] c r \<open>out = Done\<close> at_current[OF a]
        by (subst commit_sub_loop.simps) (simp add: Let_def)
    next
      case False
      then show ?thesis
        using a c r \<open>out = Done\<close> at_current[OF a] by (subst commit_sub_loop.simps) (simp add: Let_def ends_simps)
    qed
  next
    case False
    then show ?thesis
      using ends_fail[OF e] r by (subst commit_sub_loop.simps) (simp add: Let_def)
  qed
qed

lemma set_block_at:
  assumes "at ((b, st, n, nm) # cs) xs s"
  shows "at ((b', st, n, nm) # cs) xs (upd_current (\<lambda>x. x\<lparr>blockState := b'\<rparr>) s)"
  using upd_at[OF assms] by (auto simp: lvl_def level_ids_def)

lemma end_or_chain_at:
  assumes "at [(b, TRANS_DEFAULT, 0, None)] xs s"
  shows "ends A (\<lambda>s'. at idle_ctl xs s' \<or> at block_ctl xs s') (broken T xs) (end_or_chain conf s0 s)"
proof -
  note d = set_block_at[OF assms, of TBLOCK_DEFAULT]
  have "at block_ctl xs (RestoreTransactionCharacteristics s0 (upd_current (\<lambda>x. x\<lparr>chain := False\<rparr>)
          (upd_current (\<lambda>x. x\<lparr>blockState := TBLOCK_INPROGRESS\<rparr>) s')))"
    if "at [(TBLOCK_DEFAULT, TRANS_INPROGRESS, 1, None)] xs s'" for s'
  proof -
    have "at block_ctl xs (upd_current (\<lambda>x. x\<lparr>chain := False\<rparr>) (upd_current (\<lambda>x. x\<lparr>blockState := TBLOCK_INPROGRESS\<rparr>) s'))"
      using upd_at[OF set_block_at[OF that]] by (auto simp: level_ids_def)
    then show ?thesis by (auto simp: at_def I_fields ctl_def) (auto simp: RestoreTransactionCharacteristics_def)
  qed
  moreover have "interrupted T [(TBLOCK_DEFAULT, TRANS_START, 1, None)]"
    by (simp add: interrupted_def top_blocks_def)
  ultimately show ?thesis
    unfolding end_or_chain_def ends_simps
    using d by (auto intro!: ends_mono[OF StartTransaction_at[OF d]])
qed

end

lemma typed_interrupted: "typed T cs \<Longrightarrow> interrupted T cs"
  by (cases "hd cs"; cases "fst (hd cs)") (auto simp: typed_def interrupted_def)

lemma ends_weaken_error: "ends A Q E r \<Longrightarrow> (\<And>s. E s \<Longrightarrow> E' s) \<Longrightarrow> ends A Q E' r"
  by (rule ends_mono)

lemma ends_steps_append:
  "ends A Q E (steps (ms @ ns) s) = ends A (\<lambda>s'. ends A Q E (steps ns s')) E (steps ms s)"
  by (induction ms arbitrary: s) (simp_all add: ends_simps)

context session_ids
begin

lemma DefineSavepoint_at:
  assumes "at ((b, TRANS_INPROGRESS, n, nm) # cs) xs s" "b \<in> {TBLOCK_SUBINPROGRESS, TBLOCK_INPROGRESS}"
  shows "ends A (at ((TBLOCK_SUBBEGIN, TRANS_DEFAULT, Suc n, nm') # (b, TRANS_INPROGRESS, n, nm) # cs) xs)
    (at ((b, TRANS_INPROGRESS, n, nm) # cs) xs) (DefineSavepoint conf nm' s)"
proof -
  have "at ((TBLOCK_SUBBEGIN, TRANS_DEFAULT, Suc n, nm') # (b, TRANS_INPROGRESS, n, nm) # cs) xs (set_name nm' s')"
    if "at ((TBLOCK_SUBBEGIN, TRANS_DEFAULT, Suc n, None) # (b, TRANS_INPROGRESS, n, nm) # cs) xs s'" for s'
    using that upd_at[OF that] by (auto simp: set_name_def lvl_def level_ids_def)
  then show ?thesis
    using at_current[OF assms(1)] assms
    by (auto simp: DefineSavepoint_def ends_simps intro: ends_mono[OF PushTransaction_at[OF assms(1)]])
qed

lemma restart_savepoint_at:
  assumes "at ((b, st, n, nm) # c # cs) xs s" "typed T ((b, st, n, nm) # c # cs)"
    and "fst c \<in> {TBLOCK_SUBINPROGRESS, TBLOCK_INPROGRESS}"
    and undo: "\<And>s'. at ((b, st, n, None) # c # cs) xs s' \<Longrightarrow> ends A (at (c # cs) xs) (\<lambda>_. False) (steps undo s')"
  shows "ends A (at ((TBLOCK_SUBINPROGRESS, TRANS_INPROGRESS, n, nm) # c # cs) xs) (broken T xs)
    (restart_savepoint conf undo s)"
proof -
  let ?Q = "at ((TBLOCK_SUBINPROGRESS, TRANS_INPROGRESS, n, nm) # c # cs) xs"
  obtain b' st' n' nm' where c: "c = (b', st', n', nm')" by (cases c)
  have t: "typed T (c # cs)" using assms(2) by (rule typed_tl)
  have "b' \<in> {TBLOCK_SUBINPROGRESS, TBLOCK_INPROGRESS}" using assms(3) c by simp
  moreover have "st' = state_of b'" using t c typed_head by blast
  moreover have "n = Suc n'" using shaped_head(2)[OF typed_shaped[OF assms(2)]] c by simp
  ultimately have b': "st' = TRANS_INPROGRESS" "n = Suc n'" "b' \<in> {TBLOCK_SUBINPROGRESS, TBLOCK_INPROGRESS}" by auto
  have i: "interrupted T ((TBLOCK_SUBBEGIN, TRANS_INPROGRESS, n, nm) # c # cs)"
    using t b' c by (auto simp: interrupted_def typed_def)
  have start: "ends A ?Q (broken T xs) (steps [StartSubTransaction conf, set_block TBLOCK_SUBINPROGRESS] s')"
    if "at ((TBLOCK_SUBBEGIN, TRANS_DEFAULT, n, nm) # c # cs) xs s'" for s'
    unfolding ends_simps by (rule ends_mono[OF StartSubTransaction_at[OF that]]) (use i set_block_at in auto)
  have name: "at ((TBLOCK_SUBBEGIN, TRANS_DEFAULT, n, nm) # c # cs) xs (upd_current (\<lambda>x. x\<lparr>xact_name := nm, savepointLevel := lev\<rparr>) s')"
    if "at ((TBLOCK_SUBBEGIN, TRANS_DEFAULT, n, None) # c # cs) xs s'" for s' lev
    using upd_at[OF that] by (auto simp: lvl_def level_ids_def)
  have push: "ends A ?Q (broken T xs) (steps [DefineSavepoint conf None, upd (upd_current (\<lambda>x. x\<lparr>xact_name := nm, savepointLevel := lev\<rparr>)),
       StartSubTransaction conf, set_block TBLOCK_SUBINPROGRESS] s')" if a: "at (c # cs) xs s'" for s' lev
    apply (subst ends_steps_Cons)
    apply (rule ends_mono[OF DefineSavepoint_at[OF a[unfolded c b'(1)] b'(3), of None]])
     apply (subst ends_steps_Cons, simp only: ends_upd)
    using name start typed_interrupted[OF t] c b' by auto
  have nm: "xact_name (current s) = nm" using assms(1) by (auto elim!: atD simp: current_def lvl_def)
  have "at ((b, st, n, None) # c # cs) xs (upd_current (\<lambda>x. x\<lparr>xact_name := None\<rparr>) s)"
    using upd_at[OF assms(1)] by (auto simp: lvl_def level_ids_def)
  note u = undo[OF this]
  show ?thesis
    unfolding restart_savepoint_def Let_def nm append_Cons append_Nil
    apply (subst ends_steps_Cons, simp only: ends_upd)
    apply (subst ends_steps_append, rule ends_mono[OF u])
     apply (rule push)
    by simp_all
qed

end

lemma interrupted_top:
  assumes "b \<in> top_blocks" "b \<noteq> TBLOCK_DEFAULT" "(st = TRANS_ABORT) = (state_of b = TRANS_ABORT)" "st \<noteq> TRANS_DEFAULT"
  shows "interrupted T [(b, st, 1, None)]"
  using assms by (simp add: interrupted_def)

lemma typed_committed:
  assumes "typed T (c # cs)" "fst c = TBLOCK_SUBCOMMIT"
  shows "\<exists>b \<in> {TBLOCK_END, TBLOCK_PREPARE}. dropWhile (\<lambda>c. fst c = TBLOCK_SUBCOMMIT) cs = [(b, TRANS_INPROGRESS, 1, None)]"
  using assms
proof (induction cs arbitrary: c)
  case Nil
  then show ?case by (cases c) (auto simp: typed_def top_blocks_def)
next
  case (Cons c' cs)
  have t: "typed T (c' # cs)" using Cons.prems(1) by (rule typed_tl)
  obtain b st n nm where c': "c' = (b, st, n, nm)" by (cases c')
  have "b \<in> {TBLOCK_SUBCOMMIT, TBLOCK_END, TBLOCK_PREPARE}"
    using Cons.prems c' by (cases c) (auto simp: typed_def)
  moreover have "cs = []" if "b \<in> {TBLOCK_END, TBLOCK_PREPARE}"
    using that t c' shaped_top[of T b st n nm cs] by (auto simp: typed_def top_blocks_def)
  ultimately show ?case using Cons.IH[OF t] t c' by (auto simp: typed_def top_blocks_def split: if_splits)
qed

context session_ids
begin

lemma brokenI: "at cs xs s \<Longrightarrow> interrupted T cs \<Longrightarrow> broken T xs s"
  by blast

lemma commit_then:
  assumes "at [(b, TRANS_INPROGRESS, 1, None)] xs s" "b \<in> {TBLOCK_STARTED, TBLOCK_END}"
    and "\<And>s'. at [(b, TRANS_DEFAULT, 0, None)] xs s' \<Longrightarrow> ends A Q (broken T xs) (m s')"
  shows "ends A Q (broken T xs) (steps [CommitTransaction conf, m] s)"
proof -
  have "interrupted T [(b, st, 1, None)]" if "st \<in> {TRANS_INPROGRESS, TRANS_COMMIT}" for st
    using assms(2) that by (intro interrupted_top) (auto simp: top_blocks_def)
  then have "ends A (at [(b, TRANS_DEFAULT, 0, None)] xs) (broken T xs) (CommitTransaction conf s)"
    by (intro ends_mono[OF CommitTransaction_at[OF assms(1)]]) (use assms(2) in \<open>auto intro: brokenI\<close>)
  then show ?thesis unfolding ends_steps_Cons ends_steps_Nil
    by (rule ends_mono) (use assms(3) in auto)
qed

lemma prepare_then:
  assumes "at [(TBLOCK_PREPARE, TRANS_INPROGRESS, 1, None)] xs s"
  shows "ends A (at idle_ctl xs) (broken T xs) (steps [PrepareTransaction conf, set_block TBLOCK_DEFAULT] s)"
proof -
  have "interrupted T [(TBLOCK_PREPARE, st, 1, None)]" if "st \<in> {TRANS_INPROGRESS, TRANS_PREPARE}" for st
    using that by (intro interrupted_top) (auto simp: top_blocks_def)
  then have "ends A (at [(TBLOCK_PREPARE, TRANS_DEFAULT, 0, None)] xs) (broken T xs) (PrepareTransaction conf s)"
    by (intro ends_mono[OF PrepareTransaction_at[OF assms]]) (auto intro: brokenI)
  then show ?thesis unfolding ends_simps by (rule ends_mono) (use set_block_at in auto)
qed

lemma cleanup_then:
  assumes "at [(b, TRANS_ABORT, n, nm)] xs s"
    and "\<And>s'. at [(b, TRANS_DEFAULT, 0, nm)] xs s' \<Longrightarrow> ends A Q E (m s')"
  shows "ends A Q E (steps [CleanupTransaction, m] s)"
  unfolding ends_steps_Cons ends_steps_Nil
  by (rule ends_mono[OF CleanupTransaction_at[OF assms(1)]]) (use assms(2) in auto)

lemma abort_then:
  assumes "at [(b, st, n, nm)] xs s" "b \<noteq> TBLOCK_PARALLEL_INPROGRESS" "st \<noteq> TRANS_ABORT"
    and "\<And>s'. at [(b, TRANS_ABORT, n, nm)] xs s' \<Longrightarrow> ends A Q E (steps ms s')"
  shows "ends A Q E (steps (AbortTransaction conf # ms) s)"
  unfolding ends_steps_Cons
  by (rule ends_mono[OF AbortTransaction_at[OF assms(1-3)]]) (use assms(4) in auto)

lemma abort_sub_then:
  assumes "at ((b, st, n, nm) # c # cs) xs s" "st \<noteq> TRANS_ABORT"
  shows "ends A (at (c # cs) xs) E (steps [AbortSubTransaction conf, CleanupSubTransaction] s)"
  unfolding ends_simps
  by (rule ends_mono[OF AbortSubTransaction_at[OF assms]]) (use CleanupSubTransaction_at in auto)

lemma end_or_chain_idle:
  "at [(b, TRANS_DEFAULT, 0, None)] xs s \<Longrightarrow>
   ends A (\<lambda>s'. \<exists>cs \<in> {idle_ctl, block_ctl}. at cs xs s') (broken T xs) (end_or_chain conf s0 s)"
  using end_or_chain_at by simp

lemma commit_top_at:
  assumes a: "at [(b, st, 1, None)] xs s" "st = state_of b"
    and b: "b \<in> {TBLOCK_STARTED, TBLOCK_BEGIN, TBLOCK_INPROGRESS, TBLOCK_IMPLICIT_INPROGRESS, TBLOCK_END,
      TBLOCK_ABORT, TBLOCK_ABORT_END, TBLOCK_ABORT_PENDING, TBLOCK_PREPARE}"
  shows "fst (CommitTransactionCommandInternal conf s)
    \<and> ends A (\<lambda>s'. \<exists>cs \<in> after_commit [(b, st, 1, None)]. at cs xs s') (broken T xs)
        (snd (CommitTransactionCommandInternal conf s))"
proof -
  have cur: "blockState (current s) = b" using at_current[OF a(1)] by simp
  have t: "interrupted T [(b, st, 1, None)]" using b a(2) by (intro interrupted_top) (auto simp: top_blocks_def)
  have cci: "ends A (\<lambda>s'. at [(b, st, 1, None)] xs s') (broken T xs) (CommandCounterIncrement conf s)"
    by (rule ends_mono[OF CommandCounterIncrement_at[OF a(1)]]) (use t in \<open>auto intro: brokenI\<close>)
  let ?Q = "\<lambda>s'. \<exists>cs \<in> {idle_ctl, block_ctl}. at cs xs s'"
  consider "b = TBLOCK_STARTED" | "b = TBLOCK_BEGIN" | "b \<in> {TBLOCK_INPROGRESS, TBLOCK_IMPLICIT_INPROGRESS}" | "b = TBLOCK_END"
    | "b = TBLOCK_ABORT" | "b = TBLOCK_ABORT_END" | "b = TBLOCK_ABORT_PENDING" | "b = TBLOCK_PREPARE" using b by auto
  then show ?thesis
  proof cases
    case 1
    have "ends A (at idle_ctl xs) (broken T xs) (steps [CommitTransaction conf, set_block TBLOCK_DEFAULT] s)"
      by (rule commit_then[of b]) (use a 1 set_block_at in \<open>auto simp: ends_simps\<close>)
    then show ?thesis using cur 1 by (simp add: CommitTransactionCommandInternal_def)
  next
    case 4
    have "ends A ?Q (broken T xs) (steps [CommitTransaction conf, end_or_chain conf s] s)"
      by (rule commit_then[OF _ _ end_or_chain_idle, of b]) (use a 4 in auto)
    then show ?thesis using cur 4 by (simp add: CommitTransactionCommandInternal_def)
  next
    case 6
    have "ends A ?Q (broken T xs) (steps [CleanupTransaction, end_or_chain conf s] s)"
      by (rule cleanup_then[OF _ end_or_chain_idle, of b 1]) (use a 6 in auto)
    then show ?thesis using cur 6 by (simp add: CommitTransactionCommandInternal_def)
  next
    case 7
    have "ends A ?Q (broken T xs) (steps [AbortTransaction conf, CleanupTransaction, end_or_chain conf s] s)"
      by (rule abort_then[OF a(1) _ _ cleanup_then[OF _ end_or_chain_idle]]) (use a 7 in auto)
    then show ?thesis using cur 7 by (simp add: CommitTransactionCommandInternal_def)
  next
    case 8
    then show ?thesis using cur a prepare_then[of xs s T] by (simp add: CommitTransactionCommandInternal_def)
  qed (use cur a cci set_block_at[OF a(1), of TBLOCK_INPROGRESS] in \<open>auto simp: CommitTransactionCommandInternal_def ends_simps\<close>)
qed

lemma commit_all_at:
  assumes T: "T \<subseteq> query_tops" and a: "at ((TBLOCK_SUBCOMMIT, st, n, nm) # c # cs) xs s"
    and t: "typed T ((TBLOCK_SUBCOMMIT, st, n, nm) # c # cs)"
  shows "ends A (\<lambda>s'. \<exists>cs \<in> {idle_ctl, block_ctl}. at cs xs s') (broken T xs)
    (steps [loop_result (commit_sub_loop conf TBLOCK_SUBCOMMIT),
       (\<lambda>s'. if blockState (current s') = TBLOCK_END then steps [CommitTransaction conf, end_or_chain conf s0] s'
             else if blockState (current s') = TBLOCK_PREPARE then steps [PrepareTransaction conf, set_block TBLOCK_DEFAULT] s'
             else unexpected ERROR s')] s)"
proof -
  let ?Q = "\<lambda>s'. \<exists>cs \<in> {idle_ctl, block_ctl}. at cs xs s'"
  obtain b' where b': "b' \<in> {TBLOCK_END, TBLOCK_PREPARE}"
      "dropWhile (\<lambda>c. fst c = TBLOCK_SUBCOMMIT) (c # cs) = [(b', TRANS_INPROGRESS, 1, None)]"
    using typed_committed[OF t] by auto
  have fin: "ends A ?Q (broken T xs)
      (if blockState (current s') = TBLOCK_END then steps [CommitTransaction conf, end_or_chain conf s0] s'
       else if blockState (current s') = TBLOCK_PREPARE then steps [PrepareTransaction conf, set_block TBLOCK_DEFAULT] s'
       else unexpected ERROR s')" if a': "at [(b', TRANS_INPROGRESS, 1, None)] xs s'" for s'
  proof (cases "b' = TBLOCK_END")
    case True
    then show ?thesis using at_current[OF a'] commit_then[OF a' _ end_or_chain_idle] by simp
  next
    case False
    then have p: "b' = TBLOCK_PREPARE" using b'(1) by simp
    have "ends A ?Q (broken T xs) (steps [PrepareTransaction conf, set_block TBLOCK_DEFAULT] s')"
      by (rule ends_mono[OF prepare_then]) (use a' p in auto)
    then show ?thesis using at_current[OF a'] p by simp
  qed
  have "ends A (at [(b', TRANS_INPROGRESS, 1, None)] xs) (broken T xs) (loop_result (commit_sub_loop conf TBLOCK_SUBCOMMIT) s)"
    using commit_sub_loop_at[OF T _ a t] b' by (auto simp: loop_result_def)
  then show ?thesis
    unfolding ends_steps_Cons[of _ _ _ "loop_result (commit_sub_loop conf TBLOCK_SUBCOMMIT)"]
    by (rule ends_mono) (subst ends_steps_Cons, use fin in \<open>auto simp only: ends_steps_Nil\<close>)
qed

lemma commit_sub_at:
  assumes T: "T \<subseteq> query_tops" and a: "at ((b, st, n, nm) # c # cs) xs s" and t: "typed T ((b, st, n, nm) # c # cs)"
    and b: "b \<noteq> TBLOCK_SUBABORT_END" "b \<noteq> TBLOCK_SUBABORT_PENDING"
  shows "fst (CommitTransactionCommandInternal conf s)
    \<and> ends A (\<lambda>s'. \<exists>cs' \<in> after_commit ((b, st, n, nm) # c # cs). at cs' xs s') (broken T xs)
        (snd (CommitTransactionCommandInternal conf s))"
proof -
  let ?cs = "(b, st, n, nm) # c # cs"
  have cur: "blockState (current s) = b" using at_current[OF a] by simp
  have st: "st = state_of b" using t by (rule typed_head)
  have enc: "fst c \<in> enclosing T b" using shaped_head(2)[OF typed_shaped[OF t]] by simp
  consider "b = TBLOCK_SUBBEGIN" | "b = TBLOCK_SUBINPROGRESS" | "b = TBLOCK_SUBABORT" | "b = TBLOCK_SUBRELEASE"
    | "b = TBLOCK_SUBCOMMIT" | "b = TBLOCK_SUBRESTART" | "b = TBLOCK_SUBABORT_RESTART"
    using b enc by (cases b) auto
  then show ?thesis
  proof cases
    case 1
    have i: "interrupted T ((b, TRANS_INPROGRESS, n, nm) # c # cs)"
      using 1 by (intro interrupted_level[OF typed_shaped[OF t]]) auto
    have "ends A (at ((TBLOCK_SUBINPROGRESS, TRANS_INPROGRESS, n, nm) # c # cs) xs) (broken T xs)
        (steps [StartSubTransaction conf, set_block TBLOCK_SUBINPROGRESS] s)"
      unfolding ends_simps
      by (rule ends_mono[OF StartSubTransaction_at, of b n nm c cs xs]) (use a st 1 set_block_at i in \<open>auto intro: brokenI\<close>)
    then show ?thesis using cur 1 by (simp add: CommitTransactionCommandInternal_def)
  next
    case 2
    have "ends A (at ?cs xs) (broken T xs) (CommandCounterIncrement conf s)"
      by (rule ends_mono[OF CommandCounterIncrement_at[OF a]]) (use typed_interrupted[OF t] in \<open>auto intro: brokenI\<close>)
    then show ?thesis using cur 2 by (simp add: CommitTransactionCommandInternal_def)
  next
    case 3
    then show ?thesis using cur a by (simp add: CommitTransactionCommandInternal_def ends_simps)
  next
    case 4
    then show ?thesis
      using cur commit_sub_loop_at[OF T _ a t] by (auto simp: CommitTransactionCommandInternal_def loop_result_def)
  next
    case 5
    then show ?thesis using cur commit_all_at[OF T] a t by (simp add: CommitTransactionCommandInternal_def)
  next
    case 6
    have "ends A (at ((TBLOCK_SUBINPROGRESS, TRANS_INPROGRESS, n, nm) # c # cs) xs) (broken T xs)
        (restart_savepoint conf [AbortSubTransaction conf, CleanupSubTransaction] s)"
      by (rule restart_savepoint_at[OF a t]) (use enc 6 st abort_sub_then in auto)
    then show ?thesis using cur 6 by (simp add: CommitTransactionCommandInternal_def)
  next
    case 7
    have "ends A (at ((TBLOCK_SUBINPROGRESS, TRANS_INPROGRESS, n, nm) # c # cs) xs) (broken T xs)
        (restart_savepoint conf [CleanupSubTransaction] s)"
      by (rule restart_savepoint_at[OF a t]) (use enc 7 st CleanupSubTransaction_at in \<open>auto simp: ends_simps\<close>)
    then show ?thesis using cur 7 by (simp add: CommitTransactionCommandInternal_def)
  qed
qed

end

context session_ids
begin

lemma CommitTransactionCommand_at:
  assumes T: "T \<subseteq> query_tops" and "at cs xs s" "typed T cs" "fst (hd cs) \<noteq> TBLOCK_DEFAULT"
  shows "\<exists>r. CommitTransactionCommand conf s = Some r
    \<and> ends A (\<lambda>s'. \<exists>cs' \<in> after_commit cs. at cs' xs s') (broken T xs) r"
  using assms(2-)
proof (induction cs arbitrary: s)
  case (Cons c cs)
  obtain b st n nm where c: "c = (b, st, n, nm)" by (cases c)
  let ?r = "CommitTransactionCommandInternal conf s"
  note a = Cons.prems(1)[unfolded c] and t = Cons.prems(2)[unfolded c]
  have st: "st = state_of b" using t by (rule typed_head)
  show ?case
  proof (cases "b \<in> {TBLOCK_SUBABORT_END, TBLOCK_SUBABORT_PENDING}")
    case False
    have "fst ?r \<and> ends A (\<lambda>s'. \<exists>cs' \<in> after_commit ((b, st, n, nm) # cs). at cs' xs s') (broken T xs) (snd ?r)"
    proof (cases cs)
      case Nil
      then have "b \<in> top_blocks" "n = 1" "nm = None"
        using shaped_head(1)[OF typed_shaped[OF t]] Cons.prems(3) st c by (cases b; auto simp: top_blocks_def)+
      then show ?thesis
        using commit_top_at[of b st xs s T] a st Nil Cons.prems(3) c by (simp add: top_blocks_def)
    next
      case (Cons c' ds)
      then show ?thesis using commit_sub_at[OF T, of b st n nm c' ds xs s] a t False by auto
    qed
    then show ?thesis
      by (subst CommitTransactionCommand.simps) (simp add: Let_def c del: after_commit.simps)
  next
    case True
    then obtain c' ds where cs: "cs = c' # ds"
      using shaped_head(1)[OF typed_shaped[OF t]] by (cases cs) (auto simp: top_blocks_def)
    have cur: "blockState (current s) = b" using at_current[OF a] by simp
    have enc: "fst c' \<noteq> TBLOCK_DEFAULT" using shaped_head(2)[OF typed_shaped[OF t]] True cs by auto
    have "ends A (at cs xs) (\<lambda>_. False) (snd ?r)"
    proof (cases "b = TBLOCK_SUBABORT_END")
      case True
      then show ?thesis
        using cur a st CleanupSubTransaction_at[of b n nm c' ds xs s] cs by (simp add: CommitTransactionCommandInternal_def)
    next
      case False
      then have "b = TBLOCK_SUBABORT_PENDING" using True by simp
      then show ?thesis
        using cur a st abort_sub_then[of b st n nm c' ds xs s] cs by (simp add: CommitTransactionCommandInternal_def)
    qed
    moreover have "\<not> fst ?r" using True cur by (auto simp: CommitTransactionCommandInternal_def)
    ultimately obtain out s' where r: "?r = (False, out, s')" and e: "ends A (at cs xs) (\<lambda>_. False) (out, s')"
      by (cases ?r) auto
    show ?thesis
    proof (cases "out = Done")
      case out: True
      then have "at cs xs s'" using e by (simp add: ends_simps)
      then show ?thesis
        using Cons.IH[of s'] typed_tl[of T c c' ds] Cons.prems(2) cs enc True c r out
        by (subst CommitTransactionCommand.simps) (auto simp: Let_def)
    next
      case out: False
      have "ends A (\<lambda>s'. \<exists>cs' \<in> after_commit (c # cs). at cs' xs s') (broken T xs) (out, s')"
        by (rule ends_weaken_error[OF ends_fail[OF e out]]) simp
      then show ?thesis using r out by (subst CommitTransactionCommand.simps) (simp add: Let_def)
    qed
  qed
qed (simp add: typed_def)

lemma abort_cleanup_at:
  assumes "at [(b, st, n, None)] xs s" "b \<noteq> TBLOCK_PARALLEL_INPROGRESS" "st \<noteq> TRANS_ABORT"
  shows "ends A (at [(b, TRANS_DEFAULT, 0, None)] xs) E (steps [AbortTransaction conf, CleanupTransaction] s)"
  by (rule abort_then[OF assms])
    (simp add: ends_simps, rule ends_mono[OF CleanupTransaction_at], auto)

lemma abort_top_at:
  assumes a: "at [(b, st, n, nm)] xs s" and i: "interrupted {} [(b, st, n, nm)]" and b: "b \<in> top_blocks"
  shows "fst (AbortCurrentTransactionInternal conf s)
    \<and> ends A (at (after_abort [(b, st, n, nm)]) xs) (\<lambda>_. False) (snd (AbortCurrentTransactionInternal conf s))"
proof -
  have cur: "blockState (current s) = b" "state (current s) = st" using at_current[OF a] by simp_all
  have st: "(st = TRANS_ABORT) = (state_of b = TRANS_ABORT)" "nm = None"
    "b = TBLOCK_DEFAULT \<Longrightarrow> st = TRANS_DEFAULT \<and> n = 0 \<or> st = TRANS_START"
    using i by (auto simp: interrupted_def)
  have ac: "ends A (at [(b, TRANS_DEFAULT, 0, None)] xs) (\<lambda>_. False) (steps [AbortTransaction conf, CleanupTransaction] s')"
    if "at [(b, st', n, nm)] xs s'" "st' \<noteq> TRANS_ABORT" for st' s'
    using abort_cleanup_at[of b st' n xs s'] that st(2) b by (auto simp: top_blocks_def)
  have d: "at idle_ctl xs (upd_current (\<lambda>x. x\<lparr>blockState := TBLOCK_DEFAULT\<rparr>) s')"
    if "at [(b, TRANS_DEFAULT, 0, None)] xs s'" for s' using set_block_at[OF that] by simp
  consider "b = TBLOCK_DEFAULT" "st = TRANS_DEFAULT" | "b = TBLOCK_DEFAULT" "st = TRANS_START"
    | "b \<in> {TBLOCK_STARTED, TBLOCK_IMPLICIT_INPROGRESS, TBLOCK_BEGIN, TBLOCK_END, TBLOCK_ABORT_PENDING, TBLOCK_PREPARE}"
    | "b = TBLOCK_INPROGRESS" | "b = TBLOCK_ABORT" | "b = TBLOCK_ABORT_END"
    using b st(3) by (auto simp: top_blocks_def)
  then show ?thesis
  proof cases
    case 1
    then show ?thesis using cur a st by (simp add: AbortCurrentTransactionInternal_def ends_simps)
  next
    case 2
    have "at [(b, TRANS_INPROGRESS, n, nm)] xs (upd_current (\<lambda>x. x\<lparr>state := TRANS_INPROGRESS\<rparr>) s)"
      using upd_at[OF a] 2 by (auto simp: lvl_def level_ids_def)
    from ac[OF this] have "ends A (at idle_ctl xs) (\<lambda>_. False)
        (steps [only_if (\<lambda>s. state (current s) = TRANS_START) (upd (upd_current (\<lambda>x. x\<lparr>state := TRANS_INPROGRESS\<rparr>))),
           steps [AbortTransaction conf, CleanupTransaction]] s)"
      using cur 2 by (subst ends_steps_Cons) (simp add: ends_upd, subst ends_steps_Cons, simp add: ends_steps_Nil)
    then show ?thesis using cur 2 by (simp add: AbortCurrentTransactionInternal_def)
  next
    case 3
    then have "st \<noteq> TRANS_ABORT" using st(1) by auto
    then have "ends A (at idle_ctl xs) (\<lambda>_. False) (steps [steps [AbortTransaction conf, CleanupTransaction], set_block TBLOCK_DEFAULT] s)"
      by (subst ends_steps_Cons, intro ends_mono[OF ac[OF a]]) (use d in \<open>auto simp: ends_simps\<close>)
    then show ?thesis using cur 3 by (auto simp: AbortCurrentTransactionInternal_def)
  next
    case 4
    then have "ends A (at [(TBLOCK_ABORT, TRANS_ABORT, n, nm)] xs) (\<lambda>_. False) (steps [AbortTransaction conf, set_block TBLOCK_ABORT] s)"
      using a st(1) set_block_at by (intro abort_then[OF a]) (auto simp: ends_simps)
    then show ?thesis using cur 4 by (simp add: AbortCurrentTransactionInternal_def)
  next
    case 5
    then show ?thesis using cur a by (simp add: AbortCurrentTransactionInternal_def ends_simps)
  next
    case 6
    then have "ends A (at idle_ctl xs) (\<lambda>_. False) (steps [CleanupTransaction, set_block TBLOCK_DEFAULT] s)"
      using a st d by (intro cleanup_then[of b n None]) (auto simp: ends_simps)
    then show ?thesis using cur 6 by (simp add: AbortCurrentTransactionInternal_def)
  qed
qed

lemma abort_live_at:
  assumes a: "at ((b, st, n, nm) # c # cs) xs s" and "(st = TRANS_ABORT) = (state_of b = TRANS_ABORT)"
    and "b \<in> {TBLOCK_SUBINPROGRESS, TBLOCK_SUBABORT}"
  shows "fst (AbortCurrentTransactionInternal conf s)
    \<and> ends A (at (after_abort ((b, st, n, nm) # c # cs)) xs) (\<lambda>_. False) (snd (AbortCurrentTransactionInternal conf s))"
proof (cases "b = TBLOCK_SUBINPROGRESS")
  case True
  have cur: "blockState (current s) = b" using at_current[OF a] by simp
  have "st \<noteq> TRANS_ABORT" using assms(2) True by simp
  then have "ends A (at ((TBLOCK_SUBABORT, TRANS_ABORT, n, nm) # c # cs) xs) (\<lambda>_. False)
      (steps [AbortSubTransaction conf, set_block TBLOCK_SUBABORT] s)"
    unfolding ends_simps by (intro ends_mono[OF AbortSubTransaction_at[OF a]]) (use set_block_at in auto)
  then show ?thesis using cur True by (simp add: AbortCurrentTransactionInternal_def)
next
  case False
  then show ?thesis using a at_current[OF a] assms(3) by (simp add: AbortCurrentTransactionInternal_def ends_simps)
qed

lemma AbortCurrentTransaction_at:
  assumes "at cs xs s" "interrupted {} cs"
  shows "\<exists>r. AbortCurrentTransaction conf s = Some r \<and> ends A (at (after_abort cs) xs) (\<lambda>_. False) r"
  using assms
proof (induction cs arbitrary: s)
  case Nil
  then show ?case by (simp add: interrupted_def)
next
  case (Cons c cs)
  obtain b st n nm where c: "c = (b, st, n, nm)" by (cases c)
  let ?r = "AbortCurrentTransactionInternal conf s"
  note a = Cons.prems(1)[unfolded c] and i = Cons.prems(2)[unfolded c]
  have sh: "shaped {} ((b, st, n, nm) # cs)" using i by (simp add: interrupted_def)
  have cur: "blockState (current s) = b" "state (current s) = st" using at_current[OF a] by simp_all
  have st: "(st = TRANS_ABORT) = (state_of b = TRANS_ABORT)" using i by (simp add: interrupted_def)
  show ?case
  proof (cases "b \<in> top_blocks \<or> b \<in> {TBLOCK_SUBINPROGRESS, TBLOCK_SUBABORT}")
    case True
    have "fst ?r \<and> ends A (at (after_abort (c # cs)) xs) (\<lambda>_. False) (snd ?r)"
    proof (cases "b \<in> top_blocks")
      case b: True
      then show ?thesis using abort_top_at[of b st n nm xs s] a i shaped_top[OF sh b] c by simp
    next
      case False
      then obtain c' ds where "cs = c' # ds" using shaped_sub[OF sh] by (cases cs) auto
      then show ?thesis using abort_live_at[of b st n nm c' ds xs s] a True st c False by simp
    qed
    then show ?thesis by (subst AbortCurrentTransaction.simps) (simp add: Let_def c del: after_abort.simps)
  next
    case False
    then obtain c' ds where cs: "cs = c' # ds" using shaped_sub[OF sh] by (cases cs) auto
    have ne: "b \<noteq> TBLOCK_PARALLEL_INPROGRESS" using shaped_head(2)[OF sh] cs by auto
    have r: "?r = (False, if st = TRANS_ABORT then CleanupSubTransaction s
        else steps [AbortSubTransaction conf, CleanupSubTransaction] s)"
      using cur False st ne by (cases b) (auto simp: AbortCurrentTransactionInternal_def top_blocks_def)
    have e: "ends A (at cs xs) (\<lambda>_. False) (snd ?r)"
      using a CleanupSubTransaction_at[of b n nm c' ds xs s] abort_sub_then[of b st n nm c' ds xs s]
      unfolding r cs by (cases "st = TRANS_ABORT") auto
    have i': "interrupted {} cs" using sh cs typed_interrupted shaped_tl by blast
    have ab: "after_abort (c # cs) = after_abort cs" using False ne c cs by (cases b) (auto simp: top_blocks_def)
    obtain out s' where r': "?r = (False, out, s')" using r by (metis prod.collapse)
    show ?thesis
    proof (cases "out = Done")
      case True
      then have "at cs xs s'" using e r' by (simp add: ends_simps)
      from Cons.IH[OF this i'] show ?thesis
        unfolding ab using r' True by (subst AbortCurrentTransaction.simps) (simp add: Let_def)
    next
      case False
      then show ?thesis
        unfolding ab using ends_fail[of A "at cs xs" _ out s'] e r' by (subst AbortCurrentTransaction.simps) (simp add: Let_def)
    qed
  qed
qed

end

definition live_blocks :: "TBlockState set" where
  "live_blocks = {TBLOCK_STARTED, TBLOCK_IMPLICIT_INPROGRESS, TBLOCK_INPROGRESS, TBLOCK_SUBINPROGRESS}"

lemma typed_live_states:
  assumes "typed query_tops ((b, st, n, nm) # cs)" "b \<in> live_blocks"
  shows "\<forall>c \<in> set ((b, st, n, nm) # cs). fst (snd c) = TRANS_INPROGRESS"
proof -
  have "\<forall>c \<in> set cs. fst (snd c) = TRANS_INPROGRESS"
    using shaped_states[OF subset_refl typed_shaped[OF assms(1)]] .
  moreover have "st = TRANS_INPROGRESS" using typed_head[OF assms(1)] assms(2) by (auto simp: live_blocks_def)
  ultimately show ?thesis by simp
qed

context session_ids
begin

lemma exit_on_error_ends:
  assumes "ends A Q E (m s)"
  shows "ends A Q (\<lambda>_. False) (exit_on_error m s)"
proof (cases "m s")
  case (Pair out s')
  show ?thesis
  proof (cases out)
    case (Raised l e)
    then show ?thesis
      using assms Pair tolerated[of l e] by (cases l) (auto simp: exit_on_error_def ends_simps)
  qed (use assms Pair in \<open>auto simp: exit_on_error_def ends_simps\<close>)
qed

lemma BeginInternalSubTransaction_at:
  assumes a: "at ((b, st, n, nm) # cs) xs s" and t: "typed query_tops ((b, st, n, nm) # cs)" and b: "b \<in> live_blocks"
  shows "ends A (at ((TBLOCK_SUBINPROGRESS, TRANS_INPROGRESS, Suc n, nm') # (b, st, n, nm) # cs) xs) (\<lambda>_. False)
    (BeginInternalSubTransaction conf nm' s)"
proof -
  let ?c = "(b, st, n, nm) # cs"
  let ?Q = "at ((TBLOCK_SUBINPROGRESS, TRANS_INPROGRESS, Suc n, nm') # ?c) xs"
  have st: "st = TRANS_INPROGRESS" using typed_live_states[OF t b] by simp
  have t': "typed query_tops ((TBLOCK_SUBBEGIN, TRANS_DEFAULT, Suc n, nm') # ?c)"
    using t b st by (auto simp: typed_def live_blocks_def query_tops_def)
  have name: "at ((TBLOCK_SUBBEGIN, TRANS_DEFAULT, Suc n, nm') # ?c) xs (set_name nm' s')"
    if "at ((TBLOCK_SUBBEGIN, TRANS_DEFAULT, Suc n, None) # ?c) xs s'" for s'
    using that upd_at[OF that] by (auto simp: set_name_def lvl_def level_ids_def)
  have commit: "ends A ?Q (\<lambda>_. True) (steps [loop_result (CommitTransactionCommand conf), StartTransactionCommand conf] s')"
    if "at ((TBLOCK_SUBBEGIN, TRANS_DEFAULT, Suc n, nm') # ?c) xs s'" for s'
  proof -
    have "ends A ?Q (broken query_tops xs) (loop_result (CommitTransactionCommand conf) s')"
      using CommitTransactionCommand_at[OF subset_refl that t'] by (auto simp: loop_result_def)
    then show ?thesis
      unfolding ends_simps
      by (rule ends_mono) (use at_current in \<open>auto simp: StartTransactionCommand_def ends_simps\<close>)
  qed
  have push: "ends A ?Q (\<lambda>_. True) (steps [PushTransaction, upd (set_name nm'), loop_result (CommitTransactionCommand conf), StartTransactionCommand conf] s)"
    apply (subst ends_steps_Cons, rule ends_mono[OF PushTransaction_at[OF a[unfolded st]]])
     apply (subst ends_steps_Cons, simp only: ends_upd)
    using commit name st by auto
  have "blockState (current s) = b" using at_current[OF a] by simp
  then show ?thesis
    unfolding BeginInternalSubTransaction_def
    by (intro exit_on_error_ends[where E = "\<lambda>_. True"]) (use push b in \<open>auto simp: live_blocks_def\<close>)
qed

abbreviation in_sub :: "level list \<Rightarrow> nat \<Rightarrow> string option \<Rightarrow> bool \<Rightarrow> session \<Rightarrow> bool" where
  "in_sub cs n nm xs s \<equiv> \<exists>st \<in> {TRANS_INPROGRESS, TRANS_COMMIT}. at ((TBLOCK_SUBINPROGRESS, st, n, nm) # cs) xs s"

lemma Release_at:
  assumes "at ((TBLOCK_SUBINPROGRESS, TRANS_INPROGRESS, n, nm) # c # cs) xs s"
    and "\<forall>c' \<in> set (c # cs). fst (snd c') = TRANS_INPROGRESS"
  shows "ends A (at (c # cs) xs) (in_sub (c # cs) n nm xs) (ReleaseCurrentSubTransaction conf s)"
  using at_current[OF assms(1)] unfolding ReleaseCurrentSubTransaction_def
  by (simp, intro ends_mono[OF CommitSubTransaction_at[OF assms]]) auto

lemma RollbackAndRelease_at:
  assumes "in_sub (c # cs) n nm xs s"
  shows "ends A (at (c # cs) xs) (\<lambda>_. False) (RollbackAndReleaseCurrentSubTransaction conf s)"
proof -
  obtain st where a: "at ((TBLOCK_SUBINPROGRESS, st, n, nm) # c # cs) xs s" "st \<noteq> TRANS_ABORT" using assms by auto
  show ?thesis
    using at_current[OF a(1)] abort_sub_then[OF a]
    by (simp add: RollbackAndReleaseCurrentSubTransaction_def ends_steps_Cons[of _ _ _ "\<lambda>s. if _ s then _ s else _"] ends_simps)
qed

lemma ends_case:
  assumes "ends A Q E r" "\<And>s. Q s \<Longrightarrow> ends A Q' E' (m s)" "\<And>s. E s \<Longrightarrow> E' s"
  shows "ends A Q' E' (case r of (out, s) \<Rightarrow> if out = Done then m s else (out, s))"
proof (cases r)
  case (Pair out s)
  then show ?thesis using assms by (cases out) (auto simp: ends_simps)
qed

lemma ends_case':
  assumes "ends A Q E r" "\<And>s. Q s \<Longrightarrow> ends A Q' E' (m s)" "\<And>s. E s \<Longrightarrow> E' s"
  shows "ends A Q' E' (case r of (out, s) \<Rightarrow> if out \<noteq> Done then (out, s) else m s)"
proof (cases r)
  case (Pair out s)
  then show ?thesis using assms by (cases out) (auto simp: ends_simps)
qed

lemma ends_catch:
  assumes "ends A Q E r" "\<And>s. Q s \<Longrightarrow> ends A Q' E' (m s)" "\<And>e s. E s \<Longrightarrow> \<not> internal e \<Longrightarrow> ends A Q' E' (h e s)"
  shows "ends A Q' E' (case r of (out, s) \<Rightarrow> if out = Done then m s
     else case out of Raised ERROR e \<Rightarrow> h e s | _ \<Rightarrow> (out, s))"
proof (cases r)
  case (Pair out s)
  show ?thesis
  proof (cases out)
    case (Raised l e)
    then show ?thesis using assms(1,3) Pair tolerated[of l e] by (cases l) (auto simp: ends_simps)
  qed (use assms Pair in \<open>auto simp: ends_simps\<close>)
qed

lemma protected_at:
  assumes a: "at ((b, st, n, nm) # cs) xs s" and t: "typed query_tops ((b, st, n, nm) # cs)" "b \<in> live_blocks"
    and body: "\<And>s'. at ((TBLOCK_SUBINPROGRESS, TRANS_INPROGRESS, Suc n, None) # (b, st, n, nm) # cs) xs s' \<Longrightarrow>
      ends A (at ((TBLOCK_SUBINPROGRESS, TRANS_INPROGRESS, Suc n, None) # (b, st, n, nm) # cs) xs)
        (at ((TBLOCK_SUBINPROGRESS, TRANS_INPROGRESS, Suc n, None) # (b, st, n, nm) # cs) xs) (exec_actions conf body s')"
    and handler: "\<And>h s'. handler = Some h \<Longrightarrow> at ((b, st, n, nm) # cs) xs s' \<Longrightarrow>
      ends A (at ((b, st, n, nm) # cs) xs) (at ((b, st, n, nm) # cs) xs) (exec_actions conf h s')"
    and rest: "\<And>s'. at ((b, st, n, nm) # cs) xs s' \<Longrightarrow>
      ends A (at ((b, st, n, nm) # cs) xs) (at ((b, st, n, nm) # cs) xs) (exec_actions conf acts s')"
  shows "ends A (at ((b, st, n, nm) # cs) xs) (at ((b, st, n, nm) # cs) xs) (exec_actions conf (Protected body handler # acts) s)"
proof -
  let ?c = "(b, st, n, nm) # cs"
  let ?sub = "at ((TBLOCK_SUBINPROGRESS, TRANS_INPROGRESS, Suc n, None) # ?c) xs"
  have rel: "ends A (at ?c xs) (in_sub ?c (Suc n) None xs)
      (case exec_actions conf body s' of (out, s) \<Rightarrow> if out = Done then ReleaseCurrentSubTransaction conf s else (out, s))"
    if "?sub s'" for s'
    by (rule ends_case[OF body[OF that]]) (use Release_at typed_live_states[OF t] in auto)
  have catch: "ends A (at ?c xs) (at ?c xs)
      (case RollbackAndReleaseCurrentSubTransaction conf s' of (out, s) \<Rightarrow>
         if out \<noteq> Done then (out, s)
         else case handler of None \<Rightarrow> (Raised ERROR e, s)
           | Some h \<Rightarrow> (case exec_actions conf h s of (out, s) \<Rightarrow> if out = Done then exec_actions conf acts s else (out, s)))"
    if "in_sub ?c (Suc n) None xs s'" "\<not> internal e" for s' e
    by (rule ends_case'[OF RollbackAndRelease_at[OF that(1)]])
      (use that(2) handler rest in \<open>auto simp: ends_simps split: option.split intro: ends_case\<close>)
  show ?thesis
    unfolding exec_actions.simps
    by (rule ends_case'[OF BeginInternalSubTransaction_at[OF a t]]) (rule ends_catch[OF rel], use rest catch in auto)
qed

lemma exec_actions_at:
  assumes "at ((b, st, n, nm) # cs) xs s" "typed query_tops ((b, st, n, nm) # cs)" "b \<in> live_blocks"
  shows "ends A (at ((b, st, n, nm) # cs) xs) (at ((b, st, n, nm) # cs) xs) (exec_actions conf acts s)"
  using assms
proof (induction acts arbitrary: b st n nm cs s rule: measure_induct_rule[where f = "size_list size"])
  case (less acts)
  let ?c = "(b, st, n, nm) # cs"
  note a = less.prems(1) and t = less.prems(2,3)
  show ?case
  proof (cases acts)
    case Nil
    then show ?thesis using a by (simp add: ends_simps)
  next
    case (Cons act acts')
    have rest: "ends A (at ?c xs) (at ?c xs) (exec_actions conf acts' s')" if "at ?c xs s'" for s'
      using less.IH[of acts'] that t Cons by simp
    show ?thesis
    proof (cases act)
      case NeedXid
      have "ends A (at ?c xs) (at ?c xs) (GetCurrentTransactionId conf s)"
        using GetCurrentTransactionId_at[OF a] typed_live_states[OF t] by simp
      then show ?thesis unfolding Cons NeedXid exec_actions.simps by (rule ends_case) (use rest in auto)
    next
      case NeedCommandId
      have "at ?c xs (s\<lparr>currentCommandIdUsed := True\<rparr>)" using a by (auto simp: at_def I_fields ctl_def)
      then have "ends A (at ?c xs) (at ?c xs) (GetCurrentCommandId conf True s)"
        using a by (simp add: GetCurrentCommandId_def ends_simps)
      then show ?thesis unfolding Cons NeedCommandId exec_actions.simps by (rule ends_case) (use rest in auto)
    next
      case (Fail k)
      then show ?thesis using Cons a by (simp add: ends_simps)
    next
      case (Protected body handler)
      have t': "typed query_tops ((TBLOCK_SUBINPROGRESS, TRANS_INPROGRESS, Suc n, None) # ?c)"
        using t typed_live_states[OF t] by (auto simp: typed_def live_blocks_def query_tops_def)
      show ?thesis
        unfolding Cons Protected
        by (rule protected_at[OF a t])
          (use less.IH t t' rest Cons Protected in \<open>auto simp: live_blocks_def\<close>)
    qed
  qed
qed

end

section \<open>Marking the levels\<close>

definition unblocked :: "TransactionStateData \<Rightarrow> TransactionStateData" where
  "unblocked x = x\<lparr>blockState := TBLOCK_DEFAULT\<rparr>"

lemma unblocked_block [simp]: "unblocked (x\<lparr>blockState := b\<rparr>) = unblocked x"
  by (simp add: unblocked_def)

lemma unblocked_sel:
  assumes "unblocked y = unblocked x"
  shows "level_ids y = level_ids x" "state y = state x" "nestingLevel y = nestingLevel x" "xact_name y = xact_name x"
proof -
  have "f (unblocked y) = f (unblocked x)" for f :: "TransactionStateData \<Rightarrow> 'a" using assms by simp
  from this[of level_ids] show "level_ids y = level_ids x" by (simp add: unblocked_def level_ids_def)
  show "state y = state x" "nestingLevel y = nestingLevel x" "xact_name y = xact_name x"
    using arg_cong[OF assms, of state] arg_cong[OF assms, of nestingLevel] arg_cong[OF assms, of xact_name]
    by (simp_all add: unblocked_def)
qed

lemma mark_levels_unblocked: "map unblocked (snd (mark_levels fs xs)) = map unblocked xs"
  by (induction fs xs rule: mark_levels.induct) (auto split: option.splits prod.splits)

lemma level_ids_block [simp]: "level_ids (x\<lparr>blockState := b\<rparr>) = level_ids x" "level_ids (x\<lparr>chain := ch\<rparr>) = level_ids x"
  by (simp_all add: level_ids_def)

lemma typed_one: "typed T (map lvl [x]) \<longleftrightarrow> blockState x \<in> top_blocks \<and> state x = state_of (blockState x)
    \<and> nestingLevel x = (if state x = TRANS_DEFAULT then 0 else 1) \<and> xact_name x = None"
  by (auto simp: typed_def lvl_def)

lemma typed_two: "typed T (map lvl (x # y # ys)) \<longleftrightarrow> blockState y \<in> enclosing T (blockState x)
    \<and> nestingLevel x = Suc (nestingLevel y) \<and> state x = state_of (blockState x) \<and> typed T (map lvl (y # ys))"
  by (auto simp: typed_def lvl_def)

lemma mark_commit:
  assumes "typed {} (map lvl (x # xs))" "blockState x \<in> {TBLOCK_SUBINPROGRESS, TBLOCK_INPROGRESS}"
  shows "\<exists>y ys. mark_levels (commit_marks (length (x # xs))) (x # xs) = (None, y # ys) \<and> typed {} (map lvl (y # ys))
    \<and> blockState y = (if xs = [] then TBLOCK_END else TBLOCK_SUBCOMMIT) \<and> blockState (last (y # ys)) = TBLOCK_END"
  using assms
proof (induction xs arbitrary: x)
  case Nil
  then show ?case by (auto simp: commit_marks_def typed_one top_blocks_def) (auto simp: typed_def lvl_def top_blocks_def)
next
  case (Cons z zs)
  have x: "blockState x = TBLOCK_SUBINPROGRESS" "blockState z \<in> {TBLOCK_SUBINPROGRESS, TBLOCK_INPROGRESS}"
    "typed {} (map lvl (z # zs))" "nestingLevel x = Suc (nestingLevel z)" "state x = TRANS_INPROGRESS"
    using Cons.prems unfolding typed_two by auto
  obtain y ys where y: "mark_levels (commit_marks (length (z # zs))) (z # zs) = (None, y # ys)" "typed {} (map lvl (y # ys))"
    "blockState y = (if zs = [] then TBLOCK_END else TBLOCK_SUBCOMMIT)" "blockState (last (y # ys)) = TBLOCK_END"
    using Cons.IH[OF x(3,2)] by blast
  have n: "nestingLevel y = nestingLevel z"
    using mark_levels_unblocked[of "commit_marks (length (z # zs))" "z # zs"] unfolding y(1) by (auto dest: unblocked_sel)
  have m: "commit_marks (length (x # z # zs)) = (\<lambda>b. if b = TBLOCK_SUBINPROGRESS then Some TBLOCK_SUBCOMMIT else None) # commit_marks (length (z # zs))"
    by (simp add: commit_marks_def)
  have "typed {} (map lvl (x\<lparr>blockState := TBLOCK_SUBCOMMIT\<rparr> # y # ys))"
    unfolding typed_two using y(2,3) x n by simp
  then show ?case unfolding m using y x(1) by simp
qed

lemma mark_abort_all:
  assumes "typed {} (map lvl (x # xs))" "blockState x \<in> {TBLOCK_SUBINPROGRESS, TBLOCK_INPROGRESS, TBLOCK_SUBABORT}"
  shows "\<exists>y ys. mark_levels (abort_marks (length (x # xs))) (x # xs) = (None, y # ys) \<and> typed {} (map lvl (y # ys))
    \<and> blockState y = (if xs = [] then TBLOCK_ABORT_PENDING
        else if blockState x = TBLOCK_SUBABORT then TBLOCK_SUBABORT_END else TBLOCK_SUBABORT_PENDING)"
  using assms
proof (induction xs arbitrary: x)
  case Nil
  then show ?case
    by (auto simp: abort_marks_def mark_abort_def typed_one top_blocks_def) (auto simp: typed_def lvl_def top_blocks_def)
next
  case (Cons z zs)
  have x: "blockState x = TBLOCK_SUBINPROGRESS \<or> blockState x = TBLOCK_SUBABORT" "blockState z \<in> {TBLOCK_SUBINPROGRESS, TBLOCK_INPROGRESS}"
    "typed {} (map lvl (z # zs))" "nestingLevel x = Suc (nestingLevel z)" "state x = state_of (blockState x)"
    using Cons.prems unfolding typed_two by auto
  obtain y ys where y: "mark_levels (abort_marks (length (z # zs))) (z # zs) = (None, y # ys)" "typed {} (map lvl (y # ys))"
    "blockState y = (if zs = [] then TBLOCK_ABORT_PENDING
        else if blockState z = TBLOCK_SUBABORT then TBLOCK_SUBABORT_END else TBLOCK_SUBABORT_PENDING)"
    using Cons.IH[OF x(3)] x(2) by blast
  have n: "nestingLevel y = nestingLevel z"
    using mark_levels_unblocked[of "abort_marks (length (z # zs))" "z # zs"] unfolding y(1) by (auto dest: unblocked_sel)
  let ?b = "if blockState x = TBLOCK_SUBABORT then TBLOCK_SUBABORT_END else TBLOCK_SUBABORT_PENDING"
  have m: "abort_marks (length (x # z # zs)) = mark_abort TBLOCK_SUBINPROGRESS TBLOCK_SUBABORT_PENDING TBLOCK_SUBABORT TBLOCK_SUBABORT_END # abort_marks (length (z # zs))"
    by (simp add: abort_marks_def)
  have "typed {} (map lvl (x\<lparr>blockState := ?b\<rparr> # y # ys))"
    unfolding typed_two using y(2,3) x n by auto
  then show ?case unfolding m using y x(1) by (auto simp: mark_abort_def)
qed

lemma savepoint_index_Some:
  assumes "savepoint_index nm xs = Some i"
  shows "i < length xs \<and> xact_name (xs ! i) = Some nm \<and> (\<forall>j < i. xact_name (xs ! j) \<noteq> Some nm)"
  using assms
  by (induction nm xs arbitrary: i rule: savepoint_index.induct) (auto simp: nth_Cons less_Suc_eq_0_disj split: if_splits nat.split)

lemma typed_top_name:
  assumes "typed T (map lvl xs)" "xact_name (xs ! i) = Some nm" "i < length xs"
  shows "Suc i < length xs"
  using assms
proof (induction xs arbitrary: i)
  case (Cons x xs)
  show ?case
  proof (cases xs)
    case Nil
    then show ?thesis using Cons.prems unfolding Nil typed_one by simp
  next
    case C: (Cons y ys)
    then have t: "typed T (map lvl xs)" using Cons.prems(1) unfolding C typed_two by simp
    show ?thesis using Cons.IH[OF t, of "i - 1"] Cons.prems(2,3) C by (cases i) auto
  qed
qed simp

definition rollback_marks :: "nat \<Rightarrow> (TBlockState \<Rightarrow> TBlockState option) list" where
  "rollback_marks i =
     replicate i (mark_abort TBLOCK_SUBINPROGRESS TBLOCK_SUBABORT_PENDING TBLOCK_SUBABORT TBLOCK_SUBABORT_END)
     @ [mark_abort TBLOCK_SUBINPROGRESS TBLOCK_SUBRESTART TBLOCK_SUBABORT TBLOCK_SUBABORT_RESTART]"

lemma mark_rollback:
  assumes "typed {} (map lvl (x # xs))" "blockState x \<in> {TBLOCK_SUBINPROGRESS, TBLOCK_SUBABORT}" "i < length xs"
  shows "\<exists>y ys. mark_levels (rollback_marks i) (x # xs) = (None, y # ys) \<and> typed {} (map lvl (y # ys))
    \<and> blockState y = (if i = 0 then if blockState x = TBLOCK_SUBABORT then TBLOCK_SUBABORT_RESTART else TBLOCK_SUBRESTART
        else if blockState x = TBLOCK_SUBABORT then TBLOCK_SUBABORT_END else TBLOCK_SUBABORT_PENDING)"
  using assms
proof (induction xs arbitrary: x i)
  case (Cons z zs)
  have x: "blockState x = TBLOCK_SUBINPROGRESS \<or> blockState x = TBLOCK_SUBABORT" "blockState z \<in> {TBLOCK_SUBINPROGRESS, TBLOCK_INPROGRESS}"
    "typed {} (map lvl (z # zs))" "nestingLevel x = Suc (nestingLevel z)" "state x = state_of (blockState x)"
    using Cons.prems unfolding typed_two by auto
  show ?case
  proof (cases i)
    case 0
    let ?b = "if blockState x = TBLOCK_SUBABORT then TBLOCK_SUBABORT_RESTART else TBLOCK_SUBRESTART"
    have "typed {} (map lvl (x\<lparr>blockState := ?b\<rparr> # z # zs))" unfolding typed_two using x by auto
    then show ?thesis using 0 x(1) by (auto simp: rollback_marks_def mark_abort_def)
  next
    case (Suc j)
    have "zs \<noteq> []" using Suc Cons.prems(3) by auto
    then have "blockState z = TBLOCK_SUBINPROGRESS"
      using x(2,3) by (cases zs) (auto simp: typed_def lvl_def)
    then obtain y ys where y: "mark_levels (rollback_marks j) (z # zs) = (None, y # ys)" "typed {} (map lvl (y # ys))"
      "blockState y = (if j = 0 then TBLOCK_SUBRESTART else TBLOCK_SUBABORT_PENDING)"
      using Cons.IH[OF x(3), of j] Suc Cons.prems(3) by auto
    have n: "nestingLevel y = nestingLevel z"
      using mark_levels_unblocked[of "rollback_marks j" "z # zs"] unfolding y(1) by (auto dest: unblocked_sel)
    have m: "rollback_marks i = mark_abort TBLOCK_SUBINPROGRESS TBLOCK_SUBABORT_PENDING TBLOCK_SUBABORT TBLOCK_SUBABORT_END # rollback_marks j"
      by (simp add: rollback_marks_def Suc)
    let ?b = "if blockState x = TBLOCK_SUBABORT then TBLOCK_SUBABORT_END else TBLOCK_SUBABORT_PENDING"
    have "typed {} (map lvl (x\<lparr>blockState := ?b\<rparr> # y # ys))" unfolding typed_two using y(2,3) x n by auto
    then show ?thesis unfolding m using y x(1) Suc by (auto simp: mark_abort_def)
  qed
qed simp

lemma mark_release:
  assumes "typed {} (map lvl (x # xs))" "blockState x = TBLOCK_SUBINPROGRESS" "i < length xs"
  shows "typed {} (map lvl (map (\<lambda>x. x\<lparr>blockState := TBLOCK_SUBRELEASE\<rparr>) (take (Suc i) (x # xs)) @ drop (Suc i) (x # xs)))"
  using assms
proof (induction xs arbitrary: x i)
  case (Cons z zs)
  have x: "blockState z \<in> {TBLOCK_SUBINPROGRESS, TBLOCK_INPROGRESS}" "typed {} (map lvl (z # zs))"
    "nestingLevel x = Suc (nestingLevel z)" "state x = TRANS_INPROGRESS"
    using Cons.prems(1,2) unfolding typed_two by auto
  show ?case
  proof (cases i)
    case 0
    have "typed {} (map lvl (x\<lparr>blockState := TBLOCK_SUBRELEASE\<rparr> # z # zs))" unfolding typed_two using x by auto
    then show ?thesis using 0 by simp
  next
    case (Suc j)
    have "zs \<noteq> []" using Suc Cons.prems(3) by auto
    then have z: "blockState z = TBLOCK_SUBINPROGRESS" using x(1,2) by (cases zs) (auto simp: typed_def lvl_def)
    let ?zs = "map (\<lambda>x. x\<lparr>blockState := TBLOCK_SUBRELEASE\<rparr>) (take j zs) @ drop j zs"
    have "typed {} (map lvl (z\<lparr>blockState := TBLOCK_SUBRELEASE\<rparr> # ?zs))"
      using Cons.IH[OF x(2) z, of j] Suc Cons.prems(3) by simp
    then have "typed {} (map lvl (x\<lparr>blockState := TBLOCK_SUBRELEASE\<rparr> # z\<lparr>blockState := TBLOCK_SUBRELEASE\<rparr> # ?zs))"
      unfolding typed_two using x by simp
    then show ?thesis using Suc by simp
  qed
qed simp

lemma typed_prepare:
  assumes "typed {} (map lvl (x # xs))" "blockState (last (x # xs)) = TBLOCK_END"
  shows "typed {} (map lvl ((x # xs)[length xs := (last (x # xs))\<lparr>blockState := TBLOCK_PREPARE\<rparr>]))"
  using assms
proof (induction xs arbitrary: x)
  case Nil
  then show ?case by (auto simp: typed_def lvl_def top_blocks_def)
next
  case (Cons z zs)
  have x: "typed {} (map lvl (z # zs))" "blockState z \<in> enclosing {} (blockState x)" using Cons.prems(1) unfolding typed_two by auto
  note t = Cons.IH[OF x(1)]
  show ?case
  proof (cases zs)
    case Nil
    then have "blockState x = TBLOCK_SUBCOMMIT" using x(2) Cons.prems(2) by (cases "blockState x") auto
    then show ?thesis using t Cons.prems Nil by (auto simp: typed_def lvl_def)
  next
    case (Cons w ws)
    then show ?thesis using t Cons.prems by (auto simp: typed_def lvl_def)
  qed
qed

definition ready_blocks :: "TBlockState set" where
  "ready_blocks = live_blocks \<union> {TBLOCK_ABORT, TBLOCK_SUBABORT}"

lemma typed_mono: "typed {} cs \<Longrightarrow> typed T cs"
proof -
  have "enclosing {} b \<subseteq> enclosing T b" for b by (cases b) auto
  then have "shaped {} cs \<Longrightarrow> shaped T cs"
    by (induction "{} :: TBlockState set" cs rule: shaped.induct) auto
  then show "typed {} cs \<Longrightarrow> typed T cs" by (simp add: typed_def)
qed

context session_ids
begin

lemma mark_stack_at:
  assumes "at cs xs s" "mark_levels fs (xstack s) = (None, ys)"
  shows "ends A (at (map lvl ys) xs) E (mark_stack fs s)"
proof -
  have "map level_ids ys = map level_ids (xstack s)"
    using mark_levels_unblocked[of fs "xstack s"] assms(2)
    by (auto simp: list_eq_iff_nth_eq dest: map_eq_imp_length_eq intro: unblocked_sel)
  then have "I (s\<lparr>xstack := ys\<rparr>)" using assms(1) by (auto simp: at_def id_state_def intro: frame)
  then show ?thesis using assms by (auto simp: mark_stack_def ends_simps at_def ctl_def)
qed

lemma set_chain_at:
  assumes "at cs xs s"
  shows "ends A (at cs xs) E (set_chain ch s)"
proof -
  let ?s = "upd_top (\<lambda>x. x\<lparr>chain := ch\<rparr>) s"
  have "id_state ?s = id_state s" by (simp add: id_state_def upd_top_def map_update map_update_same)
  moreover have "ctl ?s = ctl s" "xact_started ?s = xact_started s"
    by (simp_all add: upd_top_def ctl_upd_level)
  ultimately show ?thesis
    using assms frame[of s ?s] by (auto simp: at_def set_chain_def ends_simps)
qed

lemma typed_ctlE:
  assumes "at cs xs s" "typed T cs"
  obtains x ys where "xstack s = x # ys" "typed T (map lvl (x # ys))" "cs = map lvl (x # ys)" "blockState x = fst (hd cs)"
    "current s = x"
proof -
  have c: "cs = map lvl (xstack s)" using assms(1) by (simp add: at_def ctl_def)
  then obtain x ys where x: "xstack s = x # ys" using assms(2) by (cases "xstack s") (auto simp: typed_def)
  show thesis by (rule that[OF x]) (use assms(2) c x in \<open>simp_all add: lvl_def current_def\<close>)
qed

abbreviation marked :: "bool \<Rightarrow> session \<Rightarrow> bool" where
  "marked xs s \<equiv> \<exists>cs. at cs xs s \<and> typed {} cs \<and> fst (hd cs) \<noteq> TBLOCK_DEFAULT"

lemma chain_after:
  assumes "ends A (marked xs) E (m s)"
  shows "ends A (marked xs) E (steps [m, set_chain ch] s)"
  unfolding ends_steps_Cons ends_steps_Nil
  by (rule ends_mono[OF assms]) (use set_chain_at in \<open>blast intro: ends_mono\<close>)+

lemma BeginTransactionBlock_at:
  assumes "at cs xs s" "typed {} cs" "fst (hd cs) \<in> live_blocks"
  shows "ends A (marked xs) E (BeginTransactionBlock s)"
proof -
  obtain b st n nm ds where cs: "cs = (b, st, n, nm) # ds" using assms(2) by (cases cs) (auto simp: typed_def)
  note a = assms(1)[unfolded cs]
  have cur: "blockState (current s) = b" using at_current[OF a] by simp
  show ?thesis
  proof (cases "b \<in> {TBLOCK_STARTED, TBLOCK_IMPLICIT_INPROGRESS}")
    case True
    then have "ds = []" "typed {} [(TBLOCK_BEGIN, st, n, nm)]"
      using assms(2) cs shaped_top[of "{}" b st n nm ds] by (auto simp: typed_def top_blocks_def)
    then show ?thesis
      using True cur set_block_at[OF a, of TBLOCK_BEGIN] by (auto simp: BeginTransactionBlock_def ends_simps)
  next
    case False
    then have "BeginTransactionBlock s = warn_if (\<lambda>_. True) (\<lambda>_. AlreadyInTransaction) s"
      using assms(3) cs cur by (auto simp: BeginTransactionBlock_def live_blocks_def)
    moreover have "ends A (marked xs) E (warn_if (\<lambda>_. True) (\<lambda>_. AlreadyInTransaction) s)"
    proof (rule ends_warn_if)
      have "fst (hd cs) \<noteq> TBLOCK_DEFAULT" using assms(3) by (auto simp: live_blocks_def)
      then show "marked xs (s\<lparr>warnings := ws\<rparr>)" for ws using at_warn[OF assms(1)] assms(2) by blast
    qed
    ultimately show ?thesis by simp
  qed
qed

lemma mark_at:
  assumes "at cs xs s" "xstack s = x # ys" "\<exists>z zs. mark_levels fs (x # ys) = (None, z # zs) \<and> typed {} (map lvl (z # zs)) \<and> blockState z \<noteq> TBLOCK_DEFAULT"
  shows "ends A (marked xs) E (mark_stack fs s)"
proof -
  obtain z zs where z: "mark_levels fs (xstack s) = (None, z # zs)" "typed {} (map lvl (z # zs))" "blockState z \<noteq> TBLOCK_DEFAULT"
    using assms(2,3) by auto
  then show ?thesis
    by (intro ends_mono[OF mark_stack_at[OF assms(1) z(1)]]) (auto simp: lvl_def)
qed

lemma set_top_block_at:
  assumes "at [(b, st, n, nm)] xs s" "typed {} [(b, st, n, nm)]" "b' \<in> top_blocks" "b' \<noteq> TBLOCK_DEFAULT" "state_of b' = state_of b"
  shows "ends A (marked xs) E (set_block b' s)"
  using set_block_at[OF assms(1), of b'] assms(2-) by (auto simp: ends_simps typed_def)

lemma require_block_at:
  assumes "at cs xs s" "typed {} cs" "\<And>s'. at cs xs s' \<Longrightarrow> ends A (marked xs) (at cs xs) (steps ms s')"
  shows "ends A (marked xs) (at cs xs) (steps (require_block_for_chain nm ch # ms) s)"
proof (cases ch)
  case True
  then show ?thesis using assms(1) by (simp add: require_block_for_chain_def ends_simps)
next
  case False
  then show ?thesis
    using assms(3)[OF at_warn[OF assms(1)]] by (simp add: require_block_for_chain_def ends_steps_Cons ends_warn_if)
qed

end

context session_ids
begin

lemma ready_cases:
  assumes "at cs xs s" "typed {} cs" "fst (hd cs) \<in> ready_blocks"
  obtains b st n nm where "cs = [(b, st, n, nm)]" "at [(b, st, n, nm)] xs s" "typed {} [(b, st, n, nm)]" "blockState (current s) = b"
      "b \<in> {TBLOCK_STARTED, TBLOCK_IMPLICIT_INPROGRESS, TBLOCK_INPROGRESS, TBLOCK_ABORT}"
    | b x ys where "blockState (current s) = b" "b \<in> {TBLOCK_SUBINPROGRESS, TBLOCK_SUBABORT}" "xstack s = x # ys" "ys \<noteq> []"
      "typed {} (map lvl (x # ys))" "blockState x = b" "fst (hd cs) = b"
proof -
  obtain b st n nm ds where cs: "cs = (b, st, n, nm) # ds" using assms(2) by (cases cs) (auto simp: typed_def)
  have cur: "blockState (current s) = b" using at_current assms(1) cs by blast
  show thesis
  proof (cases "b \<in> top_blocks")
    case True
    then have "ds = []" using shaped_top assms(2) cs by (auto simp: typed_def)
    moreover have "b \<in> {TBLOCK_STARTED, TBLOCK_IMPLICIT_INPROGRESS, TBLOCK_INPROGRESS, TBLOCK_ABORT}"
      using True assms(3) cs by (auto simp: ready_blocks_def live_blocks_def top_blocks_def)
    ultimately show thesis using that(1) cs assms(1,2) cur by blast
  next
    case False
    then have b: "b \<in> {TBLOCK_SUBINPROGRESS, TBLOCK_SUBABORT}"
      using assms(3) cs by (auto simp: ready_blocks_def live_blocks_def top_blocks_def)
    obtain x ys where x: "xstack s = x # ys" "typed {} (map lvl (x # ys))" "cs = map lvl (x # ys)" "blockState x = fst (hd cs)"
      using assms(1,2) by (rule typed_ctlE)
    have "ds \<noteq> []" using False shaped_sub typed_shaped[OF assms(2)] cs by blast
    then have "ys \<noteq> []" using x(3) cs by auto
    moreover have "blockState x = b" "fst (hd cs) = b" using x(4) cs by simp_all
    ultimately show thesis using that(2) b x(1,2) cur by blast
  qed
qed

lemma EndTransactionBlock_at:
  assumes "at cs xs s" "typed {} cs" "fst (hd cs) \<in> ready_blocks"
  shows "ends A (marked xs) (at cs xs) (snd (EndTransactionBlock ch s))"
  using assms
proof (cases rule: ready_cases)
  case (1 b st n nm)
  have chain: "ends A (marked xs) (at cs xs) (steps [set_block b', set_chain ch] s')"
    if "at cs xs s'" "b' \<in> top_blocks" "b' \<noteq> TBLOCK_DEFAULT" "state_of b' = state_of b" for b' s'
    by (rule chain_after, rule set_top_block_at) (use that 1 in auto)
  have b0: "marked xs s'" if "at cs xs s'" for s' using that assms(2) 1 by auto
  show ?thesis
  proof (cases "b = TBLOCK_STARTED")
    case True
    have "ends A (marked xs) (at cs xs) (steps [set_chain ch] s')" if "at cs xs s'" for s'
      by (subst ends_steps_Cons, rule ends_mono[OF set_chain_at[OF that]]) (use b0 in \<open>auto simp only: ends_steps_Nil\<close>)
    then show ?thesis
      using 1 True require_block_at[OF assms(1,2), of "[set_chain ch]"] by (simp add: EndTransactionBlock_def)
  next
    case False
    then show ?thesis
      using 1 chain[of _ TBLOCK_END] chain[of s TBLOCK_ABORT_END]
        require_block_at[OF assms(1,2), of "[set_block TBLOCK_END, set_chain ch]" "''COMMIT AND CHAIN''" ch]
      by (auto simp: EndTransactionBlock_def top_blocks_def)
  qed
next
  case (2 b x ys)
  have "ends A (marked xs) (at cs xs) (steps [mark_stack fs, set_chain ch] s)"
    if "fs = (if b = TBLOCK_SUBINPROGRESS then commit_marks (length (x # ys)) else abort_marks (length (x # ys)))" for fs
  proof (rule chain_after, rule mark_at[OF assms(1) 2(3)])
    show "\<exists>z zs. mark_levels fs (x # ys) = (None, z # zs) \<and> typed {} (map lvl (z # zs)) \<and> blockState z \<noteq> TBLOCK_DEFAULT"
      using mark_commit[OF 2(5)] mark_abort_all[OF 2(5)] 2(2,6) that by (auto split: if_splits)
  qed
  then show ?thesis using 2 by (auto simp: EndTransactionBlock_def)
qed

lemma PrepareTransactionBlock_at:
  assumes "at cs xs s" "typed {} cs" "fst (hd cs) \<in> ready_blocks"
  shows "ends A (marked xs) (at cs xs) (snd (PrepareTransactionBlock gid s))"
proof -
  obtain res out s' where e: "EndTransactionBlock False s = (res, out, s')" by (metis prod_cases3)
  have r: "ends A (marked xs) (at cs xs) (out, s')" using EndTransactionBlock_at[OF assms, of False] e by simp
  let ?t = "upd_top (\<lambda>x. x\<lparr>blockState := TBLOCK_PREPARE\<rparr>) (s'\<lparr>prepareGID := Some gid\<rparr>)"
  have "marked xs ?t" if o: "out = Done" and top: "blockState (top_state s') = TBLOCK_END"
  proof -
    obtain cs' where m: "at cs' xs s'" "typed {} cs'" "fst (hd cs') \<noteq> TBLOCK_DEFAULT" using r o by (auto simp: ends_simps)
    obtain x ys where x: "xstack s' = x # ys" "typed {} (map lvl (x # ys))" "cs' = map lvl (x # ys)"
      using m(1,2) by (rule typed_ctlE)
    have l: "blockState (last (x # ys)) = TBLOCK_END" "(x # ys) ! length ys = last (x # ys)"
      using top x(1) by (auto simp: top_state_def last_conv_nth)
    have t: "xstack ?t = (x # ys)[length ys := (last (x # ys))\<lparr>blockState := TBLOCK_PREPARE\<rparr>]"
      using x(1) l(2) by (simp add: upd_top_def)
    have "id_state ?t = id_state s'"
      by (simp add: id_state_def upd_top_def map_update map_update_same)
    then have "I ?t" using m(1) frame[of s' ?t] by (auto simp: at_def)
    moreover have "typed {} (ctl ?t)" unfolding ctl_def t by (rule typed_prepare[OF x(2) l(1)])
    moreover have "fst (hd (ctl ?t)) \<noteq> TBLOCK_DEFAULT"
      using m(3) x(3) unfolding ctl_def t by (cases ys) (auto simp: lvl_def)
    ultimately show ?thesis using m(1) by (auto simp: at_def upd_top_def)
  qed
  then show ?thesis using r e by (auto simp: PrepareTransactionBlock_def ends_simps)
qed

lemma UserAbortTransactionBlock_at:
  assumes "at cs xs s" "typed {} cs" "fst (hd cs) \<in> ready_blocks"
  shows "ends A (marked xs) (at cs xs) (UserAbortTransactionBlock ch s)"
  using assms
proof (cases rule: ready_cases)
  case (1 b st n nm)
  have chain: "ends A (marked xs) (at cs xs) (steps [set_block b', set_chain ch] s')"
    if "at cs xs s'" "b' \<in> top_blocks" "b' \<noteq> TBLOCK_DEFAULT" "state_of b' = state_of b" for b' s'
    by (rule chain_after, rule set_top_block_at) (use that 1 in auto)
  then show ?thesis
    using 1 chain[of _ TBLOCK_ABORT_PENDING] chain[of s TBLOCK_ABORT_END]
      require_block_at[OF assms(1,2), of "[set_block TBLOCK_ABORT_PENDING, set_chain ch]" "''ROLLBACK AND CHAIN''" ch]
    by (auto simp: UserAbortTransactionBlock_def top_blocks_def)
next
  case (2 b x ys)
  have "ends A (marked xs) (at cs xs) (steps [mark_stack (abort_marks (length (x # ys))), set_chain ch] s)"
    by (rule chain_after, rule mark_at[OF assms(1) 2(3)])
      (use mark_abort_all[OF 2(5)] 2(2,6) in \<open>auto split: if_splits\<close>)
  then show ?thesis using 2 by (auto simp: UserAbortTransactionBlock_def)
qed

lemma find_savepoint_at:
  assumes "find_savepoint nm s = Inr i" "xstack s = x # ys" "typed T (map lvl (x # ys))"
  shows "i < length ys"
proof -
  have "savepoint_index nm (x # ys) = Some i" using assms(1,2) by (auto simp: find_savepoint_def split: option.splits if_splits)
  from savepoint_index_Some[OF this] typed_top_name[OF assms(3)] show ?thesis by fastforce
qed

lemma find_savepoint_error: "find_savepoint nm s = Inl e \<Longrightarrow> \<not> internal e"
  by (auto simp: find_savepoint_def split: option.splits if_splits)

lemma Check_then:
  assumes "at cs xs s" "ends A (marked xs) (at cs xs) (m s)"
  shows "ends A (marked xs) (at cs xs) (steps [CheckTransactionBlock True True nm, m] s)"
  using assms by (simp add: ends_simps CheckTransactionBlock_def)

lemma Check_requires: "blockState (current s) \<in> {TBLOCK_DEFAULT, TBLOCK_STARTED} \<Longrightarrow> nestingLevel (current s) < 2 \<Longrightarrow>
    CheckTransactionBlock True True nm s = (Raised ERROR (RequiresTransactionBlock nm), s)"
  by (auto simp: CheckTransactionBlock_def IsTransactionBlock_def IsSubTransaction_def)

lemma savepoint_started:
  assumes "at [(TBLOCK_STARTED, st, n, nm)] xs s" "typed {} [(TBLOCK_STARTED, st, n, nm)]"
  shows "ends A (marked xs) (at [(TBLOCK_STARTED, st, n, nm)] xs) (steps [CheckTransactionBlock True True nm', m] s)"
proof -
  have "n = 1" using assms(2) by (auto simp: typed_def)
  then have "nestingLevel (current s) = 1" using assms(1) by (auto elim!: atD simp: current_def lvl_def)
  then show ?thesis using at_current[OF assms(1)] assms(1) by (simp add: ends_simps Check_requires)
qed

lemma SavepointStmt_at:
  assumes "at cs xs s" "typed {} cs" "fst (hd cs) \<in> live_blocks"
  shows "ends A (marked xs) (at cs xs) (ProcessUtility conf (SavepointStmt nm) s)"
proof -
  have "fst (hd cs) \<in> ready_blocks" using assms(3) by (simp add: ready_blocks_def)
  note r = assms(1,2) this
  have def: "ends A (marked xs) (at cs xs) (DefineSavepoint conf (Some nm) s)"
    if c: "cs = (b, TRANS_INPROGRESS, n, nm') # ds" and b: "b \<in> {TBLOCK_SUBINPROGRESS, TBLOCK_INPROGRESS}" for b n nm' ds
  proof -
    have "typed {} ((TBLOCK_SUBBEGIN, TRANS_DEFAULT, Suc n, Some nm) # cs)" using assms(2) c b by (auto simp: typed_def)
    then show ?thesis
      using DefineSavepoint_at[OF assms(1)[unfolded c] b, of "Some nm"] unfolding c by (auto elim!: ends_mono)
  qed
  obtain b st n nm' ds where cs: "cs = (b, st, n, nm') # ds" using assms(2) by (cases cs) (auto simp: typed_def)
  have st: "st = TRANS_INPROGRESS" using typed_live_states[OF typed_mono[of "(b, st, n, nm') # ds"]] assms(2,3) cs by auto
  consider "b \<in> {TBLOCK_SUBINPROGRESS, TBLOCK_INPROGRESS}" | "b = TBLOCK_STARTED" | "b = TBLOCK_IMPLICIT_INPROGRESS"
    using assms(3) cs by (auto simp: live_blocks_def)
  then show ?thesis
  proof cases
    case 1
    then show ?thesis using Check_then[OF assms(1), of "DefineSavepoint conf (Some nm)"] def cs st by simp
  next
    case 2
    then have "ds = []" using assms(2) cs shaped_top by (auto simp: typed_def top_blocks_def)
    then show ?thesis using savepoint_started[of st n nm' xs s] assms(1,2) cs 2 by simp
  next
    case 3
    then have "ends A (marked xs) (at cs xs) (DefineSavepoint conf (Some nm) s)"
      using at_current[OF assms(1)[unfolded cs]] assms(1) by (simp add: DefineSavepoint_def ends_simps)
    then show ?thesis using Check_then[OF assms(1), of "DefineSavepoint conf (Some nm)"] by simp
  qed
qed

lemma ReleaseStmt_at:
  assumes "at cs xs s" "typed {} cs" "fst (hd cs) \<in> live_blocks"
  shows "ends A (marked xs) (at cs xs) (ProcessUtility conf (ReleaseStmt nm) s)"
proof -
  have "fst (hd cs) \<in> ready_blocks" using assms(3) by (simp add: ready_blocks_def)
  with assms(1,2) show ?thesis
  proof (cases rule: ready_cases)
    case (1 b st n nm')
    have "b \<noteq> TBLOCK_ABORT" using 1(1) assms(3) by (auto simp: live_blocks_def)
    then have "b \<noteq> TBLOCK_STARTED \<Longrightarrow> ends A (marked xs) (at cs xs) (ReleaseSavepoint conf nm s)"
      using 1 assms(1) by (auto simp: ReleaseSavepoint_def ends_simps)
    then show ?thesis
      using savepoint_started[of st n nm' xs s] 1 Check_then[OF assms(1), of "ReleaseSavepoint conf nm"]
      by (cases "b = TBLOCK_STARTED") auto
  next
    case (2 b x ys)
    have b: "b = TBLOCK_SUBINPROGRESS" using 2(2,7) assms(3) by (auto simp: live_blocks_def)
    let ?ys = "\<lambda>i. map (\<lambda>x. x\<lparr>blockState := TBLOCK_SUBRELEASE\<rparr>) (take (Suc i) (x # ys)) @ drop (Suc i) (x # ys)"
    have "marked xs (s\<lparr>xstack := ?ys i\<rparr>)" if "find_savepoint nm s = Inr i" for i
    proof -
      have "i < length ys" by (rule find_savepoint_at[OF that 2(3,5)])
      then have "typed {} (map lvl (?ys i))" using mark_release[OF 2(5)] 2(6) b by blast
      moreover have "map level_ids (?ys i) = map level_ids (x # ys)"
        by (simp add: take_map[symmetric] drop_map[symmetric] o_def)
      then have "I (s\<lparr>xstack := ?ys i\<rparr>)" using assms(1) 2(3) frame[of s "s\<lparr>xstack := ?ys i\<rparr>"] by (auto simp: at_def id_state_def)
      moreover have "fst (hd (map lvl (?ys i))) \<noteq> TBLOCK_DEFAULT" by (simp add: lvl_def)
      ultimately show ?thesis using assms(1) by (auto simp: at_def ctl_def simp del: map_append take_Suc_Cons drop_Suc_Cons)
    qed
    then have "ends A (marked xs) (at cs xs) (ReleaseSavepoint conf nm s)"
      using 2 b assms(1) find_savepoint_error[of nm s]
      by (auto simp: ReleaseSavepoint_def ends_simps split: sum.split simp del: take_Suc_Cons drop_Suc_Cons)
    then show ?thesis using Check_then[OF assms(1), of "ReleaseSavepoint conf nm"] by simp
  qed
qed

lemma RollbackToStmt_at:
  assumes "at cs xs s" "typed {} cs" "fst (hd cs) \<in> ready_blocks"
  shows "ends A (marked xs) (at cs xs) (ProcessUtility conf (RollbackToStmt nm) s)"
  using assms
proof (cases rule: ready_cases)
  case (1 b st n nm')
  have "b \<noteq> TBLOCK_STARTED \<Longrightarrow> ends A (marked xs) (at cs xs) (RollbackToSavepoint conf nm s)"
    using 1 assms(1) by (auto simp: RollbackToSavepoint_def ends_simps)
  then show ?thesis
    using savepoint_started[of st n nm' xs s] 1 Check_then[OF assms(1), of "RollbackToSavepoint conf nm"]
    by (cases "b = TBLOCK_STARTED") auto
next
  case (2 b x ys)
  have "ends A (marked xs) (at cs xs) (mark_stack (rollback_marks i) s)" if "find_savepoint nm s = Inr i" for i
    by (rule mark_at[OF assms(1) 2(3)])
      (use mark_rollback[OF 2(5), of i] find_savepoint_at[OF that 2(3,5)] 2(2,6) in \<open>auto split: if_splits\<close>)
  then have "ends A (marked xs) (at cs xs) (RollbackToSavepoint conf nm s)"
    using 2 assms(1) find_savepoint_error[of nm s]
    by (auto simp: RollbackToSavepoint_def rollback_marks_def[symmetric] ends_simps split: sum.split)
  then show ?thesis using Check_then[OF assms(1), of "RollbackToSavepoint conf nm"] by simp
qed

lemma Query_at:
  assumes "at cs xs s" "typed {} cs" "fst (hd cs) \<in> live_blocks"
  shows "ends A (marked xs) (at cs xs) (exec_actions conf acts s)"
proof -
  obtain b st n nm ds where cs: "cs = (b, st, n, nm) # ds" using assms(2) by (cases cs) (auto simp: typed_def)
  have "fst (hd cs) \<noteq> TBLOCK_DEFAULT" using assms(3) by (auto simp: live_blocks_def)
  then show ?thesis
    using exec_actions_at[of b st n nm ds xs s acts] typed_mono[OF assms(2)] assms cs by (auto elim!: ends_mono)
qed

lemma ProcessUtility_at:
  assumes "at cs xs s" "typed {} cs" "fst (hd cs) \<in> ready_blocks"
    and "fst (hd cs) \<in> live_blocks \<or> IsTransactionExitStmt stm"
  shows "ends A (marked xs) (at cs xs) (ProcessUtility conf stm s)"
proof (cases stm)
  case (TopLevelStmt nm acts)
  then have l: "fst (hd cs) \<in> live_blocks" using assms(4) by simp
  have "at cs xs (s\<lparr>MyXactFlags := fl\<rparr>)" for fl using assms(1) by (auto simp: at_def I_fields ctl_def)
  then have "ends A (at cs xs) (at cs xs) (PreventInTransactionBlock True nm s)"
    using assms(1) by (auto simp: PreventInTransactionBlock_def ends_simps IsTransactionBlock_def)
  then show ?thesis
    unfolding TopLevelStmt ProcessUtility.simps ends_steps_Cons ends_steps_Nil
    by (rule ends_mono) (use Query_at[OF _ assms(2) l] in auto)
qed (use assms BeginTransactionBlock_at EndTransactionBlock_at PrepareTransactionBlock_at UserAbortTransactionBlock_at
    SavepointStmt_at ReleaseStmt_at RollbackToStmt_at Query_at in \<open>auto simp del: ProcessUtility.simps(5-7)\<close>)

end

lemma after_abort_typed:
  assumes "interrupted {} cs"
  shows "typed {} (after_abort cs) \<and> fst (hd (after_abort cs)) \<in> resting"
  using assms
proof (induction cs)
  case (Cons c cs)
  obtain b st n nm where c: "c = (b, st, n, nm)" by (cases c)
  have sh: "shaped {} ((b, st, n, nm) # cs)" using Cons.prems c by (simp add: interrupted_def)
  show ?case
  proof (cases cs)
    case Nil
    then show ?thesis using Cons.prems c by (cases b) (auto simp: interrupted_def typed_def top_blocks_def resting_def)
  next
    case (Cons c' ds)
    then have "interrupted {} cs" using sh typed_interrupted shaped_tl by blast
    then show ?thesis
      using Cons.IH Cons.prems c sh Cons shaped_head(2)[OF sh]
      by (cases b; cases c') (auto simp: interrupted_def typed_def resting_def)
  qed
qed (simp add: interrupted_def)

context session_ids
begin

lemma StartTransactionCommand_at:
  assumes "at cs xs s" "typed {} cs" "fst (hd cs) \<in> resting"
  shows "ends A (\<lambda>s'. \<exists>cs'. at cs' xs s' \<and> typed {} cs' \<and> fst (hd cs') \<in> ready_blocks
      \<and> (fst (hd cs') \<in> live_blocks \<or> fst (hd cs') = fst (hd cs)))
    (broken {} xs) (StartTransactionCommand conf s)"
proof -
  obtain b st n nm ds where cs: "cs = (b, st, n, nm) # ds" using assms(2) by (cases cs) (auto simp: typed_def)
  note a = assms(1)[unfolded cs]
  have cur: "blockState (current s) = b" using at_current[OF a] by simp
  show ?thesis
  proof (cases "b = TBLOCK_DEFAULT")
    case True
    then have d: "ds = []" "st = TRANS_DEFAULT" "nm = None"
      using assms(2) cs shaped_top[of "{}" b st n nm ds] by (auto simp: typed_def top_blocks_def)
    have i: "interrupted {} [(TBLOCK_DEFAULT, TRANS_START, 1, None)]" by (simp add: interrupted_def top_blocks_def)
    have t: "typed {} [(TBLOCK_STARTED, TRANS_INPROGRESS, 1, None)]" by (simp add: typed_def top_blocks_def)
    have "at [(b, TRANS_DEFAULT, n, None)] xs s" using a d by simp
    note k = StartTransaction_at[OF this]
    have "ends A (at [(TBLOCK_STARTED, TRANS_INPROGRESS, 1, None)] xs) (broken {} xs) (steps [StartTransaction conf, set_block TBLOCK_STARTED] s)"
      unfolding ends_simps by (rule ends_mono[OF k]) (use set_block_at i True in auto)
    then show ?thesis
      using cur True t by (auto simp: StartTransactionCommand_def ready_blocks_def live_blocks_def elim!: ends_mono)
  next
    case False
    then have "StartTransactionCommand conf s = (Done, s)"
      using assms(3) cur cs by (auto simp: StartTransactionCommand_def resting_def)
    moreover have "b \<in> ready_blocks" using False assms(3) cs by (auto simp: ready_blocks_def live_blocks_def resting_def)
    ultimately show ?thesis using assms(1,2) cs by (auto simp: ends_simps)
  qed
qed

definition steady :: "session \<Rightarrow> bool" where
  "steady s \<longleftrightarrow> (\<exists>cs. at cs (xact_started s) s \<and> typed {} cs
     \<and> fst (hd cs) \<in> (if xact_started s then ready_blocks else resting))"

definition failed :: "session \<Rightarrow> bool" where
  "failed s \<longleftrightarrow> (\<exists>xs. broken {} xs s)"

lemma steady_failed: "steady s \<Longrightarrow> failed s"
  using typed_interrupted by (auto simp: steady_def failed_def)

lemma at_started: "at cs xs s \<Longrightarrow> at cs c (s\<lparr>xact_started := c\<rparr>)"
  by (auto simp: at_def I_fields)

lemma start_xact_command_at:
  assumes "steady s" "IsAbortedTransactionBlockState s \<longrightarrow> ex"
  shows "ends A (\<lambda>s'. \<exists>cs. at cs True s' \<and> typed {} cs \<and> fst (hd cs) \<in> ready_blocks \<and> (fst (hd cs) \<in> live_blocks \<or> ex))
    failed (start_xact_command conf s)"
proof -
  obtain cs where a: "at cs (xact_started s) s" "typed {} cs" "fst (hd cs) \<in> (if xact_started s then ready_blocks else resting)"
    using assms(1) by (auto simp: steady_def)
  obtain b st n nm ds where cs: "cs = (b, st, n, nm) # ds" using a(2) by (cases cs) (auto simp: typed_def)
  have ab: "b \<in> {TBLOCK_ABORT, TBLOCK_SUBABORT} \<Longrightarrow> ex"
    using assms(2) at_current[OF a(1)[unfolded cs]] by (auto simp: IsAbortedTransactionBlockState_def)
  show ?thesis
  proof (cases "xact_started s")
    case True
    then have "b \<in> live_blocks \<or> ex" using a(3) ab cs by (auto simp: ready_blocks_def)
    then show ?thesis using True a cs by (auto simp: start_xact_command_def ends_simps)
  next
    case False
    then have r: "fst (hd cs) \<in> resting" using a(3) by simp
    let ?Q = "\<lambda>s'. \<exists>cs. at cs True s' \<and> typed {} cs \<and> fst (hd cs) \<in> ready_blocks \<and> (fst (hd cs) \<in> live_blocks \<or> ex)"
    have "ends A (\<lambda>s'. ?Q (s'\<lparr>xact_started := True\<rparr>)) failed (StartTransactionCommand conf s)"
    proof (rule ends_mono[OF StartTransactionCommand_at[OF a(1,2) r]])
      fix s' assume "\<exists>cs'. at cs' (xact_started s) s' \<and> typed {} cs' \<and> fst (hd cs') \<in> ready_blocks
        \<and> (fst (hd cs') \<in> live_blocks \<or> fst (hd cs') = fst (hd cs))"
      then obtain cs' where c': "at cs' (xact_started s) s'" "typed {} cs'" "fst (hd cs') \<in> ready_blocks"
        "fst (hd cs') \<in> live_blocks \<or> fst (hd cs') = b" using cs by auto
      then have "fst (hd cs') \<in> live_blocks \<or> ex" using ab by (auto simp: ready_blocks_def)
      then show "?Q (s'\<lparr>xact_started := True\<rparr>)" using at_started[OF c'(1)] c'(2,3) by blast
    qed (auto simp: failed_def)
    then show ?thesis using False by (simp add: start_xact_command_def ends_simps)
  qed
qed

lemma finish_xact_command_at:
  assumes "marked True s"
  shows "ends A (\<lambda>s'. steady s' \<and> \<not> xact_started s') failed (finish_xact_command conf s)"
proof -
  obtain cs where a: "at cs True s" "typed {} cs" "fst (hd cs) \<noteq> TBLOCK_DEFAULT" using assms by blast
  have xs: "xact_started s" using a(1) by (simp add: at_def)
  have "ends A (\<lambda>s'. \<exists>cs' \<in> after_commit cs. at cs' True s') (broken {} True) (loop_result (CommitTransactionCommand conf) s)"
    using CommitTransactionCommand_at[OF empty_subsetI a] by (auto simp: loop_result_def)
  then have "ends A (\<lambda>s'. steady (s'\<lparr>xact_started := False\<rparr>)) failed (loop_result (CommitTransactionCommand conf) s)"
  proof (rule ends_mono)
    fix s' assume "\<exists>cs' \<in> after_commit cs. at cs' True s'"
    then obtain cs' where "cs' \<in> after_commit cs" "at cs' True s'" by blast
    then show "steady (s'\<lparr>xact_started := False\<rparr>)"
      using after_commit_typed[OF a(2)] at_started[of cs' True s' False] by (auto simp: steady_def)
  qed (auto simp: failed_def)
  then show ?thesis using xs by (simp add: finish_xact_command_def ends_simps)
qed

lemma implicit_at:
  assumes "at cs True s" "typed {} cs" "fst (hd cs) \<in> ready_blocks"
  shows "\<exists>cs'. at cs' True (BeginImplicitTransactionBlock s) \<and> typed {} cs' \<and> fst (hd cs') \<in> ready_blocks
    \<and> (fst (hd cs) \<in> live_blocks \<longrightarrow> fst (hd cs') \<in> live_blocks)"
proof -
  obtain b st n nm ds where cs: "cs = (b, st, n, nm) # ds" using assms(2) by (cases cs) (auto simp: typed_def)
  note a = assms(1)[unfolded cs]
  show ?thesis
  proof (cases "b = TBLOCK_STARTED")
    case True
    then have "typed {} ((TBLOCK_IMPLICIT_INPROGRESS, st, n, nm) # ds)"
      using assms(2) cs shaped_top[of "{}" b st n nm ds] by (auto simp: typed_def top_blocks_def)
    then show ?thesis
      using set_block_at[OF a, of TBLOCK_IMPLICIT_INPROGRESS] at_current[OF a] True
      by (auto simp: BeginImplicitTransactionBlock_def ready_blocks_def live_blocks_def)
  next
    case False
    then show ?thesis using assms at_current[OF a] by (auto simp: BeginImplicitTransactionBlock_def)
  qed
qed

lemma end_implicit_at:
  assumes "marked True s"
  shows "marked True (EndImplicitTransactionBlock s)"
proof -
  obtain cs where a: "at cs True s" "typed {} cs" "fst (hd cs) \<noteq> TBLOCK_DEFAULT" using assms by blast
  obtain b st n nm ds where cs: "cs = (b, st, n, nm) # ds" using a(2) by (cases cs) (auto simp: typed_def)
  note a' = a(1)[unfolded cs]
  show ?thesis
  proof (cases "b = TBLOCK_IMPLICIT_INPROGRESS")
    case True
    then have "typed {} ((TBLOCK_STARTED, st, n, nm) # ds)"
      using a(2) cs shaped_top[of "{}" b st n nm ds] by (auto simp: typed_def top_blocks_def)
    then show ?thesis
      using set_block_at[OF a', of TBLOCK_STARTED] at_current[OF a'] True by (force simp: EndImplicitTransactionBlock_def)
  next
    case False
    then show ?thesis using a at_current[OF a'] by (auto simp: EndImplicitTransactionBlock_def)
  qed
qed

lemma plain_statement_at:
  assumes "at cs True s" "typed {} cs" "fst (hd cs) \<in> live_blocks" "\<not> is_transaction_stmt stm"
  shows "ends A (at cs True) (at cs True) (ProcessUtility conf stm s)"
proof -
  obtain b st n nm ds where cs: "cs = (b, st, n, nm) # ds" using assms(2) by (cases cs) (auto simp: typed_def)
  have q: "ends A (at cs True) (at cs True) (exec_actions conf acts s')" if "at cs True s'" for acts s'
    using exec_actions_at[of b st n nm ds True s' acts] typed_mono[OF assms(2)] that assms(3) cs by simp
  show ?thesis
  proof (cases stm)
    case (TopLevelStmt nm acts)
    have "at cs True (s\<lparr>MyXactFlags := fl\<rparr>)" for fl using assms(1) by (auto simp: at_def I_fields ctl_def)
    then have "ends A (at cs True) (at cs True) (PreventInTransactionBlock True nm s)"
      using assms(1) by (auto simp: PreventInTransactionBlock_def ends_simps IsTransactionBlock_def)
    then show ?thesis
      unfolding TopLevelStmt ProcessUtility.simps ends_steps_Cons ends_steps_Nil by (rule ends_mono) (use q in auto)
  qed (use q assms in auto)
qed

abbreviation usable :: "statement \<Rightarrow> session \<Rightarrow> bool" where
  "usable stm s \<equiv> \<exists>cs. at cs True s \<and> typed {} cs \<and> fst (hd cs) \<in> ready_blocks
     \<and> (fst (hd cs) \<in> live_blocks \<or> IsTransactionExitStmt stm)"

lemma plain_then:
  assumes "usable stm s" "\<not> is_transaction_stmt stm"
  shows "ends A steady failed (steps [ProcessUtility conf stm, CommandCounterIncrement conf] s)"
proof -
  obtain cs where a: "at cs True s" "typed {} cs" "fst (hd cs) \<in> ready_blocks" "fst (hd cs) \<in> live_blocks"
    using assms by (cases stm) auto
  have st: "steady s'" if "at cs True s'" for s' using that a by (auto simp: steady_def at_def)
  obtain c ds where c: "cs = c # ds" using a(2) by (cases cs) (auto simp: typed_def)
  have "ends A steady failed (CommandCounterIncrement conf s')" if "at cs True s'" for s'
    by (rule ends_mono[OF CommandCounterIncrement_at]) (use that st steady_failed c in auto)
  then show ?thesis
    unfolding ends_steps_Cons ends_steps_Nil
    by (intro ends_mono[OF plain_statement_at[OF a(1,2,4) assms(2)]]) (use st steady_failed in auto)
qed

lemma marked_then:
  assumes "usable stm s" "is_last \<or> is_transaction_stmt stm"
  shows "ends A (\<lambda>s'. steady s' \<and> \<not> xact_started s') failed
    (steps [ProcessUtility conf stm, end_statement conf im is_last stm] s)"
proof -
  obtain cs where a: "at cs True s" "typed {} cs" "fst (hd cs) \<in> ready_blocks"
      "fst (hd cs) \<in> live_blocks \<or> IsTransactionExitStmt stm" using assms(1) by blast
  have "ends A (\<lambda>s'. steady s' \<and> \<not> xact_started s') failed (end_statement conf im is_last stm s')" if "marked True s'" for s'
    using finish_xact_command_at[OF that] finish_xact_command_at[OF end_implicit_at[OF that]] assms(2)
    by (auto simp: end_statement_def ends_simps)
  moreover have "failed s'" if "at cs True s'" for s' using that a typed_interrupted by (auto simp: failed_def)
  ultimately show ?thesis
    unfolding ends_steps_Cons ends_steps_Nil by (intro ends_mono[OF ProcessUtility_at[OF a]])
qed

lemma statement_then:
  assumes "usable stm s"
  shows "ends A (\<lambda>s'. steady s' \<and> (is_last \<longrightarrow> \<not> xact_started s')) failed
    (steps [only_if (\<lambda>s. im) (upd BeginImplicitTransactionBlock), ProcessUtility conf stm, end_statement conf im is_last stm] s)"
proof -
  have body: "ends A (\<lambda>s'. steady s' \<and> (is_last \<longrightarrow> \<not> xact_started s')) failed
      (steps [ProcessUtility conf stm, end_statement conf im is_last stm] s')" if u: "usable stm s'" for s'
  proof (cases "is_last \<or> is_transaction_stmt stm")
    case True
    show ?thesis by (rule ends_mono[OF marked_then[OF u True]]) auto
  next
    case False
    then show ?thesis using plain_then[OF u] by (simp add: end_statement_def)
  qed
  have "usable stm (BeginImplicitTransactionBlock s)" using assms implicit_at by meson
  then show ?thesis
    using body assms unfolding ends_steps_Cons[of _ _ _ "only_if _ _"] by (cases im) (auto simp: ends_Done ends_upd)
qed

lemma exec_statement_at:
  assumes "steady s"
  shows "ends A (\<lambda>s'. steady s' \<and> (is_last \<longrightarrow> \<not> xact_started s')) failed (exec_statement conf im is_last stm s)"
proof (cases "IsAbortedTransactionBlockState s \<and> \<not> IsTransactionExitStmt stm")
  case True
  then show ?thesis
    unfolding exec_statement_def by (subst ends_steps_Cons) (use steady_failed[OF assms] in \<open>simp add: ends_raise\<close>)
next
  case False
  have u: "ends A (usable stm) failed (start_xact_command conf s)"
    using assms False by (intro start_xact_command_at) auto
  have "ends A (\<lambda>s'. steady s' \<and> (is_last \<longrightarrow> \<not> xact_started s')) failed
      (steps [start_xact_command conf, only_if (\<lambda>s. im) (upd BeginImplicitTransactionBlock),
        ProcessUtility conf stm, end_statement conf im is_last stm] s)"
    by (subst ends_steps_Cons) (rule ends_mono[OF u statement_then])
  then show ?thesis
    unfolding exec_statement_def by (subst ends_steps_Cons) (use False in \<open>auto simp: ends_Done\<close>)
qed

lemma exec_statements_at:
  assumes "steady s"
  shows "ends A (\<lambda>s'. steady s' \<and> (stms \<noteq> [] \<longrightarrow> \<not> xact_started s')) failed (exec_statements conf im stms s)"
  using assms
proof (induction stms arbitrary: s)
  case Nil
  then show ?case by (simp add: ends_simps)
next
  case (Cons stm stms)
  have "ends A (\<lambda>s'. steady s' \<and> \<not> xact_started s') failed (exec_statements conf im stms s')"
    if "steady s' \<and> (stms = [] \<longrightarrow> \<not> xact_started s')" for s'
  proof (cases "stms = []")
    case False
    then show ?thesis using Cons.IH[of s'] that by simp
  qed (use that in \<open>simp add: ends_simps\<close>)
  then show ?case
    using exec_statement_at[OF Cons.prems, of "stms = []" im stm] by (simp add: ends_simps) (erule ends_mono; simp)
qed

lemma steady_marked: "steady s \<Longrightarrow> xact_started s \<Longrightarrow> marked True s"
  by (force simp: steady_def ready_blocks_def live_blocks_def)

lemma finish_steady:
  assumes "steady s"
  shows "ends A (\<lambda>s'. steady s' \<and> \<not> xact_started s') failed (finish_xact_command conf s)"
  using assms finish_xact_command_at[OF steady_marked[OF assms]]
  by (cases "xact_started s") (auto simp: finish_xact_command_def ends_simps)

lemma exec_simple_query_at:
  assumes "steady s"
  shows "ends A (\<lambda>s'. steady s' \<and> \<not> xact_started s') failed (exec_simple_query conf query s)"
proof -
  let ?m = "case query of None \<Rightarrow> raise ERROR (Subsystem 0)
        | Some stms \<Rightarrow> exec_statements conf (length stms > 1) stms"
  have body: "ends A steady failed (?m s')" if "steady s'" for s'
    by (cases query) (use steady_failed[OF that] in \<open>auto simp: ends_simps intro!: ends_mono[OF exec_statements_at[OF that]]\<close>)
  have "ends A steady failed (start_xact_command conf s)"
    by (rule ends_mono[OF start_xact_command_at[OF assms, of True]]) (auto simp: steady_def at_def)
  then show ?thesis
    unfolding exec_simple_query_def ends_steps_Cons ends_steps_Nil
    by (rule ends_mono) (rule ends_mono[OF body], auto intro: finish_steady)
qed

text \<open>A query message: afterwards the session is at rest in a well-typed state.\<close>

lemma PostgresMain_query_at:
  assumes "steady s"
  shows "ends A (\<lambda>s'. steady s' \<and> \<not> xact_started s') (\<lambda>_. False) (PostgresMain_query conf query s)"
proof -
  obtain out s' where q: "exec_simple_query conf query s = (out, s')" by fastforce
  have e: "ends A (\<lambda>s'. steady s' \<and> \<not> xact_started s') failed (out, s')" using exec_simple_query_at[OF assms, of query] q by simp
  have recover: "ends A (\<lambda>s'. steady s' \<and> \<not> xact_started s') (\<lambda>_. False)
      (steps [loop_result (AbortCurrentTransaction conf), upd (\<lambda>s. s\<lparr>xact_started := False\<rparr>)] s')" if f: "failed s'"
  proof -
    obtain cs xs where a: "at cs xs s'" "interrupted {} cs" using f by (auto simp: failed_def)
    have r: "ends A (at (after_abort cs) xs) (\<lambda>_. False) (loop_result (AbortCurrentTransaction conf) s')"
      using AbortCurrentTransaction_at[OF a] by (auto simp: loop_result_def)
    have "steady (s''\<lparr>xact_started := False\<rparr>)" if "at (after_abort cs) xs s''" for s''
      using at_started[OF that, of False] after_abort_typed[OF a(2)] by (auto simp: steady_def)
    then show ?thesis unfolding ends_simps by (intro ends_mono[OF r]) auto
  qed
  show ?thesis
  proof (cases out)
    case (Raised l x)
    show ?thesis
    proof (cases l)
      case ERROR
      then have "failed s'" using e Raised tolerated[of l x] by (auto simp: ends_simps)
      then show ?thesis using recover q Raised ERROR by (simp add: PostgresMain_query_def)
    qed (use e q Raised in \<open>auto simp: PostgresMain_query_def ends_simps\<close>)
  qed (use e q in \<open>auto simp: PostgresMain_query_def ends_simps\<close>)
qed

lemma queries_at:
  assumes "steady s" "\<not> xact_started s"
  shows "ends A (\<lambda>s'. steady s' \<and> \<not> xact_started s') (\<lambda>_. False) (steps (map (PostgresMain_query conf) queries) s)"
  using assms
proof (induction queries arbitrary: s)
  case (Cons q qs)
  then show ?case
    using PostgresMain_query_at[OF Cons.prems(1), of q] by (simp add: ends_simps) (erule ends_mono; simp)
qed (simp add: ends_simps)

end

end
