(* ===== verification/XactControl.thy ===== *)
theory XactControl
  imports XactBlock
begin

text \<open>
  Sessions as clients see them.  The first sections show that \<^verbatim>\<open>ROLLBACK\<close> ends a transaction block at any
  depth and that \<^verbatim>\<open>AbortOutOfAnyTransaction\<close>, the exit of a session, always gets out of every level.  Then
  the interface \<open>session_ids\<close> of the block theory is instantiated for every session whose subsystems leave
  the transaction state alone, which gives the properties of whole sequences of query messages.
\<close>

section \<open>Leaving a transaction block\<close>

text \<open>The operations that roll back leave \<^verbatim>\<open>chain\<close> as the command set it.\<close>

definition chains :: "session \<Rightarrow> bool list" where
  "chains s = map chain (xstack s)"

lemma steps_Done:
  "steps (m # ms) s = (Done, s') \<longleftrightarrow> (\<exists>s1. m s = (Done, s1) \<and> steps ms s1 = (Done, s'))"
  by (auto simp: steps.simps split: prod.splits if_splits)

lemma steps_Nil_Done: "steps [] s = (Done, s') \<longleftrightarrow> s' = s"
  by (auto simp: steps.simps)

lemma warn_if_Done: "warn_if c w s = (Done, s') \<Longrightarrow> chains s' = chains s \<and> xstack s' = xstack s"
  by (auto simp: warn_if_def chains_def split: if_splits)

lemma chains_upd_level:
  assumes "\<And>x. chain (f x) = chain x"
  shows "chains (upd_level i f s) = chains s"
  using assms by (simp add: chains_def map_update map_update_same)

lemma reset_chains: "chains (reset_fields s) = chains s"
  unfolding reset_fields_def by (subst chains_upd_level) (simp_all add: chains_def)

lemma AbortTransaction_chains:
  assumes "AbortTransaction conf s = (Done, s')"
  shows "chains s' = chains s"
proof -
  obtain s1 where s1: "chains s1 = chains s"
    "end_in_procarray conf (if blockState (current s) \<noteq> TBLOCK_PARALLEL_INPROGRESS then RecordTransactionAbort conf False
        (upd_current (\<lambda>x. x\<lparr>state := TRANS_ABORT, parallelModeLevel := 0, parallelChildXact := False\<rparr>) s1)
      else (Done, InvalidTransactionId, upd_current (\<lambda>x. x\<lparr>state := TRANS_ABORT, parallelModeLevel := 0, parallelChildXact := False\<rparr>) s1))
      = (Done, s')"
    using assms by (auto simp: AbortTransaction_def steps_Done steps_Nil_Done upd_def Let_def dest: warn_if_Done)
  then have "xstack s' = xstack (upd_current (\<lambda>x. x\<lparr>state := TRANS_ABORT, parallelModeLevel := 0, parallelChildXact := False\<rparr>) s1)"
    using abort_record_keeps end_in_procarray_keeps(1) by (auto split: if_splits)
  then have "chains s' = chains (upd_current (\<lambda>x. x\<lparr>state := TRANS_ABORT, parallelModeLevel := 0, parallelChildXact := False\<rparr>) s1)"
    by (simp add: chains_def)
  then show ?thesis using s1(1) by (simp add: chains_upd_level)
qed

lemma CleanupTransaction_chains: "CleanupTransaction s = (Done, s') \<Longrightarrow> chains s' = chains s"
  by (auto simp: CleanupTransaction_def steps_Done steps_Nil_Done upd_def raise_def chains_upd_level reset_chains split: if_splits)

lemma AbortSubTransaction_chains:
  assumes "AbortSubTransaction conf s = (Done, s')"
  shows "chains s' = chains s"
proof -
  let ?a = "upd_current (\<lambda>x. x\<lparr>state := TRANS_ABORT, parallelModeLevel := 0\<rparr>)"
  have a: "chains (?a t) = chains t" for t by (simp add: chains_upd_level)
  have r: "chains t' = chains t" if "RecordTransactionAbort conf True t = (out, l, t')" for out l t t'
    using RecordTransactionAbort_keeps(1)[OF that] by (simp add: chains_def)
  have c: "chains (AtSubAbort_childXids t) = chains t" for t unfolding AtSubAbort_childXids_def by (simp add: chains_upd_level)
  have ro: "chains (t\<lparr>XactReadOnly := u\<rparr>) = chains t" for t u by (simp add: chains_def)
  show ?thesis
    using assms a r c ro
    by (auto simp: AbortSubTransaction_def steps_Done steps_Nil_Done upd_def split: if_splits prod.splits dest!: warn_if_Done)
qed

lemma CleanupSubTransaction_chains: "CleanupSubTransaction s = (Done, s') \<Longrightarrow> chains s' = tl (chains s)"
  by (cases "xstack s")
    (auto simp: CleanupSubTransaction_def PopTransaction_def steps_Done steps_Nil_Done upd_def raise_def chains_def
      split: if_splits dest!: warn_if_Done)

lemma ends_also:
  assumes "ends A Q E r" "\<And>s. r = (Done, s) \<Longrightarrow> K s"
  shows "ends A (\<lambda>s. Q s \<and> K s) E r"
  using assms by (cases r; cases "fst r") (auto simp: ends_simps)

text \<open>The levels are about to be rolled back, down to the main transaction.\<close>

fun rolling :: "level list \<Rightarrow> bool" where
  "rolling [] = False"
| "rolling [c] = (fst c \<in> {TBLOCK_ABORT_PENDING, TBLOCK_ABORT_END})"
| "rolling (c # c' # cs) = (fst c \<in> {TBLOCK_SUBABORT_PENDING, TBLOCK_SUBABORT_END} \<and> rolling (c' # cs))"

context session_ids
begin

lemma end_at:
  assumes "at [(b, TRANS_DEFAULT, 0, None)] xs s" "chains s = [False]"
  shows "ends A (at idle_ctl xs) E (end_or_chain conf s0 s)"
proof -
  have "chains (upd_current (\<lambda>x. x\<lparr>blockState := TBLOCK_DEFAULT\<rparr>) s) = [False]"
    using assms(2) by (simp add: chains_upd_level)
  then have "\<not> chain (current (upd_current (\<lambda>x. x\<lparr>blockState := TBLOCK_DEFAULT\<rparr>) s))"
    by (cases "xstack s") (auto simp: chains_def current_def)
  then show ?thesis using set_block_at[OF assms(1), of TBLOCK_DEFAULT] by (simp add: end_or_chain_def ends_simps)
qed

lemma rollback_top:
  assumes a: "at [(b, st, n, nm)] xs s" and t: "typed {} [(b, st, n, nm)]"
    and b: "b \<in> {TBLOCK_ABORT_PENDING, TBLOCK_ABORT_END}" and c: "chains s = [False]"
  shows "fst (CommitTransactionCommandInternal conf s)
    \<and> ends A (at idle_ctl xs) E (snd (CommitTransactionCommandInternal conf s))"
proof -
  have cur: "blockState (current s) = b" using at_current[OF a] by simp
  have st: "st = state_of b" "nm = None" using t by (auto simp: typed_def)
  have clean: "ends A (at idle_ctl xs) E (steps [CleanupTransaction, end_or_chain conf s] s')"
    if "at [(b, TRANS_ABORT, n, nm)] xs s' \<and> chains s' = [False]" for s'
  proof -
    have "ends A (\<lambda>s'. at [(b, TRANS_DEFAULT, 0, nm)] xs s' \<and> chains s' = [False]) (\<lambda>_. False) (CleanupTransaction s')"
      by (rule ends_also[OF CleanupTransaction_at]) (use that CleanupTransaction_chains in auto)
    then show ?thesis unfolding ends_steps_Cons ends_steps_Nil by (rule ends_mono) (use end_at st in auto)
  qed
  show ?thesis
  proof (cases "b = TBLOCK_ABORT_END")
    case True
    then show ?thesis using clean[of s] a c st cur by (simp add: CommitTransactionCommandInternal_def)
  next
    case False
    have "ends A (\<lambda>s'. at [(b, TRANS_ABORT, n, nm)] xs s' \<and> chains s' = [False]) (\<lambda>_. False) (AbortTransaction conf s)"
      by (rule ends_also[OF AbortTransaction_at[OF a]]) (use b False st c AbortTransaction_chains in auto)
    then have "ends A (at idle_ctl xs) E (steps [AbortTransaction conf, CleanupTransaction, end_or_chain conf s] s)"
      by (subst ends_steps_Cons) (erule ends_mono, use clean in auto)
    then show ?thesis using b False cur by (auto simp: CommitTransactionCommandInternal_def)
  qed
qed

lemma rollback_loop:
  assumes "at cs xs s" "typed {} cs" "rolling cs" "\<not> last (chains s)"
  shows "\<exists>r. CommitTransactionCommand conf s = Some r \<and> ends A (at idle_ctl xs) E r"
  using assms
proof (induction cs arbitrary: s rule: rolling.induct)
  case (2 c)
  obtain b st n nm where c: "c = (b, st, n, nm)" by (cases c)
  have "length (chains s) = 1" using 2(1) by (auto simp: at_def ctl_def chains_def)
  then have "chains s = [False]" using 2(4) by (cases "chains s") auto
  then show ?case
    using rollback_top[of b st n nm xs s E] 2(1-3) c by (subst CommitTransactionCommand.simps) (simp add: Let_def)
next
  case (3 c c' cs)
  obtain b st n nm where c: "c = (b, st, n, nm)" by (cases c)
  let ?r = "CommitTransactionCommandInternal conf s"
  note a = 3(2)[unfolded c]
  have cur: "blockState (current s) = b" using at_current[OF a] by simp
  have st: "st = state_of b" "b \<in> {TBLOCK_SUBABORT_PENDING, TBLOCK_SUBABORT_END}" using 3(3,4) c typed_head by auto
  have len: "length (chains s) = Suc (Suc (length cs))" using 3(2) by (auto simp: at_def ctl_def chains_def dest: map_eq_imp_length_eq[of lvl])
  have r: "\<not> fst ?r \<and> ends A (\<lambda>s'. at (c' # cs) xs s' \<and> chains s' = tl (chains s)) E (snd ?r)"
  proof (cases "b = TBLOCK_SUBABORT_END")
    case True
    have "ends A (\<lambda>s'. at (c' # cs) xs s' \<and> chains s' = tl (chains s)) E (CleanupSubTransaction s)"
      by (rule ends_also[OF CleanupSubTransaction_at[of b n nm]]) (use a True st CleanupSubTransaction_chains in auto)
    then show ?thesis using cur True by (simp add: CommitTransactionCommandInternal_def)
  next
    case False
    have "ends A (\<lambda>s'. at (c' # cs) xs s' \<and> chains s' = tl (chains s)) E (steps [AbortSubTransaction conf, CleanupSubTransaction] s)"
      by (rule ends_also[OF abort_sub_then[OF a]])
        (use False st AbortSubTransaction_chains CleanupSubTransaction_chains in \<open>auto simp: steps_Done steps_Nil_Done\<close>)
    then show ?thesis using cur False st by (auto simp: CommitTransactionCommandInternal_def)
  qed
  obtain out s' where r': "?r = (False, out, s')" using r by (cases ?r) auto
  show ?case
  proof (cases "out = Done")
    case True
    then have s': "at (c' # cs) xs s'" "chains s' = tl (chains s)" using r r' by (auto simp: ends_simps)
    moreover have "\<not> last (chains s')" using 3(5) s'(2) len by (cases "chains s") (auto split: if_splits)
    ultimately show ?thesis
      using 3(1)[of s'] typed_tl[OF 3(3)] 3(4) r' True by (subst CommitTransactionCommand.simps) (simp add: Let_def)
  next
    case False
    then show ?thesis
      using r r' ends_fail[of A _ E out s'] by (subst CommitTransactionCommand.simps) (auto simp: Let_def)
  qed
qed (simp add: typed_def)

end

lemma fst_lvl [simp]: "fst (lvl x) = blockState x"
  by (simp add: lvl_def)

lemma lvl_chain [simp]: "lvl (x\<lparr>chain := ch\<rparr>) = lvl x"
  by (simp add: lvl_def)

lemma mark_abort_rolling:
  assumes "mark_levels (abort_marks (length xs)) xs = (None, ys)" "xs \<noteq> []"
  shows "rolling (map lvl ys)"
  using assms
proof (induction xs arbitrary: ys)
  case (Cons x xs)
  show ?case
  proof (cases xs)
    case Nil
    then show ?thesis using Cons.prems
      by (auto simp: abort_marks_def mark_abort_def lvl_def split: if_splits)
  next
    case C: (Cons z zs)
    have m: "abort_marks (length (x # xs)) = mark_abort TBLOCK_SUBINPROGRESS TBLOCK_SUBABORT_PENDING TBLOCK_SUBABORT TBLOCK_SUBABORT_END
        # abort_marks (length xs)"
      by (simp add: abort_marks_def C)
    obtain y vs where v: "mark_levels (abort_marks (length xs)) xs = (None, vs)" "ys = y # vs"
      "blockState y \<in> {TBLOCK_SUBABORT_PENDING, TBLOCK_SUBABORT_END}"
      using Cons.prems(1) unfolding m by (auto simp: mark_abort_def split: if_splits option.splits prod.splits)
    moreover have "rolling (map lvl vs)" using Cons.IH[OF v(1)] C by simp
    ultimately show ?thesis by (cases vs) auto
  qed
qed simp

lemma set_chain_last: "set_chain ch s = (Done, s') \<Longrightarrow> xstack s \<noteq> [] \<Longrightarrow> last (chains s') = ch \<and> ctl s' = ctl s"
  by (auto simp: set_chain_def upd_def upd_top_def chains_def ctl_def last_conv_nth map_update map_update_same)

lemma UserAbort_rolling:
  assumes "UserAbortTransactionBlock False s = (out, s')" "xstack s \<noteq> []"
    and "blockState (current s) \<in> {TBLOCK_INPROGRESS, TBLOCK_ABORT, TBLOCK_STARTED, TBLOCK_IMPLICIT_INPROGRESS} \<Longrightarrow> length (xstack s) = 1"
  shows "out = Done \<Longrightarrow> rolling (ctl s') \<and> \<not> last (chains s')" "out \<noteq> Raised ERROR e"
proof -
  have top: "rolling (ctl s') \<and> \<not> last (chains s')"
    if s: "set_chain False (upd_current (\<lambda>x. x\<lparr>blockState := b\<rparr>) s0) = (Done, s')"
      "length (xstack s0) = 1" "b \<in> {TBLOCK_ABORT_PENDING, TBLOCK_ABORT_END}" for s0 b
  proof -
    obtain x where x: "xstack s0 = [x]" using s(2) by (cases "xstack s0") auto
    have "rolling (ctl (upd_current (\<lambda>x. x\<lparr>blockState := b\<rparr>) s0))" using s(3) x by (auto simp: ctl_def lvl_def)
    then show ?thesis using set_chain_last[OF s(1)] x by simp
  qed
  have sub: "rolling (ctl s') \<and> \<not> last (chains s')"
    if s: "mark_stack (abort_marks (length (xstack s))) s = (Done, s1)" "set_chain False s1 = (Done, s')" for s1
  proof -
    obtain ys where y: "mark_levels (abort_marks (length (xstack s))) (xstack s) = (None, ys)" "xstack s1 = ys"
      using s(1) by (auto simp: mark_stack_def split: prod.splits option.splits)
    have "rolling (ctl s1)" using mark_abort_rolling[OF y(1) assms(2)] y(2) by (simp add: ctl_def)
    moreover from this have "xstack s1 \<noteq> []" by (auto simp: ctl_def)
    ultimately show ?thesis using set_chain_last[OF s(2)] by simp
  qed
  show "rolling (ctl s') \<and> \<not> last (chains s')" if d: "out = Done"
  proof (cases "blockState (current s)")
    case TBLOCK_SUBINPROGRESS
    then show ?thesis using assms(1) d sub by (auto simp: UserAbortTransactionBlock_def steps_Done steps_Nil_Done)
  next
    case TBLOCK_SUBABORT
    then show ?thesis using assms(1) d sub by (auto simp: UserAbortTransactionBlock_def steps_Done steps_Nil_Done)
  next
    case TBLOCK_STARTED
    then obtain s0 where "set_chain False (upd_current (\<lambda>x. x\<lparr>blockState := TBLOCK_ABORT_PENDING\<rparr>) s0) = (Done, s')"
      "length (xstack s0) = 1"
      using assms d by (auto simp: UserAbortTransactionBlock_def steps_Done steps_Nil_Done set_block_def upd_def
        require_block_for_chain_def dest!: warn_if_Done)
    then show ?thesis by (rule top) simp
  next
    case TBLOCK_IMPLICIT_INPROGRESS
    then obtain s0 where "set_chain False (upd_current (\<lambda>x. x\<lparr>blockState := TBLOCK_ABORT_PENDING\<rparr>) s0) = (Done, s')"
      "length (xstack s0) = 1"
      using assms d by (auto simp: UserAbortTransactionBlock_def steps_Done steps_Nil_Done set_block_def upd_def
        require_block_for_chain_def dest!: warn_if_Done)
    then show ?thesis by (rule top) simp
  qed (use assms d top in \<open>auto simp: UserAbortTransactionBlock_def steps_Done steps_Nil_Done set_block_def upd_def
      require_block_for_chain_def unexpected_def dest!: warn_if_Done\<close>)
  show "out \<noteq> Raised ERROR e"
    using assms(1)
    by (cases "blockState (current s)")
      (auto simp: UserAbortTransactionBlock_def steps.simps set_block_def upd_def set_chain_def mark_stack_def warn_if_def
        require_block_for_chain_def unexpected_def split: if_splits prod.splits option.splits)
qed

context session_ids
begin

abbreviation rolled :: "bool \<Rightarrow> session \<Rightarrow> bool" where
  "rolled xs s \<equiv> \<exists>cs. at cs xs s \<and> typed {} cs \<and> rolling cs \<and> \<not> last (chains s)"

lemma rollback_marks_all:
  assumes "at cs xs s" "typed {} cs" "fst (hd cs) \<in> ready_blocks"
  shows "ends A (rolled xs) (\<lambda>_. False) (UserAbortTransactionBlock False s)"
proof -
  obtain out s' where r: "UserAbortTransactionBlock False s = (out, s')" by fastforce
  have ne: "xstack s \<noteq> []" using assms(1,2) by (auto simp: at_def ctl_def typed_def)
  have l: "length (xstack s) = 1"
    if b: "blockState (current s) \<in> {TBLOCK_INPROGRESS, TBLOCK_ABORT, TBLOCK_STARTED, TBLOCK_IMPLICIT_INPROGRESS}"
    using assms
  proof (cases rule: ready_cases)
    case (1 b st n nm)
    then show ?thesis by (auto simp: at_def ctl_def)
  qed (use b in auto)
  have "ends A (marked xs) (at cs xs) (out, s')" using UserAbortTransactionBlock_at[OF assms, of False] r by simp
  then have "ends A (marked xs) (\<lambda>_. False) (out, s')"
    using UserAbort_rolling(2)[OF r ne l] by (cases out) (auto simp: ends_simps)
  then show ?thesis
    unfolding r by (rule ends_mono[OF ends_also[where K = "\<lambda>s'. rolling (ctl s') \<and> \<not> last (chains s')"]])
      (use UserAbort_rolling(1)[OF r ne l] in \<open>auto simp: at_def\<close>)
qed

lemma finish_rolled:
  assumes "rolled True s"
  shows "ends A (at idle_ctl False) E (finish_xact_command conf s)"
proof -
  obtain cs where a: "at cs True s" "typed {} cs" "rolling cs" "\<not> last (chains s)" using assms by blast
  have "ends A (at idle_ctl True) E (loop_result (CommitTransactionCommand conf) s)"
    using rollback_loop[OF a, of E] by (auto simp: loop_result_def)
  then have "ends A (\<lambda>s'. at idle_ctl False (s'\<lparr>xact_started := False\<rparr>)) E (loop_result (CommitTransactionCommand conf) s)"
    by (rule ends_mono) (auto intro: at_started)
  then show ?thesis using a(1) by (simp add: finish_xact_command_def ends_simps at_def)
qed

text \<open>A session that is idle, or whose transaction could not be started, is idle after an abort.\<close>

lemma start_rollback_at:
  assumes "steady s" "\<not> xact_started s"
  shows "ends A (usable (RollbackStmt ch)) (\<lambda>s'. \<exists>xs cs. at cs xs s' \<and> interrupted {} cs \<and> after_abort cs = idle_ctl)
    (start_xact_command conf s)"
proof -
  obtain cs where a: "at cs False s" "typed {} cs" "fst (hd cs) \<in> resting" using assms by (auto simp: steady_def)
  obtain b st n nm ds where cs: "cs = (b, st, n, nm) # ds" using a(2) by (cases cs) (auto simp: typed_def)
  note a' = a(1)[unfolded cs]
  have cur: "blockState (current s) = b" using at_current[OF a'] by simp
  show ?thesis
  proof (cases "b = TBLOCK_DEFAULT")
    case True
    then have d: "ds = []" "st = TRANS_DEFAULT" "nm = None"
      using a(2) cs shaped_top[of "{}" b st n nm ds] by (auto simp: typed_def top_blocks_def)
    have i: "interrupted {} [(TBLOCK_DEFAULT, TRANS_START, 1, None)]" by (simp add: interrupted_def top_blocks_def)
    have t: "typed {} [(TBLOCK_STARTED, TRANS_INPROGRESS, 1, None)]" by (simp add: typed_def top_blocks_def)
    have "at [(b, TRANS_DEFAULT, n, None)] False s" using a' d by simp
    note k = StartTransaction_at[OF this]
    have u: "usable (RollbackStmt ch) (upd_current (\<lambda>x. x\<lparr>blockState := TBLOCK_STARTED\<rparr>) s'\<lparr>xact_started := True\<rparr>)"
      if "at [(b, TRANS_INPROGRESS, 1, None)] False s'" for s'
      using at_started[OF set_block_at[OF that], of TBLOCK_STARTED True] t by (auto simp: ready_blocks_def live_blocks_def)
    have "ends A (usable (RollbackStmt ch)) (\<lambda>s'. \<exists>xs cs. at cs xs s' \<and> interrupted {} cs \<and> after_abort cs = idle_ctl)
        (steps [steps [StartTransaction conf, set_block TBLOCK_STARTED], upd (\<lambda>s. s\<lparr>xact_started := True\<rparr>)] s)"
      unfolding ends_simps by (rule ends_mono[OF k]) (use u i True in \<open>auto 0 3\<close>)
    then show ?thesis using cur True assms(2) by (simp add: start_xact_command_def StartTransactionCommand_def steps.simps)
  next
    case False
    then have s: "StartTransactionCommand conf s = (Done, s)" "b \<in> ready_blocks"
      using a(3) cur cs by (auto simp: StartTransactionCommand_def resting_def ready_blocks_def live_blocks_def)
    then have "start_xact_command conf s = (Done, s\<lparr>xact_started := True\<rparr>)"
      using assms(2) by (simp add: start_xact_command_def steps.simps upd_def)
    then show ?thesis using at_started[OF a(1), of True] a(2) cs s(2) by (auto simp: ends_simps)
  qed
qed

lemma recover_query:
  assumes "ends A Q F (exec_simple_query conf query s)" "exec_simple_query conf query s = (out, s')"
    and "F s' \<Longrightarrow> ends A Q (\<lambda>_. False)
      (steps [loop_result (AbortCurrentTransaction conf), upd (\<lambda>s. s\<lparr>xact_started := False\<rparr>)] s')"
  shows "ends A Q (\<lambda>_. False) (PostgresMain_query conf query s)"
proof (cases out)
  case (Raised l x)
  show ?thesis
  proof (cases l)
    case ERROR
    then have "F s'" using assms(1,2) Raised tolerated[of l x] by (auto simp: ends_simps)
    then show ?thesis using assms Raised ERROR by (simp add: PostgresMain_query_def)
  qed (use assms Raised in \<open>auto simp: PostgresMain_query_def ends_simps\<close>)
qed (use assms in \<open>auto simp: PostgresMain_query_def ends_simps\<close>)

lemma rollback_query_at:
  assumes "steady s" "\<not> xact_started s"
  shows "ends A (at idle_ctl False) (\<lambda>_. False) (PostgresMain_query conf (Some [RollbackStmt False]) s)"
proof -
  let ?F = "\<lambda>s'. \<exists>xs cs. at cs xs s' \<and> interrupted {} cs \<and> after_abort cs = idle_ctl"
  let ?stm = "RollbackStmt False"
  have fin: "ends A (at idle_ctl False) E (steps [finish_xact_command conf] s')" if "at idle_ctl False s'" for s' E
    using that by (simp add: ends_simps finish_xact_command_def at_def)
  have st: "ends A (at idle_ctl False) (\<lambda>_. False) (exec_statement conf False True ?stm s')" if u: "usable ?stm s'" for s'
  proof -
    have "start_xact_command conf s' = (Done, s')" using u by (auto simp: start_xact_command_def at_def)
    moreover have "ends A (at idle_ctl False) (\<lambda>_. False) (steps [ProcessUtility conf ?stm, end_statement conf False True ?stm] s')"
      using u rollback_marks_all finish_rolled[of _ "\<lambda>_. False"]
      by (simp add: ends_simps end_statement_def) (blast intro: ends_mono)
    ultimately show ?thesis by (simp add: exec_statement_def steps.simps)
  qed
  have q: "ends A (at idle_ctl False) (\<lambda>_. False) (steps [exec_statements conf False [?stm], finish_xact_command conf] s')"
    if u: "usable ?stm s'" for s'
    unfolding ends_steps_Cons[of _ _ _ "exec_statements _ _ _"]
    by (rule ends_mono[OF _ fin]) (use st[OF u] in \<open>auto simp: ends_simps\<close>)
  have "ends A (at idle_ctl False) ?F (exec_simple_query conf (Some [?stm]) s)"
    unfolding exec_simple_query_def ends_steps_Cons[of _ _ _ "start_xact_command _"]
    by (rule ends_mono[OF start_rollback_at[OF assms, of False]]) (use q in \<open>auto intro: ends_mono\<close>)
  moreover obtain out s' where r: "exec_simple_query conf (Some [?stm]) s = (out, s')" by fastforce
  moreover have "ends A (at idle_ctl False) (\<lambda>_. False)
      (steps [loop_result (AbortCurrentTransaction conf), upd (\<lambda>s. s\<lparr>xact_started := False\<rparr>)] s')" if f: "?F s'"
  proof -
    obtain cs xs where a: "at cs xs s'" "interrupted {} cs" "after_abort cs = idle_ctl" using f by blast
    have r: "ends A (at idle_ctl xs) (\<lambda>_. False) (loop_result (AbortCurrentTransaction conf) s')"
      using AbortCurrentTransaction_at[OF a(1,2)] a(3) by (auto simp: loop_result_def)
    show ?thesis unfolding ends_simps by (rule ends_mono[OF r]) (auto intro: at_started)
  qed
  ultimately show ?thesis by (rule recover_query)
qed

end

section \<open>Sessions whose subsystems keep the transaction state\<close>

text \<open>
  The subsystems that \<^verbatim>\<open>xact.c\<close> calls may fail, but do not themselves start or end transactions.
\<close>

definition hooks_ok :: "xact_conf \<Rightarrow> bool" where
  "hooks_ok conf \<longleftrightarrow> (\<forall>h s. xstack s \<noteq> [] \<longrightarrow>
     ends {} (\<lambda>s'. ctl s' = ctl s \<and> xact_started s' = xact_started s)
       (\<lambda>s'. ctl s' = ctl s \<and> xact_started s' = xact_started s) (hook conf h s))"

text \<open>
  What can go wrong when the end of a transaction is recorded: the lookup of the id or the wait for the
  group leader does not return, or the id is found committed.
\<close>

definition recording_failures :: "outcome set" where
  "recording_failures = insert Stuck (range (\<lambda>x. Raised PANIC (AbortOfCommitted x)))"

lemma ends_weaken: "ends {} Q E r \<Longrightarrow> (\<And>s. Q s \<Longrightarrow> Q' s) \<Longrightarrow> (\<And>s. E s \<Longrightarrow> E' s) \<Longrightarrow> ends A Q' E' r"
  by (cases r; cases "fst r") (auto simp: ends_simps)

lemma session_ids_control:
  assumes "hooks_ok conf"
  shows "session_ids conf (\<lambda>_. True) recording_failures"
proof
  show "l = PANIC" if "Raised l e \<in> recording_failures" for l e using that by (auto simp: recording_failures_def)
  show "ends recording_failures (\<lambda>s'. True \<and> ctl s' = ctl s \<and> xact_started s' = xact_started s)
      (\<lambda>s'. True \<and> ctl s' = ctl s \<and> xact_started s' = xact_started s) (hook conf h s)" if "xstack s \<noteq> []" for s h
    using assms that unfolding hooks_ok_def by (auto intro: ends_weaken)
  have e: "ends recording_failures (\<lambda>_. True) E (end_in_procarray conf (out, l, s))"
    if "ends recording_failures (\<lambda>_. True) E (out, s)" for E out l s
    using that by (cases out) (auto simp: end_in_procarray_def ends_simps recording_failures_def split: option.splits)
  show "ends recording_failures (\<lambda>_. True) (\<lambda>_. True) (end_in_procarray conf (RecordTransactionCommit conf s))" for s
    by (cases "RecordTransactionCommit conf s")
      (auto intro!: e simp: RecordTransactionCommit_def Let_def ends_simps split: if_splits)
  have a: "ends recording_failures (\<lambda>_. True) (\<lambda>_. False) (case RecordTransactionAbort conf c s of (out, _, s') \<Rightarrow> (out, s'))" for c s
    by (auto simp: RecordTransactionAbort_def Let_def ends_simps recording_failures_def split: if_splits option.splits)
  then show "ends recording_failures (\<lambda>_. True) (\<lambda>_. False) (end_in_procarray conf (RecordTransactionAbort conf False s))" for s
    using e by (cases "RecordTransactionAbort conf False s") (metis (no_types, lifting) case_prod_conv)
  show "ends recording_failures (\<lambda>_. True) (\<lambda>_. False) (case RecordTransactionAbort conf True s of (out, _, s') \<Rightarrow> (out, s'))" for s
    by (rule a)
qed auto

context session_ids
begin

lemma abort_out_top:
  assumes "at [(b, st, n, nm)] xs s" "interrupted T [(b, st, n, nm)]"
  shows "ends A (at idle_ctl xs) (\<lambda>_. False) (abort_out_step conf s)"
proof -
  have b: "b \<in> top_blocks" "nm = None" "(st = TRANS_ABORT) = (state_of b = TRANS_ABORT)"
      "b = TBLOCK_DEFAULT \<Longrightarrow> st \<in> {TRANS_DEFAULT, TRANS_START}" "st = TRANS_DEFAULT \<Longrightarrow> n = 0"
    using assms(2) by (auto simp: interrupted_def)
  have cur: "blockState (current s) = b" "state (current s) = st" using at_current[OF assms(1)] by simp_all
  have clean: "ends A (at [(b, TRANS_DEFAULT, 0, nm)] xs) (\<lambda>_. False) (steps [AbortTransaction conf, CleanupTransaction] s')"
    if "at [(b, st', n, nm)] xs s'" "st' \<noteq> TRANS_ABORT" for s' st'
    unfolding ends_simps
    by (rule ends_mono[OF AbortTransaction_at[OF that(1) _ that(2)]]) (use b(1) CleanupTransaction_at in \<open>auto simp: top_blocks_def\<close>)
  show ?thesis
  proof (cases "b = TBLOCK_DEFAULT")
    case d: True
    show ?thesis
    proof (cases "st = TRANS_DEFAULT")
      case True
      then show ?thesis using assms(1) b cur d by (simp add: abort_out_step_def ends_simps)
    next
      case False
      then have "at [(b, TRANS_INPROGRESS, n, nm)] xs (upd_current (\<lambda>x. x\<lparr>state := TRANS_INPROGRESS\<rparr>) s)"
        using upd_at[OF assms(1)] b(4) d by (auto simp: lvl_def level_ids_def)
      from clean[OF this] have "ends A (at idle_ctl xs) (\<lambda>_. False)
          (steps [only_if (\<lambda>s. state (current s) = TRANS_START) (upd (upd_current (\<lambda>x. x\<lparr>state := TRANS_INPROGRESS\<rparr>))),
             steps [AbortTransaction conf, CleanupTransaction]] s)"
        using cur b(2,4) d False by (subst ends_steps_Cons) (simp add: ends_upd, subst ends_steps_Cons, simp add: ends_steps_Nil)
      then show ?thesis using cur d False by (simp add: abort_out_step_def)
    qed
  next
    case False
    have s: "at idle_ctl xs (upd_current (\<lambda>x. x\<lparr>blockState := TBLOCK_DEFAULT\<rparr>) s')" if "at [(b, TRANS_DEFAULT, 0, nm)] xs s'" for s'
      using set_block_at[OF that] b(2) by simp
    show ?thesis
    proof (cases "st = TRANS_ABORT")
      case True
      then have "ends A (at idle_ctl xs) (\<lambda>_. False) (steps [CleanupTransaction, set_block TBLOCK_DEFAULT] s)"
        unfolding ends_simps by (intro ends_mono[OF CleanupTransaction_at]) (use assms(1) s in auto)
      then show ?thesis using True b(1,3) cur False by (cases b) (auto simp: abort_out_step_def top_blocks_def)
    next
      case st: False
      have "ends A (at idle_ctl xs) (\<lambda>_. False) (steps [steps [AbortTransaction conf, CleanupTransaction], set_block TBLOCK_DEFAULT] s)"
        unfolding ends_steps_Cons[of _ _ _ "steps _"] ends_steps_Nil
        by (rule ends_mono[OF clean[OF assms(1) st]]) (use s in \<open>auto simp: ends_simps\<close>)
      then show ?thesis using st b(1,3) cur False by (cases b) (auto simp: abort_out_step_def top_blocks_def)
    qed
  qed
qed

text \<open>The exit of a session always returns, and leaves no transaction behind.\<close>

lemma AbortOutOfAnyTransaction_at:
  assumes T: "T \<subseteq> query_tops" and "at cs xs s" "interrupted T cs"
  shows "\<exists>r. AbortOutOfAnyTransaction conf s = Some r \<and> ends A (at idle_ctl xs) (\<lambda>_. False) r"
  using assms(2,3)
proof (induction cs arbitrary: s)
  case Nil
  then show ?case by (simp add: interrupted_def)
next
  case (Cons c cs)
  obtain b st n nm where c: "c = (b, st, n, nm)" by (cases c)
  let ?r = "abort_out_step conf s"
  note a = Cons.prems(1)[unfolded c] and i = Cons.prems(2)[unfolded c]
  have sh: "shaped T ((b, st, n, nm) # cs)" "(st = TRANS_ABORT) = (state_of b = TRANS_ABORT)"
    using i by (simp_all add: interrupted_def)
  have cur: "blockState (current s) = b" "state (current s) = st" using at_current[OF a] by simp_all
  show ?case
  proof (cases cs)
    case Nil
    have r: "ends A (at idle_ctl xs) (\<lambda>_. False) ?r" using abort_out_top a i Nil by simp
    then have "fst ?r = Done \<Longrightarrow> blockState (current (snd ?r)) = TBLOCK_DEFAULT"
      using at_current by (cases ?r) (auto simp: ends_simps)
    then show ?thesis using r by (subst AbortOutOfAnyTransaction.simps) (cases ?r; auto simp: Let_def)
  next
    case C: (Cons c' ds)
    have ne: "b \<notin> top_blocks" "b \<noteq> TBLOCK_PARALLEL_INPROGRESS" using shaped_top[OF sh(1)] shaped_head(2)[OF sh(1)] C by auto
    have "?r = (if st = TRANS_ABORT then CleanupSubTransaction s else steps [AbortSubTransaction conf, CleanupSubTransaction] s)"
      using cur sh(2) ne by (cases b) (auto simp: abort_out_step_def top_blocks_def)
    then have e: "ends A (at cs xs) (\<lambda>_. False) ?r"
      using a CleanupSubTransaction_at[of b n nm c' ds xs s] abort_sub_then[of b st n nm c' ds xs s]
      unfolding C by (cases "st = TRANS_ABORT") auto
    have t: "typed T cs" using sh(1) C shaped_tl by blast
    obtain out s' where r: "?r = (out, s')" by fastforce
    show ?thesis
    proof (cases "out = Done")
      case True
      then have s': "at cs xs s'" using e r by (simp add: ends_simps)
      obtain b' st' n' nm' where c': "c' = (b', st', n', nm')" by (cases c')
      have "blockState (current s') = b'" using at_current s' C c' by auto
      moreover have "b' \<noteq> TBLOCK_DEFAULT"
        using shaped_head(2)[OF sh(1)] C c' T by (cases b) (auto simp: query_tops_def)
      ultimately show ?thesis
        using Cons.IH[OF s' typed_interrupted[OF t]] r True by (subst AbortOutOfAnyTransaction.simps) (simp add: Let_def)
    next
      case False
      then show ?thesis
        using ends_fail[of A "at cs xs" _ out s'] e r by (subst AbortOutOfAnyTransaction.simps) (simp add: Let_def)
    qed
  qed
qed

end

text \<open>Subsystems that fail at any call, as \<open>f\<close> decides, and otherwise change nothing here.\<close>

definition failing :: "(xact_hook \<Rightarrow> session \<Rightarrow> nat option) \<Rightarrow> xact_hook \<Rightarrow> xact" where
  "failing f h s = (case f h s of None \<Rightarrow> (Done, s) | Some n \<Rightarrow> (Raised ERROR (Subsystem n), s))"

lemma failing_ok: "hooks_ok (conf\<lparr>hook := failing f\<rparr>)"
  by (auto simp: hooks_ok_def failing_def ends_simps split: option.splits)

interpretation control: session_ids "conf\<lparr>hook := failing f\<rparr>" "\<lambda>_. True" recording_failures for conf f
  by (rule session_ids_control[OF failing_ok])

definition sample_conf :: xact_conf where
  "sample_conf = \<lparr>IsParallelWorker = False, IsBootstrapProcessingMode = False, RecoveryInProgress = False,
     IsUnderPostmaster = True, DefaultXactReadOnly = False, DefaultXactDeferrable = False,
     DefaultXactIsoLevel = XACT_READ_COMMITTED, XLogLogicalInfoActive = False, XLogStandbyInfoActive = True,
     synchronous_commit = True, XactHasExportedSnapshots = False, nrels = 0, ndroppedstats = 0, nmsgs = 0,
     rec_end = (\<lambda>_. 1), lock_free = True, others = id, hook = failing (\<lambda>_ _. None)\<rparr>"

lemma sample_hooks: "hooks_ok sample_conf"
  using failing_ok[where conf = sample_conf and f = "\<lambda>_ _. None"] by (simp add: sample_conf_def)

lemma steady_control:
  assumes "hooks_ok conf"
  shows "session_ids.steady (\<lambda>_. True) s \<longleftrightarrow>
    typed {} (ctl s) \<and> fst (hd (ctl s)) \<in> (if xact_started s then ready_blocks else resting)"
  by (auto simp: session_ids.steady_def[OF session_ids_control[OF assms]] session_ids.at_def[OF session_ids_control[OF assms]])

lemma initial_ctl [simp]: "ctl (initial_session lx be sh) = idle_ctl" "\<not> xact_started (initial_session lx be sh)"
  by (simp_all add: initial_session_def ctl_def lvl_def TopTransactionStateData_def)

lemma idle_typed [simp]: "typed {} idle_ctl" "TBLOCK_DEFAULT \<in> resting"
  by (simp_all add: typed_def top_blocks_def resting_def)



lemma current_upd [simp]: "xstack s \<noteq> [] \<Longrightarrow> current (upd_current f s) = f (current s)"
  "current (s\<lparr>xact_started := c\<rparr>) = current s"
  by (cases "xstack s"; simp add: current_def)+

lemma sample_begin:
  assumes "blockState (current s) = TBLOCK_DEFAULT" "\<not> xact_started s"
  shows "\<exists>s'. PostgresMain_query sample_conf (Some [BeginStmt]) s = (Done, s')
    \<and> blockState (current s') = TBLOCK_INPROGRESS"
proof -
  let ?b = "\<lambda>b. upd_current (\<lambda>x. x\<lparr>blockState := b\<rparr>)"
  define s1 where "s1 = (?b TBLOCK_STARTED (upd_current (\<lambda>x. x\<lparr>state := TRANS_INPROGRESS\<rparr>) (start_session sample_conf s)))\<lparr>xact_started := True\<rparr>"
  define s2 where "s2 = ?b TBLOCK_INPROGRESS (?b TBLOCK_BEGIN s1)"
  have ne: "xstack s1 \<noteq> []" "xact_started s1"
    by (simp_all add: s1_def start_session_def Let_def upd_my_proc_def split: prod.splits)
  have b1: "blockState (current s1) = TBLOCK_STARTED"
    by (simp add: s1_def start_session_def Let_def upd_my_proc_def current_def split: prod.splits)
  have start: "start_xact_command sample_conf s = (Done, s1)"
    using assms by (simp add: start_xact_command_def StartTransactionCommand_def StartTransaction_def steps.simps upd_def set_block_def
      sample_conf_def failing_def s1_def)
  have body: "exec_statement sample_conf False True BeginStmt s1 = finish_xact_command sample_conf (?b TBLOCK_BEGIN s1)"
    using b1 ne by (simp add: exec_statement_def steps.simps IsAbortedTransactionBlockState_def start_xact_command_def
      BeginTransactionBlock_def set_block_def upd_def end_statement_def split: prod.splits)
  have "CommitTransactionCommandInternal sample_conf (?b TBLOCK_BEGIN s1) = (True, Done, s2)"
    using ne by (simp add: CommitTransactionCommandInternal_def s2_def set_block_def upd_def)
  then have fin: "finish_xact_command sample_conf (?b TBLOCK_BEGIN s1) = (Done, s2\<lparr>xact_started := False\<rparr>)"
    using ne by (simp add: finish_xact_command_def loop_result_def steps.simps upd_def)
      (subst CommitTransactionCommand.simps, simp add: steps.simps upd_def)
  have "exec_simple_query sample_conf (Some [BeginStmt]) s = (Done, s2\<lparr>xact_started := False\<rparr>)"
    unfolding exec_simple_query_def by (simp add: steps.simps start body fin) (simp add: finish_xact_command_def steps.simps)
  then show ?thesis using ne by (simp add: PostgresMain_query_def s2_def)
qed





definition sample_level :: TransactionStateData where
  "sample_level = TopTransactionStateData\<lparr>state := TRANS_INPROGRESS, blockState := TBLOCK_END, nestingLevel := 1\<rparr>"

definition sample_session :: session where
  "sample_session = (initial_session 1 sample_backend sample_shmem)\<lparr>xstack :=
     [sample_level\<lparr>blockState := TBLOCK_SUBCOMMIT, nestingLevel := 2, xact_name := Some ''a''\<rparr>, sample_level]\<rparr>"

lemma sample_session_ctl: "ctl sample_session = [(TBLOCK_SUBCOMMIT, TRANS_INPROGRESS, 2, Some ''a''), (TBLOCK_END, TRANS_INPROGRESS, 1, None)]"
  by (simp add: sample_session_def sample_level_def ctl_def lvl_def TopTransactionStateData_def initial_session_def)

lemma sample_session_typed: "typed {} (ctl sample_session)" "fst (hd (ctl sample_session)) \<noteq> TBLOCK_DEFAULT"
  by (simp_all add: sample_session_ctl typed_def top_blocks_def)




section \<open>Is this transaction id mine?\<close>

text \<open>A binary search finds the ids of an array that is sorted the way it compares.\<close>

lemma xid_bsearch_sound:
  assumes "xid_bsearch lt xids xid low high" "0 \<le> low" "high < int (length xids)"
  shows "xid \<in> set xids"
  using assms
proof (induction lt xids xid low high rule: xid_bsearch.induct)
  case (1 lt xids xid low high)
  let ?m = "low + (high - low) div 2"
  have le: "low \<le> high" using "1.prems"(1) by (subst (asm) xid_bsearch.simps) (simp split: if_splits)
  then have m: "low \<le> ?m" "?m \<le> high" by auto
  then have i: "nat ?m < length xids" using "1.prems" by auto
  consider "xids ! nat ?m = xid" | "xids ! nat ?m \<noteq> xid" "lt (xids ! nat ?m) xid" "xid_bsearch lt xids xid (?m + 1) high"
    | "xids ! nat ?m \<noteq> xid" "\<not> lt (xids ! nat ?m) xid" "xid_bsearch lt xids xid low (?m - 1)"
    using "1.prems"(1) le by (subst (asm) xid_bsearch.simps) (simp add: Let_def split: if_splits)
  then show ?case
  proof cases
    case 1
    then show ?thesis using nth_mem[OF i] by simp
  next
    case 2
    show ?thesis by (rule "1.IH"(1)[OF le refl refl 2]) (use m "1.prems" in auto)
  next
    case 3
    show ?thesis by (rule "1.IH"(2)[OF le refl refl 3]) (use m "1.prems" in auto)
  qed
qed

lemma xid_bsearch_complete:
  assumes "xids ! k = xid" "low \<le> int k" "int k \<le> high" "0 \<le> low" "high < int (length xids)"
    and "\<And>i. i < k \<Longrightarrow> xids ! i \<noteq> xid \<Longrightarrow> lt (xids ! i) xid"
    and "\<And>i. k < i \<Longrightarrow> i < length xids \<Longrightarrow> xids ! i \<noteq> xid \<Longrightarrow> \<not> lt (xids ! i) xid"
  shows "xid_bsearch lt xids xid low high"
  using assms
proof (induction lt xids xid low high rule: xid_bsearch.induct)
  case (1 lt xids xid low high)
  let ?m = "low + (high - low) div 2"
  have le: "low \<le> high" using "1.prems" by simp
  then have m: "low \<le> ?m" "?m \<le> high" by auto
  have lo: "xid_bsearch lt xids xid (?m + 1) high" if p: "xids ! nat ?m \<noteq> xid" "lt (xids ! nat ?m) xid"
  proof -
    have "nat ?m < length xids" using m "1.prems"(4,5) by linarith
    then have "\<not> k < nat ?m" using "1.prems"(7)[of "nat ?m"] p by auto
    moreover have "nat ?m \<noteq> k" using p "1.prems"(1) by auto
    ultimately have "?m + 1 \<le> int k" using m "1.prems"(4) by linarith
    then show ?thesis using "1.IH"(1)[OF le refl refl p "1.prems"(1)] "1.prems" m by auto
  qed
  have hi: "xid_bsearch lt xids xid low (?m - 1)" if p: "xids ! nat ?m \<noteq> xid" "\<not> lt (xids ! nat ?m) xid"
  proof -
    have "\<not> nat ?m < k" using "1.prems"(6)[of "nat ?m"] p by auto
    moreover have "nat ?m \<noteq> k" using p "1.prems"(1) by auto
    ultimately have "int k \<le> ?m - 1" using m "1.prems"(4) by linarith
    then show ?thesis using "1.IH"(2)[OF le refl refl p "1.prems"(1)] "1.prems" m by auto
  qed
  show ?case using le lo hi by (subst xid_bsearch.simps) (simp add: Let_def)
qed

lemma xid_bsearch_correct:
  assumes "sorted_wrt (\<lambda>x y. x = y \<or> lt x y \<and> \<not> lt y x) xids"
  shows "xid_bsearch lt xids xid 0 (int (length xids) - 1) \<longleftrightarrow> xid \<in> set xids"
proof
  show "xid \<in> set xids" if "xid_bsearch lt xids xid 0 (int (length xids) - 1)"
    using xid_bsearch_sound[OF that] by simp
  show "xid_bsearch lt xids xid 0 (int (length xids) - 1)" if x: "xid \<in> set xids"
  proof -
    obtain k where k: "k < length xids" "xids ! k = xid" using x by (auto simp: in_set_conv_nth)
    have "lt (xids ! i) xid" if "i < k" "xids ! i \<noteq> xid" for i
      using sorted_wrt_nth_less[OF assms that(1) k(1)] k(2) that(2) by auto
    moreover have "\<not> lt (xids ! i) xid" if "k < i" "i < length xids" "xids ! i \<noteq> xid" for i
      using sorted_wrt_nth_less[OF assms that(1,2)] k(2) that(3) by auto
    ultimately show ?thesis using k by (intro xid_bsearch_complete) auto
  qed
qed

lemma sort_lt: "sorted_wrt (\<lambda>x y. x = y \<or> x < y \<and> \<not> y < x) (sort xs)" for xs :: "TransactionId list"
  using numeric.asym by (intro sorted_wrt_mono_rel[OF _ sorted_sort[of xs]]) auto

text \<open>The committed children of a level are in id order, and only a level with an id has children.\<close>

definition children_ok :: "TransactionId \<Rightarrow> TransactionStateData \<Rightarrow> bool" where
  "children_ok b x \<longleftrightarrow> sorted_wrt TransactionIdPrecedes (childXids x) \<and> (\<forall>y \<in> set (childXids x). in_window b y)
     \<and> (FullTransactionIdIsValid (fullTransactionId x) \<or> childXids x = [])"

lemma children_bsearch:
  assumes "children_ok b x"
  shows "xid_bsearch TransactionIdPrecedes (childXids x) xid 0 (int (length (childXids x)) - 1) \<longleftrightarrow> xid \<in> set (childXids x)"
proof (rule xid_bsearch_correct)
  show "sorted_wrt (\<lambda>x y. x = y \<or> TransactionIdPrecedes x y \<and> \<not> TransactionIdPrecedes y x) (childXids x)"
    using assms xid_window.asym[of b] unfolding children_ok_def by (blast intro: sorted_wrt_mono_rel)
qed

lemma level_has_xid_iff:
  assumes "children_ok b x" "state x \<noteq> TRANS_ABORT"
  shows "level_has_xid xid x \<longleftrightarrow> xid \<in> set (level_xids x)"
  using assms children_bsearch[OF assms(1)] by (auto simp: level_has_xid_def level_xids_def children_ok_def)

lemma leader_xids:
  assumes "ParallelCurrentXids s = []" "\<forall>x \<in> set (xstack s). children_ok b x \<and> state x \<noteq> TRANS_ABORT"
  shows "TransactionIdIsCurrentTransactionId xid s \<longleftrightarrow>
    TransactionIdIsNormal xid \<and> (xid = GetTopTransactionIdIfAny s \<or> xid \<in> set (concat (map level_xids (xstack s))))"
proof -
  have "(\<exists>x \<in> set (xstack s). level_has_xid xid x) \<longleftrightarrow> (\<exists>x \<in> set (xstack s). xid \<in> set (level_xids x))"
    using assms(2) level_has_xid_iff by blast
  then show ?thesis using assms(1) by (auto simp: TransactionIdIsCurrentTransactionId_def list_ex_iff)
qed

lemma worker_state:
  assumes "hooks_ok conf" "StartParallelWorkerTransaction conf t s = (Done, w)"
  shows "\<exists>x. xstack w = [x] \<and> fullTransactionId x = ser_currentFullTransactionId t"
    "XactTopFullTransactionId w = ser_topFullTransactionId t" "currentCommandId w = ser_currentCommandId t"
    "ParallelCurrentXids w = ser_parallelCurrentXids t" "XactIsoLevel w = ser_xactIsoLevel t"
proof -
  obtain s1 where s1: "hook conf AtStart (start_session conf s) = (Done, s1)"
    and w: "w = upd_current (\<lambda>x. x\<lparr>blockState := TBLOCK_PARALLEL_INPROGRESS\<rparr>)
      (upd_current (\<lambda>x. x\<lparr>fullTransactionId := ser_currentFullTransactionId t\<rparr>)
        ((upd_current (\<lambda>x. x\<lparr>state := TRANS_INPROGRESS\<rparr>) s1)\<lparr>XactIsoLevel := ser_xactIsoLevel t,
          XactDeferrable := ser_xactDeferrable t, XactTopFullTransactionId := ser_topFullTransactionId t,
          currentCommandId := ser_currentCommandId t, ParallelCurrentXids := ser_parallelCurrentXids t\<rparr>))"
    using assms(2) unfolding StartParallelWorkerTransaction_def StartTransaction_def set_block_def
    by (auto simp: steps_Done steps_Nil_Done upd_def)
  have "length (xstack (start_session conf s)) = 1"
    by (simp add: start_session_def upd_my_proc_def Let_def split: prod.splits)
  moreover from this have "ends {} (\<lambda>s'. ctl s' = ctl (start_session conf s)) (\<lambda>_. True) (Done, s1)"
    using assms(1) s1 unfolding hooks_ok_def by (metis (no_types, lifting) ends_Done ends_mono length_0_conv zero_neq_one)
  ultimately obtain x where "xstack s1 = [x]" by (auto simp: ends_simps ctl_def length_Suc_conv dest: map_eq_imp_length_eq)
  then show "\<exists>x. xstack w = [x] \<and> fullTransactionId x = ser_currentFullTransactionId t" by (simp add: w)
  show "XactTopFullTransactionId w = ser_topFullTransactionId t" "currentCommandId w = ser_currentCommandId t"
    "ParallelCurrentXids w = ser_parallelCurrentXids t" "XactIsoLevel w = ser_xactIsoLevel t" by (simp_all add: w upd_level_def)
qed

text \<open>
  C8.  A parallel worker started from the serialized state of its leader gives the same answers as the
  leader: the same top and current ids, command id and isolation level, and for every id the same
  answer to whether it belongs to the current transaction, although the worker has one level only and
  searches an array in numeric order instead of the levels in id order.
\<close>

theorem parallel_worker_agrees:
  assumes "hooks_ok conf" "ParallelCurrentXids s = []" "xstack s \<noteq> []"
    and "\<forall>x \<in> set (xstack s). children_ok b x \<and> state x \<noteq> TRANS_ABORT"
    and "StartParallelWorkerTransaction conf (SerializeTransactionState s) s0 = (Done, w)"
  shows "TransactionIdIsCurrentTransactionId xid w = TransactionIdIsCurrentTransactionId xid s
    \<and> GetTopTransactionIdIfAny w = GetTopTransactionIdIfAny s
    \<and> GetCurrentTransactionIdIfAny w = GetCurrentTransactionIdIfAny s
    \<and> currentCommandId w = currentCommandId s \<and> XactIsoLevel w = XactIsoLevel s"
proof -
  let ?xids = "concat (map level_xids (xstack s))"
  note ws = worker_state[OF assms(1,5)]
  obtain x where x: "xstack w = [x]" "fullTransactionId x = fullTransactionId (current s)"
    using ws(1) by (auto simp: SerializeTransactionState_def)
  have par: "ParallelCurrentXids w = sort ?xids" "GetTopTransactionIdIfAny w = GetTopTransactionIdIfAny s"
    using ws(2,4) assms(2) by (auto simp: SerializeTransactionState_def GetTopTransactionIdIfAny_def)
  have none: "\<not> FullTransactionIdIsValid (fullTransactionId x)" if "?xids = []"
    using that assms(3) x(2) by (cases "xstack s") (auto simp: level_xids_def current_def)
  have "TransactionIdIsCurrentTransactionId xid w \<longleftrightarrow>
      TransactionIdIsNormal xid \<and> (xid = GetTopTransactionIdIfAny s \<or> xid \<in> set ?xids)"
  proof (cases "?xids = []")
    case True
    moreover from this have "ParallelCurrentXids w = []" by (subst par(1), subst True) simp
    ultimately show ?thesis using none x par(2) by (simp add: TransactionIdIsCurrentTransactionId_def level_has_xid_def)
  next
    case False
    then have "sort ?xids \<noteq> []" by (metis set_empty set_sort)
    then show ?thesis
      unfolding TransactionIdIsCurrentTransactionId_def par using xid_bsearch_correct[OF sort_lt[of ?xids]] by simp
  qed
  then show ?thesis using leader_xids[OF assms(2,4)] x par(2) ws
    by (simp add: GetCurrentTransactionIdIfAny_def current_def SerializeTransactionState_def)
qed

definition sample_leader :: session where
  "sample_leader = (initial_session 1 sample_backend sample_shmem)\<lparr>XactTopFullTransactionId := \<lparr>fxid_value = 20\<rparr>, xstack :=
     [sample_level\<lparr>blockState := TBLOCK_SUBINPROGRESS, nestingLevel := 2, fullTransactionId := \<lparr>fxid_value = 23\<rparr>\<rparr>,
      sample_level\<lparr>blockState := TBLOCK_INPROGRESS, fullTransactionId := \<lparr>fxid_value = 20\<rparr>, childXids := [21, 22]\<rparr>]\<rparr>"

lemma sample_worker: "fst (StartParallelWorkerTransaction sample_conf t s0) = Done"
  by (simp add: StartParallelWorkerTransaction_def StartTransaction_def steps.simps upd_def sample_conf_def failing_def set_block_def)

lemma sample_children: "in_window 3 21" "in_window 3 22" "TransactionIdPrecedes 21 22"
  by (simp_all add: in_window_def xid_pos_def TransactionIdIsNormal_def FirstNormalTransactionId_def TransactionIdPrecedes_def)

theorem parallel_worker_agrees_witness:
  "(let w = snd (StartParallelWorkerTransaction sample_conf (SerializeTransactionState sample_leader)
        (initial_session 2 sample_backend sample_shmem))
    in TransactionIdIsCurrentTransactionId 22 w = TransactionIdIsCurrentTransactionId 22 sample_leader
      \<and> GetTopTransactionIdIfAny w = GetTopTransactionIdIfAny sample_leader
      \<and> GetCurrentTransactionIdIfAny w = GetCurrentTransactionIdIfAny sample_leader
      \<and> currentCommandId w = currentCommandId sample_leader \<and> XactIsoLevel w = XactIsoLevel sample_leader)"
  unfolding Let_def
proof (rule parallel_worker_agrees[OF sample_hooks])
  show "StartParallelWorkerTransaction sample_conf (SerializeTransactionState sample_leader) (initial_session 2 sample_backend sample_shmem)
    = (Done, snd (StartParallelWorkerTransaction sample_conf (SerializeTransactionState sample_leader) (initial_session 2 sample_backend sample_shmem)))"
    using sample_worker by (metis prod.collapse)
  show "\<forall>x \<in> set (xstack sample_leader). children_ok 3 x \<and> state x \<noteq> TRANS_ABORT"
    using sample_children by (simp add: sample_leader_def children_ok_def sample_level_def TopTransactionStateData_def FullTransactionIdIsValid_def
      XidFromFullTransactionId_def TransactionIdIsValid_def InvalidTransactionId_def)
qed (simp_all add: sample_leader_def initial_session_def)

end
