(* ===== verification/Spec2Isabelle.thy ===== *)
theory Spec2Isabelle
  imports Prelude Xid Clog Subtrans Transam Order KnownAssigned Varsup ProcArray Snapshot XactSystem Horizons Visibility RowFates VisSystem Xact XactBlock XactControl
begin

text \<open>
  Verification of the transaction core of PostgreSQL 17 (\<^verbatim>\<open>src/workspace/postgres-src\<close>): transaction ids and
  their allocation, the commit log and the subtransaction log, the array of running processes, snapshots,
  removal horizons, row visibility, and the transaction manager of a session with the statements that
  drive it.

  \<^bold>\<open>How the parts interact.\<close>  A session (\<^verbatim>\<open>xact.c\<close>) keeps a stack of transaction states.  When it first
  writes, it takes an id from the shared counter (\<^verbatim>\<open>varsup.c\<close>), which also enters the id in the process array
  (\<^verbatim>\<open>procarray.c\<close>) and extends the logs; the id of a subtransaction is linked to its parent in the
  subtransaction log (\<^verbatim>\<open>subtrans.c\<close>).  The end of a transaction is recorded for its whole tree in the commit log
  (\<^verbatim>\<open>clog.c\<close>, through \<^verbatim>\<open>transam.c\<close>), and then the ids leave the process array.  Readers take snapshots of
  the array and decide by snapshot, array and logs which row versions they see (\<^verbatim>\<open>heapam_visibility.c\<close>);
  vacuum computes from the array which versions nobody can see.  On a standby the known-assigned ids stand
  in for the running processes.

  \<^bold>\<open>The theories.\<close>  Each theory follows one source file or one part of it, under the source's names.

  \<^item> \<open>Prelude\<close>: C integer types, shared lemmas and collections.  \<open>Xid\<close> (\<^verbatim>\<open>transam.h\<close>, comparisons of
    \<^verbatim>\<open>transam.c\<close>): 32-bit ids are words and compare on the ring; the 64-bit ids are a record of one word.
    Shown: comparison agrees with the 64-bit order for ids less than half a ring apart, and the widening
    functions invert truncation.  \<open>Order\<close>: the interface \<open>strict_order_on\<close> of sorted id arrays, for the
    order on a window of the ring and for the numeric order.
  \<^item> \<open>Clog\<close>, \<open>Subtrans\<close>, \<open>Transam\<close>: the logs are maps from pages to bytes and entries; tree updates are the
    list of page updates that the code makes one after the other.  Shown: what updates change, that a commit
    becomes visible at once for the whole tree between any two page updates, that it is durable, that the
    walk to the top ends, and that commit tests return.  The interfaces \<open>parent_log\<close> and \<open>status_log\<close> are
    instantiated by the subtransaction log and the commit log.
  \<^item> \<open>Varsup\<close>: id and OID counters with the wraparound limits; no id is handed out twice within a ring.
    \<open>KnownAssigned\<close>: the sorted array of a standby, refined to a set of ids.
  \<^item> \<open>ProcArray\<close>: processes, the dense mirror arrays, start and end of transactions, group clearing;
    \<open>proc_table\<close> is its interface.  \<open>Snapshot\<close>: \<^verbatim>\<open>GetSnapshotData\<close>, \<^verbatim>\<open>XidInMVCCSnapshot\<close> and
    \<^verbatim>\<open>TransactionIdIsInProgress\<close>.  \<open>XactSystem\<close>: the steps of all processes on the shared memory, in any
    order, as an inductive relation \<open>xact_step\<close> with an invariant; snapshots and the test for running
    ids are correct in every reachable state.  \<open>Horizons\<close>: \<^verbatim>\<open>ComputeXidHorizons\<close> and the
    approximate horizons; what they call removable is invisible to everyone, now and later.
  \<^item> \<open>Visibility\<close>, \<open>RowFates\<close>, \<open>VisSystem\<close>: all tests of \<^verbatim>\<open>heapam_visibility.c\<close> in the state monad over
    the tuple header and the time, so that transactions may end between two questions of a test.  The
    interface \<open>xact_history\<close> says what the answers have to do with the fates of transactions; the
    running system provides it (\<open>running_system\<close>).  Shown: isolation of MVCC snapshots, safety of vacuum,
    atomicity and meaning of the other tests, truth of hint bits.
  \<^item> \<open>Xact\<close>: the transaction manager.  The head of \<open>xstack\<close> is \<^verbatim>\<open>CurrentTransactionState\<close>; an operation maps a
    session to an outcome (return, error of a level, or no return) and a session, and \<open>steps\<close> runs operations in
    order until one fails, like the jump of \<^verbatim>\<open>ereport\<close>.  Its last sections are \<^verbatim>\<open>exec_simple_query\<close> and the
    error recovery of \<^verbatim>\<open>PostgresMain\<close> (\<^verbatim>\<open>postgres.c\<close>), the transaction statements of \<^verbatim>\<open>utility.c\<close> and the
    exception blocks of PL/pgSQL.  \<open>XactBlock\<close>: the typing of block states and that every operation keeps
    it, over the interface \<open>session_ids\<close>.  \<open>XactControl\<close>: the interface is provided for every session whose
    subsystems leave the transaction state alone; sequences of query messages keep sessions well typed,
    \<^verbatim>\<open>ROLLBACK\<close> and the exit of a session always get out of a transaction, and parallel workers agree
    with their leader.

  \<^bold>\<open>Loops, bounds and time.\<close>  Loops with an obvious measure are functions with a termination proof.
  Loops whose end depends on the data are \<^verbatim>\<open>partial_function (option)\<close>: the walks through parents, the
  lists of a group clearing, and the loops of \<^verbatim>\<open>CommitTransactionCommand\<close>, \<^verbatim>\<open>AbortCurrentTransaction\<close>
  and \<^verbatim>\<open>AbortOutOfAnyTransaction\<close>; that they return is proved where a property needs it.  No fuel is used.
  Machine words keep their width, so wrap-around of ids, counters and log positions is part of the model.
  Properties about order assume that the ids at hand lie in a window of half the ring, which the
  limits of \<open>Varsup\<close> maintain.

  \<^bold>\<open>What is a parameter.\<close>  The other processes (\<open>others\<close>), the subsystems called at the start and end of
  transactions (\<open>hook\<close>: locks, caches, files, triggers, portals, two-phase state files), the members of
  multixacts, the combo command ids and the position of the log appear as arguments; what is assumed of
  them is stated in the theorems.

  \<^bold>\<open>What is not modelled.\<close>  Page replacement and disk I/O of the logs, the contents of log records and
  their replay, the lock manager (each operation is atomic under the lock the code holds), timestamps,
  memory contexts, parsing, planning and execution of queries, the extended query protocol, index access
  methods, replication, server processes and client programs.  They are I/O, or are not reached from the
  transaction core except through the parameters above.
\<close>

end
